(* ===== verification/Rust_Prelude.thy ===== *)
theory Rust_Prelude
  imports Main "HOL-Library.Word" "HOL-Library.AList"
begin

text \<open>
  What the components share: the machine integers of a 64-bit target, Rust strings and
  byte buffers as byte lists, ASCII case mapping, and the two standard collections the
  sources use, \<open>HashMap\<close> (an association list with distinct keys, iterated in list
  order) and \<open>BTreeMap\<close> (an association list sorted by key). The collections satisfy one
  interface, the locale \<open>finite_map\<close>, so that a component that keeps both reasons
  about them with the same laws; \<open>ordered_map\<close> adds \<open>pop_first\<close>. Interleavings share \<open>tally\<close> and the
  locale \<open>step_system\<close>.

  A Rust \<open>Result\<close> is a sum, \<open>Inl\<close> the error. A byte is a \<open>char\<close> (HOL's
  characters are the 256 byte values), so that \<open>String\<close>, \<open>&str\<close> and
  \<open>Bytes\<close> are all lists of \<open>char\<close> and literals stay readable.
\<close>

named_theorems rust_arith \<open>checked and saturating arithmetic\<close>

type_synonym u64 = "64 word"
type_synonym bytes = "char list"

section \<open>Machine integers\<close>

text \<open>
  A \<open>usize\<close> or \<open>u64\<close> that only counts or bounds is a \<open>nat\<close> with the range
  check written out; one that wraps is a \<^typ>\<open>64 word\<close>.
\<close>

definition u64_max :: nat where
  "u64_max = 2 ^ 64 - 1"

definition checked_add :: "nat \<Rightarrow> nat \<Rightarrow> nat option" where
  "checked_add a b = (if a + b \<le> u64_max then Some (a + b) else None)"

definition checked_mul :: "nat \<Rightarrow> nat \<Rightarrow> nat option" where
  "checked_mul a b = (if a * b \<le> u64_max then Some (a * b) else None)"

definition checked_sub :: "nat \<Rightarrow> nat \<Rightarrow> nat option" where
  "checked_sub a b = (if b \<le> a then Some (a - b) else None)"

definition saturating_add :: "nat \<Rightarrow> nat \<Rightarrow> nat" where
  "saturating_add a b = min (a + b) u64_max"

definition saturating_mul :: "nat \<Rightarrow> nat \<Rightarrow> nat" where
  "saturating_mul a b = min (a * b) u64_max"

lemma checked_add_Some_iff [rust_arith]:
  "checked_add a b = Some c \<longleftrightarrow> c = a + b \<and> a + b \<le> u64_max"
  by (auto simp: checked_add_def)

lemma checked_mul_Some_iff [rust_arith]:
  "checked_mul a b = Some c \<longleftrightarrow> c = a * b \<and> a * b \<le> u64_max"
  by (auto simp: checked_mul_def)

lemma checked_sub_Some_iff [rust_arith]:
  "checked_sub a b = Some c \<longleftrightarrow> b \<le> a \<and> c = a - b"
  by (auto simp: checked_sub_def)

lemma checked_sub_None_iff [rust_arith]: "checked_sub a b = None \<longleftrightarrow> a < b"
  by (auto simp: checked_sub_def)

lemma checked_sub_1_0 [simp]: "checked_sub 0 (Suc 0) = None"
  by (simp add: checked_sub_def)

lemma checked_sub_1_Suc [simp]: "checked_sub (Suc n) (Suc 0) = Some n"
  by (simp add: checked_sub_def)

lemma word_succ_less:
  fixes w v :: u64
  assumes "v < w" and "w \<noteq> - 1"
  shows "v < w + 1" and "w < w + 1"
proof -
  have "w + 1 \<noteq> 0"
    using assms(2) by (simp add: add_eq_0_iff2)
  then have "unat (w + 1) = Suc (unat w)"
    by (simp add: unatSuc add.commute)
  then show "v < w + 1" and "w < w + 1"
    using assms(1) by (simp_all add: word_less_nat_alt)
qed

section \<open>Results\<close>

text \<open>The \<open>?\<close> operator on a \<open>Result\<close>, and a condition that must hold.\<close>

definition res_bind :: "'e + 'a \<Rightarrow> ('a \<Rightarrow> 'e + 'b) \<Rightarrow> 'e + 'b" where
  "res_bind r k = (case r of Inl e \<Rightarrow> Inl e | Inr a \<Rightarrow> k a)"

definition ensure :: "bool \<Rightarrow> 'e \<Rightarrow> 'e + unit" where
  "ensure b e = (if b then Inr () else Inl e)"

lemma res_bind_simps [simp]:
  "res_bind (Inl e) k = Inl e"
  "res_bind (Inr a) k = k a"
  by (simp_all add: res_bind_def)

lemma res_bind_Inr_iff: "res_bind r k = Inr b \<longleftrightarrow> (\<exists>a. r = Inr a \<and> k a = Inr b)"
  by (cases r) simp_all

lemma ensure_Inr_iff [simp]: "ensure b e = Inr u \<longleftrightarrow> b"
  by (simp add: ensure_def)

lemma res_bind_cong [fundef_cong]:
  assumes "r = r'" and "\<And>a. r' = Inr a \<Longrightarrow> k a = k' a"
  shows "res_bind r k = res_bind r' k'"
  using assms by (cases r') simp_all

section \<open>Strings and bytes\<close>

definition byte_of :: "char \<Rightarrow> nat" where
  "byte_of c = of_char c"

definition ascii_upper_char :: "char \<Rightarrow> char" where
  "ascii_upper_char c =
     (if 97 \<le> byte_of c \<and> byte_of c \<le> 122 then char_of (byte_of c - 32) else c)"

definition ascii_lower_char :: "char \<Rightarrow> char" where
  "ascii_lower_char c =
     (if 65 \<le> byte_of c \<and> byte_of c \<le> 90 then char_of (byte_of c + 32) else c)"

definition to_ascii_uppercase :: "bytes \<Rightarrow> bytes" where
  "to_ascii_uppercase s = map ascii_upper_char s"

definition to_ascii_lowercase :: "bytes \<Rightarrow> bytes" where
  "to_ascii_lowercase s = map ascii_lower_char s"

definition eq_ignore_ascii_case :: "bytes \<Rightarrow> bytes \<Rightarrow> bool" where
  "eq_ignore_ascii_case a b \<longleftrightarrow> to_ascii_lowercase a = to_ascii_lowercase b"

lemma byte_of_less [simp]: "byte_of c < 256"
  by (simp add: byte_of_def)

lemma byte_of_char_of [simp]: "n < 256 \<Longrightarrow> byte_of (char_of n) = n"
  by (simp add: byte_of_def)

lemma char_of_byte_of [simp]: "char_of (byte_of c) = c"
  by (simp add: byte_of_def)

lemma byte_of_inject [simp]: "byte_of c = byte_of d \<longleftrightarrow> c = d"
  by (simp add: byte_of_def)

text \<open>For evaluating case mappings of literals.\<close>

lemma char_of_eq_iff: "char_of (n::nat) = c \<longleftrightarrow> n mod 256 = of_char c"
  by (metis char_of_char of_char_of)

lemma ascii_upper_char_idem [simp]: "ascii_upper_char (ascii_upper_char c) = ascii_upper_char c"
  by (auto simp: ascii_upper_char_def)

lemma to_ascii_uppercase_idem [simp]:
  "to_ascii_uppercase (to_ascii_uppercase s) = to_ascii_uppercase s"
  by (simp add: to_ascii_uppercase_def)

lemma to_ascii_uppercase_Nil_iff [simp]: "to_ascii_uppercase s = [] \<longleftrightarrow> s = []"
  by (simp add: to_ascii_uppercase_def)

lemma length_to_ascii_uppercase [simp]: "length (to_ascii_uppercase s) = length s"
  by (simp add: to_ascii_uppercase_def)

lemma length_to_ascii_lowercase [simp]: "length (to_ascii_lowercase s) = length s"
  by (simp add: to_ascii_lowercase_def)

lemma ascii_lower_upper_char [simp]: "ascii_lower_char (ascii_upper_char c) = ascii_lower_char c"
  by (auto simp: ascii_upper_char_def ascii_lower_char_def)

lemma ascii_upper_lower_char [simp]: "ascii_upper_char (ascii_lower_char c) = ascii_upper_char c"
  by (auto simp: ascii_upper_char_def ascii_lower_char_def)

lemma eq_ignore_ascii_case_upper_iff:
  "eq_ignore_ascii_case a b \<longleftrightarrow> to_ascii_uppercase a = to_ascii_uppercase b"
proof -
  have low: "to_ascii_lowercase s = to_ascii_lowercase (to_ascii_uppercase s)" for s
    by (simp add: to_ascii_lowercase_def to_ascii_uppercase_def)
  have up: "to_ascii_uppercase s = to_ascii_uppercase (to_ascii_lowercase s)" for s
    by (simp add: to_ascii_lowercase_def to_ascii_uppercase_def)
  show ?thesis
    unfolding eq_ignore_ascii_case_def using low up by metis
qed

section \<open>Collections\<close>

text \<open>
  The interface of a finite map, with the function it stores (\<open>lookup\<close>) as its
  abstraction: \<open>invar\<close> is what every operation keeps, and \<open>size\<close> counts the keys.
\<close>

locale finite_map =
  fixes emp :: "'m"
    and lookup :: "'m \<Rightarrow> 'k \<Rightarrow> 'v option"
    and ins :: "'k \<Rightarrow> 'v \<Rightarrow> 'm \<Rightarrow> 'm"
    and rem :: "'k \<Rightarrow> 'm \<Rightarrow> 'm"
    and len :: "'m \<Rightarrow> nat"
    and invar :: "'m \<Rightarrow> bool"
  assumes lookup_emp: "lookup emp = Map.empty"
    and lookup_ins: "invar m \<Longrightarrow> lookup (ins k v m) = (lookup m)(k \<mapsto> v)"
    and lookup_rem: "invar m \<Longrightarrow> lookup (rem k m) = (lookup m)(k := None)"
    and invar_emp: "invar emp"
    and invar_ins: "invar m \<Longrightarrow> invar (ins k v m)"
    and invar_rem: "invar m \<Longrightarrow> invar (rem k m)"
    and finite_dom: "invar m \<Longrightarrow> finite (dom (lookup m))"
    and len_card: "invar m \<Longrightarrow> len m = card (dom (lookup m))"
begin

lemma len_ins_new:
  assumes "invar m" and "lookup m k = None"
  shows "len (ins k v m) = Suc (len m)"
  using assms by (simp add: len_card invar_ins lookup_ins finite_dom domIff)

lemma len_ins_old:
  assumes "invar m" and "lookup m k = Some w"
  shows "len (ins k v m) = len m"
  using assms by (simp add: len_card invar_ins lookup_ins insert_absorb domI)

lemma len_rem_old:
  assumes "invar m" and "lookup m k = Some w"
  shows "Suc (len (rem k m)) = len m"
proof -
  have "k \<in> dom (lookup m)" and "finite (dom (lookup m))"
    using assms by (auto intro: finite_dom)
  then show ?thesis
    using assms card_Suc_Diff1 [of "dom (lookup m)" k]
    by (simp add: len_card invar_rem lookup_rem)
qed

lemma len_rem_le:
  assumes "invar m"
  shows "len (rem k m) \<le> len m"
  using assms by (simp add: len_card invar_rem lookup_rem finite_dom card_Diff1_le)

lemma len_eq_0:
  assumes "invar m"
  shows "len m = 0 \<longleftrightarrow> lookup m = Map.empty"
  using assms by (simp add: len_card finite_dom)

end

locale ordered_map = finite_map emp lookup ins rem len invar
  for emp :: "'m" and lookup :: "'m \<Rightarrow> 'k::linorder \<Rightarrow> 'v option" and ins rem len invar +
  fixes pop_first :: "'m \<Rightarrow> ('k \<times> 'v) option \<times> 'm"
  assumes pop_first_None: "invar m \<Longrightarrow> pop_first m = (None, m') \<Longrightarrow> lookup m = Map.empty \<and> m' = m"
    and pop_first_Some: "invar m \<Longrightarrow> pop_first m = (Some (k, v), m') \<Longrightarrow>
      lookup m k = Some v \<and> (\<forall>k' \<in> dom (lookup m). k \<le> k') \<and> m' = rem k m"
begin

lemma pop_first_least:
  assumes "invar m" and "lookup m k = Some v"
  obtains k0 v0 where "pop_first m = (Some (k0, v0), rem k0 m)" "k0 \<le> k" "lookup m k0 = Some v0"
proof -
  obtain r m' where p: "pop_first m = (r, m')" by (cases "pop_first m")
  show thesis
  proof (cases r)
    case None
    with p assms pop_first_None have False by fastforce
    then show thesis ..
  next
    case (Some kv)
    then obtain k0 v0 where kv: "r = Some (k0, v0)" by (cases kv) auto
    with p have q: "pop_first m = (Some (k0, v0), m')" by simp
    from pop_first_Some [OF assms(1) q] assms(2) q show thesis
      by (intro that [of k0 v0]) auto
  qed
qed

end

subsection \<open>HashMap\<close>

type_synonym ('k, 'v) hash_map = "('k \<times> 'v) list"

abbreviation hm_get :: "('k, 'v) hash_map \<Rightarrow> 'k \<Rightarrow> 'v option" where
  "hm_get \<equiv> map_of"

abbreviation hm_insert :: "'k \<Rightarrow> 'v \<Rightarrow> ('k, 'v) hash_map \<Rightarrow> ('k, 'v) hash_map" where
  "hm_insert \<equiv> AList.update"

abbreviation hm_remove :: "'k \<Rightarrow> ('k, 'v) hash_map \<Rightarrow> ('k, 'v) hash_map" where
  "hm_remove \<equiv> AList.delete"

definition hm_wf :: "('k, 'v) hash_map \<Rightarrow> bool" where
  "hm_wf m \<longleftrightarrow> distinct (map fst m)"

lemma length_hm_card: "hm_wf m \<Longrightarrow> length m = card (dom (map_of m))"
  by (metis distinct_card dom_map_of_conv_image_fst hm_wf_def length_map set_map)

interpretation hm: finite_map "[]" hm_get hm_insert hm_remove length hm_wf
proof
  show "hm_get [] = Map.empty" by simp
next
  fix m :: "('a, 'b) hash_map" and k v
  assume "hm_wf m"
  show "hm_get (hm_insert k v m) = (hm_get m)(k \<mapsto> v)" by (rule update_conv')
  show "hm_get (hm_remove k m) = (hm_get m)(k := None)" by (rule delete_conv')
  show "hm_wf (hm_insert k v m)" using \<open>hm_wf m\<close> by (simp add: hm_wf_def distinct_update)
  show "hm_wf (hm_remove k m)" using \<open>hm_wf m\<close> by (simp add: hm_wf_def distinct_delete)
  show "finite (dom (hm_get m))" by (rule finite_dom_map_of)
  show "length m = card (dom (hm_get m))" using \<open>hm_wf m\<close> by (rule length_hm_card)
qed (simp add: hm_wf_def)

subsection \<open>BTreeMap\<close>

type_synonym ('k, 'v) btree_map = "('k \<times> 'v) list"

fun bt_insert :: "'k::linorder \<Rightarrow> 'v \<Rightarrow> ('k, 'v) btree_map \<Rightarrow> ('k, 'v) btree_map" where
  "bt_insert k v [] = [(k, v)]"
| "bt_insert k v ((k', v') # m) =
     (if k < k' then (k, v) # (k', v') # m
      else if k = k' then (k, v) # m
      else (k', v') # bt_insert k v m)"

definition bt_remove :: "'k::linorder \<Rightarrow> ('k, 'v) btree_map \<Rightarrow> ('k, 'v) btree_map" where
  "bt_remove k m = filter (\<lambda>(k', _). k' \<noteq> k) m"

fun bt_pop_first :: "('k, 'v) btree_map \<Rightarrow> ('k \<times> 'v) option \<times> ('k, 'v) btree_map" where
  "bt_pop_first [] = (None, [])"
| "bt_pop_first (kv # m) = (Some kv, m)"

definition bt_wf :: "('k::linorder, 'v) btree_map \<Rightarrow> bool" where
  "bt_wf m \<longleftrightarrow> sorted_wrt (<) (map fst m)"

lemma bt_wf_Cons: "bt_wf ((k, v) # m) \<longleftrightarrow> (\<forall>k' \<in> fst ` set m. k < k') \<and> bt_wf m"
  by (auto simp: bt_wf_def)

lemma fst_set_bt_insert: "fst ` set (bt_insert k v m) = insert k (fst ` set m)"
  by (induction k v m rule: bt_insert.induct) (simp_all add: insert_commute)

lemma bt_wf_insert: "bt_wf m \<Longrightarrow> bt_wf (bt_insert k v m)"
proof (induction m)
  case Nil
  then show ?case by (simp add: bt_wf_def)
next
  case (Cons kv m)
  obtain k' v' where kv: "kv = (k', v')" by (cases kv)
  from Cons have "bt_wf (bt_insert k v m)" by (simp add: kv bt_wf_Cons)
  with Cons.prems show ?case
    by (auto simp: kv bt_wf_Cons fst_set_bt_insert intro: less_trans)
qed

lemma map_of_bt_insert: "bt_wf m \<Longrightarrow> map_of (bt_insert k v m) = (map_of m)(k \<mapsto> v)"
  by (induction m) (auto simp: bt_wf_Cons fun_eq_iff)

lemma bt_wf_distinct: "bt_wf m \<Longrightarrow> distinct (map fst m)"
  by (simp add: bt_wf_def strict_sorted_iff)

lemma map_of_bt_remove: "map_of (bt_remove k m) = (map_of m)(k := None)"
  by (induction m) (auto simp: bt_remove_def fun_eq_iff)

lemma bt_wf_remove: "bt_wf m \<Longrightarrow> bt_wf (bt_remove k m)"
  by (induction m) (auto simp: bt_remove_def bt_wf_def)

lemma bt_remove_first:
  "bt_wf ((k, v) # m) \<Longrightarrow> bt_remove k ((k, v) # m) = m"
  by (auto simp: bt_wf_Cons bt_remove_def intro!: filter_True)

interpretation bt: ordered_map "[]" map_of bt_insert bt_remove length bt_wf bt_pop_first
proof
  show "map_of [] = Map.empty" by simp
next
  fix m m' :: "('a, 'b) btree_map" and k v
  assume wf: "bt_wf m"
  show "map_of (bt_insert k v m) = (map_of m)(k \<mapsto> v)" using wf by (rule map_of_bt_insert)
  show "map_of (bt_remove k m) = (map_of m)(k := None)" by (rule map_of_bt_remove)
  show "bt_wf (bt_insert k v m)" using wf by (rule bt_wf_insert)
  show "bt_wf (bt_remove k m)" using wf by (rule bt_wf_remove)
  show "finite (dom (map_of m))" by (rule finite_dom_map_of)
  show "length m = card (dom (map_of m))"
    using bt_wf_distinct [OF wf] by (simp add: length_hm_card hm_wf_def)
  show "map_of m = Map.empty \<and> m' = m" if "bt_pop_first m = (None, m')"
    using that by (cases m) auto
  show "map_of m k = Some v \<and> (\<forall>k' \<in> dom (map_of m). k \<le> k') \<and> m' = bt_remove k m"
    if "bt_pop_first m = (Some (k, v), m')"
    using that wf bt_remove_first [of k v m']
    by (cases m) (auto simp: bt_wf_Cons dom_map_of_conv_image_fst intro: less_imp_le)
qed (simp add: bt_wf_def)

section \<open>Counting\<close>

text \<open>How many elements of a list, such as the requests of an interleaving, are in some condition.\<close>

definition tally :: "('a \<Rightarrow> bool) \<Rightarrow> 'a list \<Rightarrow> nat" where
  "tally P xs = length (filter P xs)"

lemma tally_append [simp]: "tally P (xs @ [x]) = tally P xs + (if P x then 1 else 0)"
  by (simp add: tally_def)

lemma tally_app: "tally P (xs @ ys) = tally P xs + tally P ys"
  by (simp add: tally_def)

lemma tally_simps [simp]: "tally P [] = 0" "tally P (x # xs) = (if P x then 1 else 0) + tally P xs"
  by (simp_all add: tally_def)

lemma tally_update:
  "r < length xs \<Longrightarrow> tally P (xs[r := x]) + (if P (xs ! r) then 1 else 0) = tally P xs + (if P x then 1 else 0)"
proof (induction xs arbitrary: r)
  case (Cons y xs)
  then show ?case by (cases r) (use Cons.IH [of "r - 1"] in \<open>auto simp: tally_def split: if_splits\<close>)
qed simp

lemma tally_mono: "(\<And>x. P x \<Longrightarrow> Q x) \<Longrightarrow> tally P xs \<le> tally Q xs"
  unfolding tally_def by (induction xs) auto

lemma tally_exists: "0 < tally P xs \<Longrightarrow> \<exists>r < length xs. P (xs ! r)"
  by (auto simp: tally_def filter_empty_conv in_set_conv_nth)

lemma tally_pos: "r < length xs \<Longrightarrow> P (xs ! r) \<Longrightarrow> 0 < tally P xs"
  unfolding tally_def by (simp add: filter_empty_conv) (meson nth_mem)

lemma two_in_tally:
  assumes "r < length xs" "r' < length xs" "P (xs ! r)" "P (xs ! r')" "r \<noteq> r'"
  shows "2 \<le> tally P xs"
proof -
  have "card {r, r'} \<le> card {i. i < length xs \<and> P (xs ! i)}"
    by (rule card_mono) (use assms in auto)
  then show ?thesis using assms(5) by (simp add: tally_def length_filter_conv_card)
qed

section \<open>Step systems\<close>

text \<open>
  Operations behind one lock interleave as a sequence of atomic steps. The interface is what an
  invariant needs; its client fact is that every reachable state has it.
\<close>

locale step_system =
  fixes init :: "'s \<Rightarrow> bool"
    and step :: "'s \<Rightarrow> 's \<Rightarrow> bool"
    and inv :: "'s \<Rightarrow> bool"
  assumes inv_init: "init s \<Longrightarrow> inv s"
    and inv_step: "inv s \<Longrightarrow> step s t \<Longrightarrow> inv t"
begin

lemma inv_steps: "step\<^sup>*\<^sup>* s t \<Longrightarrow> inv s \<Longrightarrow> inv t"
  by (induction rule: rtranclp_induct) (auto intro: inv_step)

lemma inv_reachable: "init s \<Longrightarrow> step\<^sup>*\<^sup>* s t \<Longrightarrow> inv t"
  by (auto intro: inv_steps inv_init)

end

section \<open>Time\<close>

text \<open>
  A \<open>Duration\<close> is a number of nanoseconds and an \<open>Instant\<close> the nanoseconds since some start.
  \<open>Instant - Instant\<close> and \<open>saturating_duration_since\<close> both stop at zero, as \<open>nat\<close>
  subtraction does.
\<close>

type_synonym duration = nat
type_synonym instant = nat

abbreviation nanos_per_sec :: nat where
  "nanos_per_sec \<equiv> 1000000000"

definition from_secs :: "nat \<Rightarrow> duration" where
  "from_secs s = s * nanos_per_sec"

definition from_millis :: "nat \<Rightarrow> duration" where
  "from_millis ms = ms * 1000000"

definition as_secs :: "duration \<Rightarrow> nat" where
  "as_secs d = d div nanos_per_sec"

definition subsec_nanos :: "duration \<Rightarrow> nat" where
  "subsec_nanos d = d mod nanos_per_sec"

end
