(* ===== verification/F64.thy ===== *)
theory F64
  imports Complex_Main "HOL-Library.Log_Nat"
begin

text \<open>
  The finite \<open>f64\<close> values the rate limiter computes with, as rationals: \<open>f64_round\<close> is the
  rounding of IEEE 754 binary64 (to nearest, ties to even, 53 bits of precision, smallest
  quantum \<open>2\<^sup>-\<^sup>1\<^sup>0\<^sup>7\<^sup>4\<close>), and each arithmetic operation of the source is the exact rational
  operation followed by it. Overflow to infinity starts at \<open>2\<^sup>1\<^sup>0\<^sup>2\<^sup>4\<close>; the limiter's values stay
  below \<open>2\<^sup>1\<^sup>3\<^sup>0\<close>, so the model leaves it out. Negative zero is zero: the
  limiter only compares and subtracts.

  The lemmas are the ones a client needs: rounding is monotone, odd, the identity on integers
  up to \<open>2\<^sup>5\<^sup>3\<close> and on powers of two, and keeps the sign.
\<close>

section \<open>Rounding\<close>

definition ilog2 :: "rat \<Rightarrow> int" where
  "ilog2 x =
     (case quotient_of x of (n, d) \<Rightarrow>
        let e = bitlen n - bitlen d in if 2 powi e \<le> x then e else e - 1)"

definition round_even :: "rat \<Rightarrow> int" where
  "round_even x =
     (let f = \<lfloor>x\<rfloor>; r = x - of_int f in
      if r < 1 / 2 then f
      else if 1 / 2 < r then f + 1
      else if even f then f else f + 1)"

definition quantum :: "rat \<Rightarrow> int" where
  "quantum x = max (ilog2 \<bar>x\<bar> - 52) (- 1074)"

definition f64_round :: "rat \<Rightarrow> rat" where
  "f64_round x =
     (if x = 0 then 0
      else of_int (round_even (x / 2 powi quantum x)) * 2 powi quantum x)"

definition f64_of_nat :: "nat \<Rightarrow> rat" where
  "f64_of_nat n = f64_round (of_nat n)"

section \<open>Properties\<close>

lemma ilog2_bounds:
  assumes "0 < x"
  shows "2 powi ilog2 x \<le> x" and "x < 2 powi (ilog2 x + 1)"
proof -
  obtain n d where q: "quotient_of x = (n, d)" by (cases "quotient_of x")
  then have d: "0 < d" by (rule quotient_of_denom_pos)
  have x: "x = of_int n / of_int d" using q by (rule quotient_of_div)
  with assms d have n: "0 < n" by (simp add: zero_less_divide_iff)
  have bl: "2 powi (bitlen m - 1) \<le> (of_int m :: rat) \<and> (of_int m :: rat) < 2 powi bitlen m" if "0 < m" for m
  proof -
    have "1 \<le> bitlen m" using that by (simp add: bitlen_alt_def)
    then have "(2::rat) powi (bitlen m - 1) = of_int (2 ^ nat (bitlen m - 1))"
      and "(2::rat) powi bitlen m = of_int (2 ^ nat (bitlen m))"
      by (simp_all add: power_int_def)
    with bitlen_bounds [OF that] show ?thesis
      by (simp only: of_int_le_iff of_int_less_iff)
  qed
  define e where "e = bitlen n - bitlen d"
  have "x < 2 powi bitlen n / 2 powi (bitlen d - 1)"
    unfolding x using bl [OF n] bl [OF d] n d by (intro frac_less) auto
  also have "\<dots> = 2 powi (e + 1)"
    by (simp add: e_def power_int_diff power_int_add)
  finally have up: "x < 2 powi (e + 1)" .
  have "2 powi (e - 1) = (2::rat) powi (bitlen n - 1) / 2 powi bitlen d"
    by (simp add: e_def power_int_diff)
  also have "\<dots> \<le> x"
    unfolding x using bl [OF n] bl [OF d] n d by (intro frac_le) auto
  finally have low: "2 powi (e - 1) \<le> x" .
  have "ilog2 x = (if 2 powi e \<le> x then e else e - 1)"
    by (simp add: ilog2_def q e_def Let_def)
  with up low show "2 powi ilog2 x \<le> x" and "x < 2 powi (ilog2 x + 1)"
    by (auto split: if_splits)
qed

lemma pow2_le_iff [simp]: "(2::rat) powi a \<le> 2 powi b \<longleftrightarrow> a \<le> b"
  by (metis linorder_not_less one_less_numeral_iff power_int_strict_increasing
      power_int_increasing semiring_norm(76) order.order_iff_strict one_le_numeral not_le)

lemma pow2_less_iff [simp]: "(2::rat) powi a < 2 powi b \<longleftrightarrow> a < b"
  by (simp flip: not_le)

lemma ilog2_mono: "0 < x \<Longrightarrow> x \<le> y \<Longrightarrow> ilog2 x \<le> ilog2 y"
proof -
  assume "0 < x" and "x \<le> y"
  then have "(2::rat) powi ilog2 x < 2 powi (ilog2 y + 1)"
    using ilog2_bounds(1) [of x] ilog2_bounds(2) [of y] by linarith
  then show ?thesis by simp
qed

lemma round_even_bounds: "\<lfloor>x\<rfloor> \<le> round_even x" "round_even x \<le> \<lfloor>x\<rfloor> + 1"
  by (auto simp: round_even_def Let_def)

lemma round_even_of_int [simp]: "round_even (of_int n) = n"
  by (simp add: round_even_def)

lemma round_even_mono:
  assumes "x \<le> y"
  shows "round_even x \<le> round_even y"
proof (cases "\<lfloor>x\<rfloor> = \<lfloor>y\<rfloor>")
  case True
  with assms show ?thesis by (auto simp: round_even_def Let_def)
next
  case False
  with assms floor_mono [OF assms] have "\<lfloor>x\<rfloor> + 1 \<le> \<lfloor>y\<rfloor>" by linarith
  with round_even_bounds show ?thesis by (meson order_trans)
qed

lemma round_even_minus: "round_even (- x) = - round_even x"
proof (cases "x = of_int \<lfloor>x\<rfloor>")
  case True
  then show ?thesis by (metis of_int_minus round_even_of_int)
next
  case False
  then have fl: "\<lfloor>- x\<rfloor> = - \<lfloor>x\<rfloor> - 1"
    by (intro floor_unique; linarith)
  show ?thesis
    unfolding round_even_def Let_def fl
    by (auto; linarith?)
qed

lemma quantum_minus [simp]: "quantum (- x) = quantum x"
  by (simp add: quantum_def)

lemma f64_round_minus [simp]: "f64_round (- x) = - f64_round x"
  by (simp add: f64_round_def round_even_minus)

lemma f64_round_0 [simp]: "f64_round 0 = 0"
  by (simp add: f64_round_def)

text \<open>A bound on a grid at least as coarse as the quantum survives rounding.\<close>

lemma f64_round_le_grid:
  assumes "x \<le> of_int m * 2 powi q" and "quantum x \<le> q"
  shows "f64_round x \<le> of_int m * 2 powi q"
proof (cases "x = 0")
  case False
  define k where "k = nat (q - quantum x)"
  have grid: "(2::rat) powi q = 2 ^ k * 2 powi quantum x"
    using assms(2) by (simp add: k_def flip: power_int_nonneg_exp power_int_add)
  have "x / 2 powi quantum x \<le> of_int (m * 2 ^ k)"
    using assms(1) by (simp add: grid pos_divide_le_eq)
  then have "round_even (x / 2 powi quantum x) \<le> m * 2 ^ k"
    using round_even_mono round_even_of_int by metis
  then have "of_int (round_even (x / 2 powi quantum x)) \<le> (of_int (m * 2 ^ k) :: rat)"
    by (simp only: of_int_le_iff)
  with False show ?thesis
    by (simp add: f64_round_def grid mult_right_mono)
qed (use assms in simp)

lemma f64_round_ge_grid:
  assumes "of_int m * 2 powi q \<le> x" and "quantum x \<le> q"
  shows "of_int m * 2 powi q \<le> f64_round x"
  using f64_round_le_grid [of "- x" "- m" q] assms by simp

lemma f64_round_exact:
  assumes "x = of_int m * 2 powi q" and "quantum x \<le> q"
  shows "f64_round x = x"
  using assms f64_round_le_grid [of x m q] f64_round_ge_grid [of m q x] by simp

lemma f64_round_nonneg: "0 \<le> x \<Longrightarrow> 0 \<le> f64_round x"
  using f64_round_ge_grid [of 0 "quantum x" x] by simp

lemma f64_round_nonpos: "x \<le> 0 \<Longrightarrow> f64_round x \<le> 0"
  using f64_round_nonneg [of "- x"] by simp

lemma quantum_mono: "0 < x \<Longrightarrow> x \<le> y \<Longrightarrow> quantum x \<le> quantum y"
  using ilog2_mono [of x y] by (simp add: quantum_def max_def)

lemma f64_round_mono_pos:
  assumes "0 < x" and "x \<le> y"
  shows "f64_round x \<le> f64_round y"
proof (cases "quantum x = quantum y")
  case True
  have "round_even (x / 2 powi quantum y) \<le> round_even (y / 2 powi quantum y)"
    using assms by (intro round_even_mono divide_right_mono) auto
  with assms True show ?thesis by (simp add: f64_round_def)
next
  case False
  with quantum_mono [OF assms] have less: "quantum x < quantum y" by simp
  then have y: "quantum y = ilog2 y - 52" and xy: "ilog2 x + 1 \<le> ilog2 y"
    using assms by (auto simp: quantum_def max_def split: if_splits)
  have "x \<le> of_int 1 * 2 powi ilog2 y"
    using ilog2_bounds(2) [OF assms(1)] xy pow2_le_iff [of "ilog2 x + 1" "ilog2 y"] by linarith
  then have "f64_round x \<le> of_int 1 * 2 powi ilog2 y"
    using less y by (intro f64_round_le_grid) auto
  also have "\<dots> \<le> f64_round y"
    using ilog2_bounds(1) [of y] assms y by (intro f64_round_ge_grid) auto
  finally show ?thesis .
qed

theorem f64_round_mono: "x \<le> y \<Longrightarrow> f64_round x \<le> f64_round y"
proof -
  assume le: "x \<le> y"
  consider "0 < x" | "x \<le> 0" "0 \<le> y" | "y < 0" by linarith
  then show ?thesis
  proof cases
    case 1
    then show ?thesis using le by (rule f64_round_mono_pos)
  next
    case 2
    then show ?thesis using f64_round_nonneg [of y] f64_round_nonpos [of x] by linarith
  next
    case 3
    then show ?thesis using f64_round_mono_pos [of "- y" "- x"] le by simp
  qed
qed

lemma quantum_le:
  assumes "x \<noteq> 0" and "\<bar>x\<bar> < 2 powi (q + 53)" and "- 1074 \<le> q"
  shows "quantum x \<le> q"
proof -
  have "(2::rat) powi ilog2 \<bar>x\<bar> < 2 powi (q + 53)"
    using ilog2_bounds(1) [of "\<bar>x\<bar>"] assms(1,2) by linarith
  with assms(3) show ?thesis by (simp add: quantum_def)
qed

lemma f64_round_pow2:
  assumes "- 1074 \<le> q"
  shows "f64_round (2 powi q) = 2 powi q"
  by (rule f64_round_exact [of _ 1 q]) (use assms in \<open>auto intro!: quantum_le\<close>)

lemma f64_round_of_int:
  assumes "\<bar>n\<bar> \<le> 2 ^ 53"
  shows "f64_round (of_int n) = of_int n"
proof (cases "n = 0")
  case False
  show ?thesis
  proof (cases "\<bar>n\<bar> = 2 ^ 53")
    case True
    then have "n = 2 ^ 53 \<or> n = - (2 ^ 53)" by linarith
    then show ?thesis
      using f64_round_pow2 [of 53] f64_round_minus [of "2 ^ 53"] by auto
  next
    case less: False
    have "\<bar>of_int n :: rat\<bar> < of_int (2 ^ 53)"
      using less assms by (simp only: of_int_less_iff flip: of_int_abs)
    then show ?thesis
      using False by (intro f64_round_exact [of _ n 0] quantum_le) auto
  qed
qed simp

lemma f64_round_of_nat:
  assumes "n \<le> 2 ^ 53"
  shows "f64_round (of_nat n) = of_nat n"
  using f64_round_of_int [of "int n"] assms by simp

lemma f64_round_le_pow2: "x \<le> 2 powi q \<Longrightarrow> - 1074 \<le> q \<Longrightarrow> f64_round x \<le> 2 powi q"
  using f64_round_mono [of x "2 powi q"] by (simp add: f64_round_pow2)

lemma f64_round_ge_pow2: "- (2 powi q) \<le> x \<Longrightarrow> - 1074 \<le> q \<Longrightarrow> - (2 powi q) \<le> f64_round x"
  using f64_round_mono [of "- (2 powi q)" x] by (simp add: f64_round_pow2)

lemma f64_round_pos:
  assumes "2 powi q \<le> x" and "- 1074 \<le> q"
  shows "0 < f64_round x"
proof -
  have "(0::rat) < 2 powi q" by simp
  also have "\<dots> \<le> f64_round x"
    using f64_round_mono [OF assms(1)] assms(2) by (simp add: f64_round_pow2)
  finally show ?thesis .
qed

lemma f64_round_idem_pos:
  assumes "0 < x"
  shows "f64_round (f64_round x) = f64_round x"
proof -
  let ?q = "quantum x"
  have "ilog2 x + 1 \<le> ?q + 53" using assms by (simp add: quantum_def)
  then have "(2::rat) powi (ilog2 x + 1) \<le> 2 powi (?q + 53)" by (simp only: pow2_le_iff)
  with ilog2_bounds(2) [OF assms] have "x \<le> of_int 1 * 2 powi (?q + 53)" by linarith
  then have up: "f64_round x \<le> 2 powi (?q + 53)"
    using f64_round_le_grid [of x 1 "?q + 53"] by simp
  show ?thesis
  proof (cases "f64_round x = 2 powi (?q + 53) \<or> f64_round x = 0")
    case True
    then show ?thesis by (auto simp: f64_round_pow2 quantum_def)
  next
    case False
    have "f64_round x = of_int (round_even (x / 2 powi ?q)) * 2 powi ?q"
      using assms by (simp add: f64_round_def)
    then show ?thesis
      using False up f64_round_nonneg [of x] assms
      by (intro f64_round_exact [of _ "round_even (x / 2 powi ?q)" ?q] quantum_le)
        (auto simp: quantum_def)
  qed
qed

lemma f64_round_idem [simp]: "f64_round (f64_round x) = f64_round x"
proof (cases x "0 :: rat" rule: linorder_cases)
  case less
  then show ?thesis using f64_round_idem_pos [of "- x"] by simp
qed (auto intro: f64_round_idem_pos)

lemma round_even_error: "\<bar>of_int (round_even x) - x\<bar> \<le> 1 / 2"
proof -
  have "of_int \<lfloor>x\<rfloor> \<le> x" "x < of_int \<lfloor>x\<rfloor> + 1" by linarith+
  then show ?thesis by (auto simp: round_even_def Let_def abs_le_iff)
qed

lemma f64_round_error:
  assumes "2 powi (- 1022) \<le> x"
  shows "\<bar>f64_round x - x\<bar> \<le> x / 2 ^ 53"
proof -
  let ?q = "quantum x" and ?g = "2 powi quantum x :: rat"
  have pos: "0 < x" using assms by (rule less_le_trans [rotated]) simp
  have "(2::rat) powi (- 1022) < 2 powi (ilog2 x + 1)"
    using assms ilog2_bounds(2) [OF pos] by linarith
  then have q: "?q = ilog2 x - 52" using pos by (simp only: pow2_less_iff) (simp add: quantum_def)
  have "f64_round x - x = (of_int (round_even (x / ?g)) - x / ?g) * ?g"
    using pos by (simp add: f64_round_def left_diff_distrib)
  then have "\<bar>f64_round x - x\<bar> = \<bar>of_int (round_even (x / ?g)) - x / ?g\<bar> * ?g"
    by (simp only: abs_mult) simp
  also have "\<dots> \<le> 1 / 2 * ?g"
    using round_even_error [of "x / ?g"] by (intro mult_right_mono) auto
  also have "\<dots> = 2 powi ilog2 x / 2 ^ 53"
    by (simp add: q power_int_diff)
  also have "\<dots> \<le> x / 2 ^ 53"
    using ilog2_bounds(1) [OF pos] by (intro divide_right_mono) auto
  finally show ?thesis .
qed

text \<open>A quotient of integers below \<open>2\<^sup>5\<^sup>3\<close> is rounded to the same side of every integer.\<close>

lemma f64_quotient_error:
  assumes "0 < d" and "0 < r" and "d < 2 ^ 53" and "r \<le> 2 ^ 64"
  shows "\<bar>f64_round (of_nat d / of_nat r) - of_nat d / of_nat r\<bar> < 1 / (of_nat r :: rat)"
proof -
  let ?x = "of_nat d / of_nat r :: rat"
  have "\<bar>f64_round ?x - ?x\<bar> \<le> ?x / 2 ^ 53"
  proof (rule f64_round_error)
    have "(of_nat r :: rat) \<le> of_nat (2 ^ 64)" using assms(4) by (simp only: of_nat_le_iff)
    then have "2 powi (- 64) \<le> 1 / (of_nat r :: rat)" using assms(2) by (simp add: field_simps)
    also have "\<dots> \<le> ?x" using assms(1,2) by (simp add: field_simps)
    finally have "2 powi (- 64) \<le> ?x" .
    moreover have "(2::rat) powi (- 1022) \<le> 2 powi (- 64)" by (simp only: pow2_le_iff)
    ultimately show "2 powi (- 1022) \<le> ?x" by linarith
  qed
  also have "(of_nat d :: rat) < of_nat (2 ^ 53)" using assms(3) by (simp only: of_nat_less_iff)
  then have "?x / 2 ^ 53 < 1 / of_nat r" using assms(2) by (simp add: field_simps)
  finally show ?thesis .
qed

text \<open>An integer below a quotient is below it by at least one part of the divisor.\<close>

lemma quotient_gap:
  assumes "0 < r" and "of_int c < (of_nat d / of_nat r :: rat)"
  shows "of_int c + 1 / of_nat r \<le> (of_nat d / of_nat r :: rat)"
proof -
  have "of_int c * of_nat r < (of_nat d :: rat)" using assms by (simp add: field_simps)
  then have "c * int r < int d" by (metis of_int_less_iff of_int_mult of_int_of_nat_eq)
  then have "of_int (c * int r + 1) \<le> (of_int (int d) :: rat)" by (simp only: of_int_le_iff)
  then have "of_int (c * int r + 1) / of_nat r \<le> (of_nat d / of_nat r :: rat)" by (intro divide_right_mono) simp_all
  then show ?thesis using assms(1) by (simp add: field_simps)
qed

lemma ceiling_f64_quotient:
  assumes "0 < r" and "d < 2 ^ 53" and "r \<le> 2 ^ 64"
  shows "\<lceil>f64_round (of_nat d / of_nat r)\<rceil> = \<lceil>of_nat d / of_nat r :: rat\<rceil>"
proof (cases "d = 0")
  case False
  define x :: rat where "x = of_nat d / of_nat r"
  define c where "c = \<lceil>x\<rceil>"
  have x: "0 < x" "x \<le> of_nat d" using False assms by (simp_all add: x_def field_simps)
  then have "0 < c" "c \<le> int d" by (simp_all add: c_def ceiling_le_iff)
  with assms(2) have "\<bar>c\<bar> \<le> 2 ^ 53" by simp
  then have cr: "f64_round (of_int c) = of_int c" by (rule f64_round_of_int)
  have up: "f64_round x \<le> of_int c"
    using f64_round_mono [of x "of_int c"] cr by (simp add: c_def)
  have "of_int (c - 1) < x" using ceiling_correct [of x] by (simp add: c_def)
  with quotient_gap [OF assms(1), of "c - 1" d] f64_quotient_error [of d r] assms False
  have "of_int (c - 1) < f64_round x" unfolding x_def by linarith
  with up show ?thesis
    unfolding x_def [symmetric] c_def [symmetric] by (intro ceiling_unique) auto
qed simp

lemma f64_of_nat_nonneg [simp]: "0 \<le> f64_of_nat n"
  by (simp add: f64_of_nat_def f64_round_nonneg)

lemma f64_of_nat_0 [simp]: "f64_of_nat 0 = 0"
  by (simp add: f64_of_nat_def)

lemma f64_of_nat_exact: "n \<le> 2 ^ 53 \<Longrightarrow> f64_of_nat n = of_nat n"
  by (simp add: f64_of_nat_def f64_round_of_nat)

lemma f64_of_nat_mono: "m \<le> n \<Longrightarrow> f64_of_nat m \<le> f64_of_nat n"
  by (simp add: f64_of_nat_def f64_round_mono)

lemma f64_of_nat_pos [simp]: "0 < f64_of_nat n \<longleftrightarrow> 0 < n"
proof (cases n)
  case (Suc m)
  have "0 < f64_round (of_nat n)"
    by (rule f64_round_pos [of 0]) (simp_all add: Suc)
  with Suc show ?thesis by (simp add: f64_of_nat_def)
qed simp

end
