(* ===== verification/Rate_Limit.thy ===== *)
theory Rate_Limit
  imports Rust_Prelude F64
begin

text \<open>
  The per-credential token buckets of \<open>src/domain/rate_limit.rs\<close>: a map from credential
  fingerprint to balance, and a recency index split in two \<open>BTreeMap\<close>s, one for indebted
  buckets and one for the others. Balances are \<open>f64\<close>, the access order a wrapping \<open>u64\<close>.
  Every operation takes the clock reading as an argument and runs under one lock.

  The specification is a list of accounts, least recently used first, with no index at all. The
  refinement theorem carries every operation over to it, and the behaviour of the limiter
  (who is charged, who is evicted, how much gets through) is then proved on the list.
\<close>

section \<open>State\<close>

definition MAX_BUCKETS :: nat where
  "MAX_BUCKETS = 100000"

definition IDLE_EVICTION :: duration where
  "IDLE_EVICTION = from_secs 900"

record rate_limit_exceeded =
  retry_after_secs :: nat

record bucket =
  balance :: rat
  updated :: instant
  last_access :: instant
  border :: u64
  bkey :: bytes
  indebted :: bool

record lru =
  credit :: "(u64, bytes) btree_map"
  debt :: "(u64, bytes) btree_map"
  next_order :: u64

record buckets =
  entries :: "(bytes, bucket) hash_map"
  bk_lru :: lru

datatype access = Probe | Charge nat

record rate_limiter =
  rl_rate :: nat
  rl_capacity :: rat
  rl_max_buckets :: nat
  rl_buckets :: buckets
  debt_forgiven_evictions :: u64

section \<open>Operations\<close>

definition lru_unlink :: "bucket \<Rightarrow> lru \<Rightarrow> lru" where
  "lru_unlink b l =
     (if indebted b then l\<lparr>debt := bt_remove (border b) (debt l)\<rparr>
      else l\<lparr>credit := bt_remove (border b) (credit l)\<rparr>)"

definition lru_link :: "bucket \<Rightarrow> lru \<Rightarrow> bucket \<times> lru" where
  "lru_link b l =
     (let b1 = b\<lparr>border := next_order l, indebted := balance b < 0\<rparr>;
          l1 = l\<lparr>next_order := next_order l + 1\<rparr> in
      (b1, if indebted b1 then l1\<lparr>debt := bt_insert (border b1) (bkey b1) (debt l1)\<rparr>
           else l1\<lparr>credit := bt_insert (border b1) (bkey b1) (credit l1)\<rparr>))"

definition with_max_buckets :: "nat \<Rightarrow> nat \<Rightarrow> rate_limiter" where
  "with_max_buckets rate max_buckets =
     \<lparr>rl_rate = rate,
      rl_capacity = f64_of_nat (saturating_mul rate 2),
      rl_max_buckets = max max_buckets 1,
      rl_buckets = \<lparr>entries = [], bk_lru = \<lparr>credit = [], debt = [], next_order = 0\<rparr>\<rparr>,
      debt_forgiven_evictions = 0\<rparr>"

definition rate_limiter_new :: "nat \<Rightarrow> rate_limiter" where
  "rate_limiter_new rate = with_max_buckets rate MAX_BUCKETS"

definition as_secs_f64 :: "duration \<Rightarrow> rat" where
  "as_secs_f64 d = f64_round (f64_of_nat (as_secs d) + f64_round (f64_of_nat (subsec_nanos d) / 1000000000))"

definition refilled :: "nat \<Rightarrow> rat \<Rightarrow> duration \<Rightarrow> rat \<Rightarrow> rat" where
  "refilled rate capacity elapsed bal =
     min (f64_round (bal + f64_round (as_secs_f64 elapsed * f64_of_nat rate))) capacity"

definition refill :: "instant \<Rightarrow> nat \<Rightarrow> rat \<Rightarrow> bucket \<Rightarrow> bucket" where
  "refill now rate capacity b =
     b\<lparr>balance := refilled rate capacity (now - updated b) (balance b), updated := now\<rparr>"

definition evict_one :: "(bytes, bucket) hash_map \<Rightarrow> lru \<Rightarrow> bool \<times> (bytes, bucket) hash_map \<times> lru" where
  "evict_one es l =
     (let (candidate, forgave_debt, l1) =
        (case bt_pop_first (credit l) of
           (Some c, rest) \<Rightarrow> (Some c, False, l\<lparr>credit := rest\<rparr>)
         | (None, _) \<Rightarrow> (case bt_pop_first (debt l) of (c, rest) \<Rightarrow> (c, True, l\<lparr>debt := rest\<rparr>))) in
      case candidate of
        Some (_, key) \<Rightarrow> (forgave_debt, hm_remove key es, l1)
      | None \<Rightarrow> (False, es, l1))"

definition exceeded :: "nat \<Rightarrow> rat \<Rightarrow> rate_limit_exceeded" where
  "exceeded rate bal =
     (let deficit = max (- bal) 0 in
      \<lparr>retry_after_secs = min (nat (max \<lceil>f64_round (deficit / f64_of_nat rate)\<rceil> 1)) u64_max\<rparr>)"

definition settle :: "nat \<Rightarrow> access \<Rightarrow> bucket \<Rightarrow> (rate_limit_exceeded + unit) \<times> bucket" where
  "settle rate acc b =
     (if balance b \<le> 0 then (Inl (exceeded rate (balance b)), b)
      else (Inr (), case acc of
                      Charge command_count \<Rightarrow>
                        b\<lparr>balance := f64_round (balance b - f64_of_nat (max command_count 1))\<rparr>
                    | Probe \<Rightarrow> b))"

definition rl_access ::
  "bytes \<Rightarrow> access \<Rightarrow> instant \<Rightarrow> rate_limiter \<Rightarrow> (rate_limit_exceeded + unit) \<times> rate_limiter" where
  "rl_access key acc now l =
     (if rl_rate l = 0 then (Inr (), l)
      else
       (let es = entries (rl_buckets l); lru = bk_lru (rl_buckets l) in
        case hm_get es key of
          Some b \<Rightarrow>
            (let lru1 = lru_unlink b lru;
                 b1 = (refill now (rl_rate l) (rl_capacity l) b)\<lparr>last_access := now\<rparr>;
                 (result, b2) = settle (rl_rate l) acc b1;
                 (b3, lru2) = lru_link b2 lru1 in
             (result, l\<lparr>rl_buckets := \<lparr>entries = hm_insert key b3 es, bk_lru = lru2\<rparr>\<rparr>))
        | None \<Rightarrow>
            (let (forgave, es1, lru1) =
                   (if length es \<ge> rl_max_buckets l then evict_one es lru else (False, es, lru));
                 l1 = (if forgave then l\<lparr>debt_forgiven_evictions := debt_forgiven_evictions l + 1\<rparr> else l);
                 b = \<lparr>balance = rl_capacity l, updated = now, last_access = now, border = 0,
                      bkey = key, indebted = False\<rparr>;
                 (result, b1) = settle (rl_rate l) acc b;
                 (b2, lru2) = lru_link b1 lru1 in
             (result, l1\<lparr>rl_buckets := \<lparr>entries = hm_insert key b2 es1, bk_lru = lru2\<rparr>\<rparr>))))"

definition rl_probe :: "bytes \<Rightarrow> instant \<Rightarrow> rate_limiter \<Rightarrow> (rate_limit_exceeded + unit) \<times> rate_limiter" where
  "rl_probe key now l = rl_access key Probe now l"

definition rl_charge ::
  "bytes \<Rightarrow> nat \<Rightarrow> instant \<Rightarrow> rate_limiter \<Rightarrow> (rate_limit_exceeded + unit) \<times> rate_limiter" where
  "rl_charge key command_count now l = rl_access key (Charge command_count) now l"

text \<open>The scan of \<open>sweep_idle\<close> refills every entry, moves repaid debts to the credit index and collects the idle keys.\<close>

definition is_idle :: "instant \<Rightarrow> bucket \<Rightarrow> bool" where
  "is_idle now b \<longleftrightarrow> 0 \<le> balance b \<and> IDLE_EVICTION \<le> now - last_access b"

definition sweep_visit ::
  "instant \<Rightarrow> nat \<Rightarrow> rat \<Rightarrow> bytes \<Rightarrow> bucket \<Rightarrow> lru \<Rightarrow> bucket \<times> lru" where
  "sweep_visit now rate capacity key b l =
     (let b1 = refill now rate capacity b in
      if indebted b1 \<and> 0 \<le> balance b1
      then (b1\<lparr>indebted := False\<rparr>,
            l\<lparr>debt := bt_remove (border b1) (debt l), credit := bt_insert (border b1) key (credit l)\<rparr>)
      else (b1, l))"

fun sweep_scan ::
  "instant \<Rightarrow> nat \<Rightarrow> rat \<Rightarrow> (bytes, bucket) hash_map \<Rightarrow> lru \<Rightarrow> (bytes, bucket) hash_map \<times> lru \<times> bytes list"
where
  "sweep_scan now rate capacity [] l = ([], l, [])"
| "sweep_scan now rate capacity ((key, b) # es) l =
     (let (b1, l1) = sweep_visit now rate capacity key b l;
          (es1, l2, idle) = sweep_scan now rate capacity es l1 in
      ((key, b1) # es1, l2, if is_idle now b1 then key # idle else idle))"

fun sweep_remove :: "bytes list \<Rightarrow> buckets \<Rightarrow> buckets" where
  "sweep_remove [] bs = bs"
| "sweep_remove (key # idle) bs =
     (case hm_get (entries bs) key of
        Some b \<Rightarrow> sweep_remove idle
          \<lparr>entries = hm_remove key (entries bs), bk_lru = lru_unlink b (bk_lru bs)\<rparr>
      | None \<Rightarrow> sweep_remove idle bs)"

definition sweep_idle :: "instant \<Rightarrow> rate_limiter \<Rightarrow> nat \<times> rate_limiter" where
  "sweep_idle now l =
     (if rl_rate l = 0 then (0, l)
      else
       (let (es, lru, idle) =
          sweep_scan now (rl_rate l) (rl_capacity l) (entries (rl_buckets l)) (bk_lru (rl_buckets l)) in
        (length idle, l\<lparr>rl_buckets := sweep_remove idle \<lparr>entries = es, bk_lru = lru\<rparr>\<rparr>)))"

definition bucket_count :: "rate_limiter \<Rightarrow> nat" where
  "bucket_count l = length (entries (rl_buckets l))"

definition take_debt_forgiven_evictions :: "rate_limiter \<Rightarrow> u64 \<times> rate_limiter" where
  "take_debt_forgiven_evictions l = (debt_forgiven_evictions l, l\<lparr>debt_forgiven_evictions := 0\<rparr>)"

section \<open>The recency index\<close>

text \<open>
  \<open>lru_indexes l m\<close>: the two trees of \<open>l\<close> index exactly the buckets of \<open>m\<close>, each once, under
  its order and in the tree its flag names; orders are unique and below the next one.
\<close>

definition lru_indexes :: "lru \<Rightarrow> (bytes \<rightharpoonup> bucket) \<Rightarrow> bool" where
  "lru_indexes l m \<longleftrightarrow>
     bt_wf (credit l) \<and> bt_wf (debt l)
     \<and> (\<forall>i k. map_of (credit l) i = Some k \<longleftrightarrow> (\<exists>b. m k = Some b \<and> border b = i \<and> \<not> indebted b))
     \<and> (\<forall>i k. map_of (debt l) i = Some k \<longleftrightarrow> (\<exists>b. m k = Some b \<and> border b = i \<and> indebted b))
     \<and> (\<forall>k b. m k = Some b \<longrightarrow> bkey b = k \<and> border b < next_order l)
     \<and> (\<forall>k1 k2 b1 b2. m k1 = Some b1 \<longrightarrow> m k2 = Some b2 \<longrightarrow> border b1 = border b2 \<longrightarrow> k1 = k2)"

lemma lru_indexesD:
  assumes "lru_indexes l m"
  shows "bt_wf (credit l)" "bt_wf (debt l)"
    and "map_of (credit l) i = Some k \<longleftrightarrow> (\<exists>b. m k = Some b \<and> border b = i \<and> \<not> indebted b)"
    and "map_of (debt l) i = Some k \<longleftrightarrow> (\<exists>b. m k = Some b \<and> border b = i \<and> indebted b)"
    and "m k = Some b \<Longrightarrow> bkey b = k" "m k = Some b \<Longrightarrow> border b < next_order l"
    and "m k1 = Some b1 \<Longrightarrow> m k2 = Some b2 \<Longrightarrow> border b1 = border b2 \<Longrightarrow> k1 = k2"
  using assms unfolding lru_indexes_def by blast+

lemma lru_indexes_empty: "lru_indexes \<lparr>credit = [], debt = [], next_order = n\<rparr> Map.empty"
  by (simp add: lru_indexes_def bt_wf_def)

lemma lru_indexes_unlink:
  assumes idx: "lru_indexes l m" and b: "m k = Some b"
  shows "lru_indexes (lru_unlink b l) (m(k := None))"
proof -
  note D = lru_indexesD [OF idx]
  have uniq: "k' = k" if "m k' = Some b'" "border b' = border b" for k' b'
    using D(7) [OF that(1) b that(2)] .
  show ?thesis
    unfolding lru_indexes_def lru_unlink_def
    using D(1,2,5,6) D(7) b uniq
    by (auto simp: bt_wf_remove map_of_bt_remove D(3,4) split: if_splits)
qed

lemma lru_indexes_link:
  assumes idx: "lru_indexes l m" and new: "m (bkey b) = None" and room: "next_order l \<noteq> - 1"
    and link: "lru_link b l = (b', l')"
  shows "lru_indexes l' (m(bkey b \<mapsto> b'))"
proof -
  note D = lru_indexesD [OF idx]
  from link have b': "b' = b\<lparr>border := next_order l, indebted := balance b < 0\<rparr>"
    by (auto simp: lru_link_def Let_def)
  have fresh: "border c \<noteq> next_order l" if "m k = Some c" for k c
    using D(6) [OF that] by auto
  have below: "border c < next_order l + 1" if "m k = Some c" for k c
    using word_succ_less(1) [OF D(6) [OF that] room] .
  have top: "next_order l < next_order l + 1"
    using room D(6) by (simp add: word_less_nat_alt word_less_def) (metis add.commute unatSuc add_eq_0_iff2 lessI room)
  show ?thesis
    unfolding lru_indexes_def
    using link D(1,2,5) D(7) new fresh below top
    by (auto simp: lru_link_def Let_def bt_wf_insert map_of_bt_insert D(3,4) b' split: if_splits dest: fresh)
qed

lemma lru_indexes_reindex:
  assumes idx: "lru_indexes l m" and b: "m k = Some b"
    and same: "border b' = border b" "bkey b' = bkey b"
    and l': "l' = (if indebted b \<and> \<not> indebted b'
              then l\<lparr>debt := bt_remove (border b) (debt l), credit := bt_insert (border b) k (credit l)\<rparr> else l)"
    and flag: "indebted b' \<longrightarrow> indebted b"
  shows "lru_indexes l' (m(k \<mapsto> b'))"
proof -
  note D = lru_indexesD [OF idx]
  have uniq: "k' = k" if "m k' = Some c" "border c = border b" for k' c
    using D(7) [OF that(1) b that(2)] .
  show ?thesis
    unfolding lru_indexes_def l'
    using D(1,2,5,6) D(7) b uniq same flag
    by (auto simp: bt_wf_remove bt_wf_insert map_of_bt_insert map_of_bt_remove D(3,4) split: if_splits)
qed

text \<open>
  \<open>evict_one\<close> takes the bucket of the least order among those in credit and, when there is
  none, the one of the least order among all.
\<close>

lemma evict_one_victim:
  assumes idx: "lru_indexes l (hm_get es)" and ne: "hm_get es \<noteq> Map.empty"
    and ev: "evict_one es l = (forgave, es', l')"
  obtains k b where "hm_get es k = Some b" "es' = hm_remove k es" "l' = lru_unlink b l"
    "forgave = indebted b"
    "\<And>k' b'. hm_get es k' = Some b' \<Longrightarrow> \<not> indebted b' \<Longrightarrow> \<not> indebted b \<and> border b \<le> border b'"
    "\<And>k' b'. hm_get es k' = Some b' \<Longrightarrow> indebted b \<Longrightarrow> border b \<le> border b'"
proof -
  note D = lru_indexesD [OF idx]
  obtain c rest where pc: "bt_pop_first (credit l) = (c, rest)" by fastforce
  show thesis
  proof (cases c)
    case (Some ik)
    then obtain i k where pop: "bt_pop_first (credit l) = (Some (i, k), rest)"
      using pc by (cases ik) auto
    from bt.pop_first_Some [OF D(1) pop] have
      first: "map_of (credit l) i = Some k" "\<forall>i' \<in> dom (map_of (credit l)). i \<le> i'"
        "rest = bt_remove i (credit l)" by auto
    from first(1) obtain b where b: "hm_get es k = Some b" "border b = i" "\<not> indebted b"
      by (auto simp: D(3))
    have least: "border b \<le> border b'" if "hm_get es k' = Some b'" "\<not> indebted b'" for k' b'
      using first(2) that D(3) [of "border b'" k'] b(2) by (auto simp: dom_def)
    show thesis
      by (rule that [OF b(1)]) (use ev pop b first(3) least in \<open>auto simp: evict_one_def lru_unlink_def\<close>)
  next
    case None
    from bt.pop_first_None [OF D(1), of rest] pc None have no_credit: "map_of (credit l) = Map.empty" by simp
    have all_debt: "indebted b'" if "hm_get es k' = Some b'" for k' b'
      using that D(3) [of "border b'" k'] no_credit by auto
    from ne obtain k0 b0 where b0: "hm_get es k0 = Some b0" by (auto simp: fun_eq_iff)
    with all_debt have "map_of (debt l) (border b0) = Some k0" by (auto simp: D(4))
    from bt.pop_first_least [OF D(2) this] obtain i k where
      pop: "bt_pop_first (debt l) = (Some (i, k), bt_remove i (debt l))" by blast
    from bt.pop_first_Some [OF D(2) pop] have
      first: "map_of (debt l) i = Some k" "\<forall>i' \<in> dom (map_of (debt l)). i \<le> i'" by auto
    from first(1) obtain b where b: "hm_get es k = Some b" "border b = i" "indebted b"
      by (auto simp: D(4))
    have least: "border b \<le> border b'" if "hm_get es k' = Some b'" for k' b'
      using first(2) that all_debt [OF that] D(4) [of "border b'" k'] b(2) by (auto simp: dom_def)
    show thesis
      by (rule that [OF b(1)])
        (use ev pop pc None b least all_debt in \<open>auto simp: evict_one_def lru_unlink_def\<close>)
  qed
qed

section \<open>The invariant\<close>

definition bucket_ok :: "rat \<Rightarrow> bucket \<Rightarrow> bool" where
  "bucket_ok capacity b \<longleftrightarrow>
     (indebted b \<longleftrightarrow> balance b < 0) \<and> - (2 ^ 64) \<le> balance b \<and> balance b \<le> capacity
     \<and> f64_round (balance b) = balance b"

definition buckets_ok :: "rat \<Rightarrow> buckets \<Rightarrow> bool" where
  "buckets_ok capacity bs \<longleftrightarrow>
     hm_wf (entries bs) \<and> lru_indexes (bk_lru bs) (hm_get (entries bs))
     \<and> (\<forall>k b. hm_get (entries bs) k = Some b \<longrightarrow> bucket_ok capacity b)"

definition limiter_ok :: "rate_limiter \<Rightarrow> bool" where
  "limiter_ok l \<longleftrightarrow>
     buckets_ok (rl_capacity l) (rl_buckets l)
     \<and> length (entries (rl_buckets l)) \<le> rl_max_buckets l
     \<and> 1 \<le> rl_max_buckets l \<and> rl_capacity l = f64_of_nat (saturating_mul (rl_rate l) 2)"

lemma f64_of_nat_u64: "n \<le> u64_max \<Longrightarrow> f64_of_nat n \<le> 2 ^ 64"
proof -
  assume "n \<le> u64_max"
  then have "n \<le> 2 ^ 64" by (simp add: u64_max_def)
  then have "of_nat n \<le> (of_nat (2 ^ 64) :: rat)" by (simp only: of_nat_le_iff)
  then show ?thesis
    using f64_round_le_pow2 [of "of_nat n" 64] by (simp add: f64_of_nat_def)
qed

lemma capacity_bounds:
  assumes "c = f64_of_nat (saturating_mul rate 2)"
  shows "0 \<le> c" "c \<le> 2 ^ 64" "f64_round c = c" "0 < rate \<Longrightarrow> 0 < c"
proof -
  show "c \<le> 2 ^ 64"
    unfolding assms by (rule f64_of_nat_u64) (simp add: saturating_mul_def)
  show "f64_round c = c" by (simp add: assms f64_of_nat_def)
qed (auto simp: assms saturating_mul_def u64_max_def)

lemma as_secs_f64_nonneg [simp]: "0 \<le> as_secs_f64 d"
  by (simp add: as_secs_f64_def f64_round_nonneg)

lemma refilled_ge:
  assumes "f64_round bal = bal" and "bal \<le> capacity"
  shows "bal \<le> refilled rate capacity d bal"
proof -
  have "0 \<le> f64_round (as_secs_f64 d * f64_of_nat rate)" by (simp add: f64_round_nonneg)
  then have "f64_round bal \<le> f64_round (bal + f64_round (as_secs_f64 d * f64_of_nat rate))"
    by (intro f64_round_mono) simp
  with assms show ?thesis by (simp add: refilled_def)
qed

lemma refilled_le: "refilled rate capacity d bal \<le> capacity"
  by (simp add: refilled_def)

lemma refilled_round [simp]: "f64_round capacity = capacity \<Longrightarrow>
    f64_round (refilled rate capacity d bal) = refilled rate capacity d bal"
  by (simp add: refilled_def min_def)

definition access_ok :: "access \<Rightarrow> bool" where
  "access_ok acc \<longleftrightarrow> (case acc of Probe \<Rightarrow> True | Charge n \<Rightarrow> n \<le> u64_max)"

text \<open>What a settled bucket looks like before it is linked.\<close>

lemma settle_balance:
  assumes "settle rate acc b = (r, b')" and "access_ok acc"
    and "- (2 ^ 64) \<le> balance b" "balance b \<le> capacity" "f64_round (balance b) = balance b"
  shows "- (2 ^ 64) \<le> balance b'" "balance b' \<le> capacity" "f64_round (balance b') = balance b'"
    and "bkey b' = bkey b" "updated b' = updated b" "last_access b' = last_access b"
proof -
  have charged: "- (2 ^ 64) \<le> f64_round (balance b - f64_of_nat (max n 1))
      \<and> f64_round (balance b - f64_of_nat (max n 1)) \<le> balance b" if "0 < balance b" "n \<le> u64_max" for n
  proof -
    have "f64_of_nat (max n 1) \<le> 2 ^ 64"
      using that(2) by (intro f64_of_nat_u64) (simp add: u64_max_def)
    then have "- (2 powi 64) \<le> balance b - f64_of_nat (max n 1)"
      using that(1) by simp
    from f64_round_ge_pow2 [OF this] f64_round_mono [of "balance b - f64_of_nat (max n 1)" "balance b"] assms(5)
    show ?thesis by simp
  qed
  show "- (2 ^ 64) \<le> balance b'" "balance b' \<le> capacity" "f64_round (balance b') = balance b'"
    and "bkey b' = bkey b" "updated b' = updated b" "last_access b' = last_access b"
    using assms charged
    by (force simp: settle_def access_ok_def split: if_splits access.splits)+
qed

lemma lru_link_bucket:
  assumes "lru_link b l = (b', l')"
  shows "b' = b\<lparr>border := next_order l, indebted := balance b < 0\<rparr>" and "next_order l' = next_order l + 1"
  using assms by (auto simp: lru_link_def Let_def)

lemma next_order_unlink [simp]: "next_order (lru_unlink b l) = next_order l"
  by (simp add: lru_unlink_def)

section \<open>Buckets by recency\<close>

definition by_recency :: "(bytes, bucket) hash_map \<Rightarrow> bucket list" where
  "by_recency es = sort_key border (map snd es)"

lemma set_by_recency: "hm_wf es \<Longrightarrow> set (by_recency es) = ran (hm_get es)"
  by (simp add: by_recency_def hm_wf_def ran_distinct)

lemma length_by_recency [simp]: "length (by_recency es) = length es"
  by (simp add: by_recency_def)

lemma border_inj:
  assumes "lru_indexes l (hm_get es)"
  shows "inj_on border (ran (hm_get es))"
proof (rule inj_onI)
  fix b1 b2
  assume "b1 \<in> ran (hm_get es)" "b2 \<in> ran (hm_get es)" and eq: "border b1 = border b2"
  then obtain k1 k2 where k: "hm_get es k1 = Some b1" "hm_get es k2 = Some b2" by (auto simp: ran_def)
  with lru_indexesD(7) [OF assms k eq] show "b1 = b2" by simp
qed

lemma by_recency_sorted:
  assumes wf: "hm_wf es" and idx: "lru_indexes l (hm_get es)"
  shows "sorted_wrt (<) (map border (by_recency es))"
proof -
  have key: "bkey b = k" if "(k, b) \<in> set es" for k b
    using that wf lru_indexesD(5) [OF idx] by (simp add: hm_wf_def)
  then have "map bkey (map snd es) = map fst es"
    by (simp add: case_prod_beta)
  with wf have "distinct (map snd es)"
    by (metis distinct_map hm_wf_def)
  moreover have "inj_on border (snd ` set es)"
    using border_inj [OF idx] wf by (simp add: hm_wf_def ran_distinct)
  ultimately have "distinct (map border (by_recency es))"
    unfolding distinct_map [of border] by (simp add: by_recency_def)
  then show ?thesis by (simp add: strict_sorted_iff by_recency_def)
qed

lemma by_recency_unique:
  assumes "hm_wf es" and "lru_indexes l (hm_get es)"
    and "sorted_wrt (<) (map border bs)" and "set bs = ran (hm_get es)"
  shows "by_recency es = bs"
proof -
  have same_set: "set (by_recency es) = set bs" using assms by (simp add: set_by_recency)
  then have "map border (by_recency es) = map border bs"
    using assms(3) by_recency_sorted [OF assms(1,2)]
    by (intro strict_sorted_equal) (auto simp flip: image_set)
  moreover have "inj_on border (set (by_recency es) \<union> set bs)"
    using border_inj [OF assms(2)] assms(1,4) by (simp add: set_by_recency)
  ultimately show ?thesis using map_inj_on by blast
qed

lemma map_snd_remove:
  assumes "\<forall>(k', b) \<in> set es. bkey b = k'"
  shows "map snd (hm_remove k es) = filter (\<lambda>b. bkey b \<noteq> k) (map snd es)"
  using assms by (induction es) (auto simp: AList.delete_eq)

lemma entries_key:
  assumes "hm_wf es" and "lru_indexes l (hm_get es)"
  shows "\<forall>(k, b) \<in> set es. bkey b = k"
  using assms lru_indexesD(5) by (fastforce simp: hm_wf_def)

lemma by_recency_remove:
  assumes "hm_wf es" and "lru_indexes l (hm_get es)"
  shows "by_recency (hm_remove k es) = filter (\<lambda>b. bkey b \<noteq> k) (by_recency es)"
  by (simp add: by_recency_def map_snd_remove [OF entries_key [OF assms]] filter_sort)

lemma by_recency_insert:
  assumes wf: "hm_wf es" and idx: "lru_indexes l (hm_get es)"
    and idx': "lru_indexes l' (hm_get (hm_insert k b es))"
    and top: "\<And>k' b'. hm_get es k' = Some b' \<Longrightarrow> k' \<noteq> k \<Longrightarrow> border b' < border b"
  shows "by_recency (hm_insert k b es) = filter (\<lambda>b. bkey b \<noteq> k) (by_recency es) @ [b]"
proof (rule by_recency_unique [OF hm.invar_ins [OF wf] idx'])
  have mem: "c \<in> set (filter (\<lambda>b. bkey b \<noteq> k) (by_recency es)) \<longleftrightarrow>
      (\<exists>k'. k' \<noteq> k \<and> hm_get es k' = Some c)" for c
    using lru_indexesD(5) [OF idx] by (auto simp: set_by_recency [OF wf] ran_def)
  have "sorted_wrt (<) (map border (filter (\<lambda>b. bkey b \<noteq> k) (by_recency es)))"
    using by_recency_sorted [OF wf idx] by (auto simp: sorted_wrt_map intro: sorted_wrt_filter)
  moreover have "border c < border b" if "c \<in> set (filter (\<lambda>b. bkey b \<noteq> k) (by_recency es))" for c
    using that top by (simp only: mem) blast
  ultimately show "sorted_wrt (<) (map border (filter (\<lambda>b. bkey b \<noteq> k) (by_recency es) @ [b]))"
    by (simp add: sorted_wrt_append)
  have "set (filter (\<lambda>b. bkey b \<noteq> k) (by_recency es) @ [b]) =
      {c. \<exists>k'. k' \<noteq> k \<and> hm_get es k' = Some c} \<union> {b}"
    using mem by auto
  also have "\<dots> = ran (hm_get (hm_insert k b es))"
    by (auto simp: hm.lookup_ins [OF wf] ran_def)
  finally show "set (filter (\<lambda>b. bkey b \<noteq> k) (by_recency es) @ [b]) = ran (hm_get (hm_insert k b es))" .
qed

lemma insort_key_map:
  assumes "\<And>x. border (f x) = border x"
  shows "insort_key border (f x) (map f xs) = map f (insort_key border x xs)"
  by (induction xs) (auto simp: assms)

lemma sort_key_map:
  assumes "\<And>x. border (f x) = border x"
  shows "sort_key border (map f xs) = map f (sort_key border xs)"
  by (induction xs) (auto simp: insort_key_map [OF assms])

section \<open>The specification: accounts, least recently used first\<close>

record account =
  ac_key :: bytes
  ac_balance :: rat
  ac_updated :: instant
  ac_last_access :: instant

definition spend :: "nat \<Rightarrow> access \<Rightarrow> rat \<Rightarrow> (rate_limit_exceeded + unit) \<times> rat" where
  "spend rate acc bal =
     (if bal \<le> 0 then (Inl (exceeded rate bal), bal)
      else (Inr (), case acc of Probe \<Rightarrow> bal | Charge n \<Rightarrow> f64_round (bal - f64_of_nat (max n 1))))"

definition spec_evict :: "account list \<Rightarrow> account list" where
  "spec_evict xs =
     (case List.find (\<lambda>a. 0 \<le> ac_balance a) xs of
        Some a \<Rightarrow> filter (\<lambda>x. ac_key x \<noteq> ac_key a) xs
      | None \<Rightarrow> tl xs)"

definition spec_access ::
  "nat \<Rightarrow> rat \<Rightarrow> nat \<Rightarrow> bytes \<Rightarrow> access \<Rightarrow> instant \<Rightarrow> account list \<Rightarrow> (rate_limit_exceeded + unit) \<times> account list"
where
  "spec_access rate capacity max_accounts key acc now xs =
     (let (bal, others) =
        (case List.find (\<lambda>a. ac_key a = key) xs of
           Some a \<Rightarrow> (refilled rate capacity (now - ac_updated a) (ac_balance a),
                      filter (\<lambda>x. ac_key x \<noteq> key) xs)
         | None \<Rightarrow> (capacity, if max_accounts \<le> length xs then spec_evict xs else xs));
          (result, bal') = spend rate acc bal in
      (result, others @ [\<lparr>ac_key = key, ac_balance = bal', ac_updated = now, ac_last_access = now\<rparr>]))"

definition spec_sweep :: "nat \<Rightarrow> rat \<Rightarrow> instant \<Rightarrow> account list \<Rightarrow> account list" where
  "spec_sweep rate capacity now xs =
     filter (\<lambda>a. \<not> (0 \<le> ac_balance a \<and> IDLE_EVICTION \<le> now - ac_last_access a))
       (map (\<lambda>a. a\<lparr>ac_balance := refilled rate capacity (now - ac_updated a) (ac_balance a),
                   ac_updated := now\<rparr>) xs)"

definition account_of :: "bucket \<Rightarrow> account" where
  "account_of b = \<lparr>ac_key = bkey b, ac_balance = balance b, ac_updated = updated b, ac_last_access = last_access b\<rparr>"

definition accounts :: "rate_limiter \<Rightarrow> account list" where
  "accounts l = map account_of (by_recency (entries (rl_buckets l)))"

lemma account_of_sel [simp]:
  "ac_key (account_of b) = bkey b" "ac_balance (account_of b) = balance b"
  "ac_updated (account_of b) = updated b" "ac_last_access (account_of b) = last_access b"
  by (simp_all add: account_of_def)

lemma settle_spend:
  "settle rate acc b = (case spend rate acc (balance b) of (r, bal) \<Rightarrow> (r, b\<lparr>balance := bal\<rparr>))"
  by (cases acc; cases b) (auto simp: settle_def spend_def)

subsection \<open>Every operation keeps the invariant and acts on the accounts as specified\<close>

lemma find_unique:
  assumes "x \<in> set xs" and "P x" and "\<And>y. y \<in> set xs \<Longrightarrow> P y \<Longrightarrow> y = x"
  shows "List.find P xs = Some x"
  using assms
proof (induction xs)
  case (Cons z zs)
  show ?case
  proof (cases "P z")
    case True
    with Cons.prems(3) [of z] show ?thesis by simp
  next
    case False
    with Cons.prems(1,2) have "x \<in> set zs" by auto
    then have "List.find P zs = Some x"
      using Cons.prems(2) by (rule Cons.IH) (rule Cons.prems(3); simp)
    with False show ?thesis by simp
  qed
qed simp

lemma find_account:
  assumes wf: "hm_wf es" and idx: "lru_indexes l (hm_get es)"
  shows "List.find (\<lambda>a. ac_key a = key) (map account_of (by_recency es)) = map_option account_of (hm_get es key)"
proof (cases "hm_get es key")
  case None
  then show ?thesis
    using lru_indexesD(5) [OF idx] by (auto simp: find_None_iff set_by_recency [OF wf] ran_def)
next
  case (Some b)
  have "bkey b = key" using lru_indexesD(5) [OF idx Some] .
  moreover have "c = b" if "c \<in> ran (hm_get es)" "bkey c = key" for c
    using that lru_indexesD(5) [OF idx] Some by (auto simp: ran_def)
  moreover have "b \<in> ran (hm_get es)" using Some by (auto simp: ran_def)
  ultimately have "List.find (\<lambda>a. ac_key a = key) (map account_of (by_recency es)) = Some (account_of b)"
    by (intro find_unique) (fastforce simp: set_by_recency [OF wf])+
  with Some show ?thesis by simp
qed

lemma find_least:
  assumes "sorted_wrt (<) (map border xs)" and "b \<in> set xs" and "P b"
    and "\<And>c. c \<in> set xs \<Longrightarrow> P c \<Longrightarrow> border b \<le> border c" and same: "\<And>c. P' (f c) = P c"
  shows "List.find P' (map f xs) = Some (f b)"
  using assms(1-4)
proof (induction xs)
  case (Cons x xs)
  show ?case
  proof (cases "x = b")
    case False
    with Cons.prems have "\<not> P x" by (auto simp: not_less [symmetric])
    with False Cons show ?thesis by (simp add: same)
  qed (use Cons.prems same in simp)
qed simp

text \<open>Removing the bucket with the least order number removes the first one.\<close>

lemma remove_least:
  assumes "sorted_wrt (<) (map border bs)" and "b \<in> set bs" and "bkey b = v"
    and "\<And>c. c \<in> set bs \<Longrightarrow> border b \<le> border c" and "\<And>c. c \<in> set bs \<Longrightarrow> bkey c = v \<Longrightarrow> c = b"
  shows "filter (\<lambda>c. bkey c \<noteq> v) bs = tl bs"
proof -
  obtain x xs where bs: "bs = x # xs" using assms(2) by (cases bs) auto
  have "border x < border c" if "c \<in> set xs" for c using assms(1) that by (simp add: bs)
  moreover have "border b \<le> border x" using assms(4) by (simp add: bs)
  ultimately have "b \<notin> set xs" by (metis not_less)
  then have "x = b" using assms(2) by (auto simp: bs)
  moreover have "filter (\<lambda>c. bkey c \<noteq> v) xs = xs"
  proof (rule filter_True, rule ballI, rule notI)
    fix c assume c: "c \<in> set xs" "bkey c = v"
    then have "c = b" by (intro assms(5)) (simp_all add: bs)
    with c(1) \<open>b \<notin> set xs\<close> show False by simp
  qed
  ultimately show ?thesis using assms(3) by (simp add: bs)
qed

lemma spec_evict_refines:
  assumes wf: "hm_wf es" and idx: "lru_indexes l (hm_get es)" and ne: "hm_get es \<noteq> Map.empty"
    and flags: "\<forall>k b. hm_get es k = Some b \<longrightarrow> (indebted b \<longleftrightarrow> balance b < 0)"
    and ev: "evict_one es l = (forgave, es', l')"
  shows "map account_of (by_recency es') = spec_evict (map account_of (by_recency es))"
    and "hm_wf es'" "lru_indexes l' (hm_get es')" "next_order l' = next_order l" "Suc (length es') = length es"
    and "hm_get es' k = Some b \<Longrightarrow> hm_get es k = Some b"
proof -
  obtain v b where v: "hm_get es v = Some b" "es' = hm_remove v es" "l' = lru_unlink b l"
      "\<And>k' b'. hm_get es k' = Some b' \<Longrightarrow> \<not> indebted b' \<Longrightarrow> \<not> indebted b \<and> border b \<le> border b'"
      "\<And>k' b'. hm_get es k' = Some b' \<Longrightarrow> indebted b \<Longrightarrow> border b \<le> border b'"
    using evict_one_victim [OF idx ne ev] by metis
  have bk: "bkey b = v" using lru_indexesD(5) [OF idx v(1)] .
  have sorted: "sorted_wrt (<) (map border (by_recency es))" by (rule by_recency_sorted [OF wf idx])
  have mem: "b \<in> set (by_recency es)" using v(1) by (auto simp: set_by_recency [OF wf] ran_def)
  have removed: "by_recency es' = filter (\<lambda>c. bkey c \<noteq> v) (by_recency es)"
    using by_recency_remove [OF wf idx] v(2) by simp
  have in_es: "\<exists>k. hm_get es k = Some c" if "c \<in> set (by_recency es)" for c
    using that by (auto simp: set_by_recency [OF wf] ran_def)
  show "map account_of (by_recency es') = spec_evict (map account_of (by_recency es))"
  proof (cases "indebted b")
    case False
    have "List.find (\<lambda>a. 0 \<le> ac_balance a) (map account_of (by_recency es)) = Some (account_of b)"
      by (rule find_least [where P = "\<lambda>c. 0 \<le> balance c", OF sorted mem])
        (use False v(1,4) flags in_es in \<open>force simp: not_less\<close>)+
    then show ?thesis by (simp add: spec_evict_def removed bk filter_map comp_def)
  next
    case True
    then have debts: "indebted c" if "c \<in> set (by_recency es)" for c
      using in_es [OF that] v(4) by blast
    then have none: "List.find (\<lambda>a. 0 \<le> ac_balance a) (map account_of (by_recency es)) = None"
      using in_es flags by (fastforce simp: find_None_iff not_le)
    have "filter (\<lambda>c. bkey c \<noteq> v) (by_recency es) = tl (by_recency es)"
    proof (rule remove_least [OF sorted mem bk])
      fix c assume "c \<in> set (by_recency es)"
      then obtain k where k: "hm_get es k = Some c" using in_es by blast
      show "border b \<le> border c" using v(5) [OF k True] .
      show "c = b" if "bkey c = v" using lru_indexesD(5) [OF idx k] that k v(1) by simp
    qed
    then show ?thesis by (simp add: spec_evict_def none map_tl removed)
  qed
  show "hm_wf es'" using wf v(2) by (simp add: hm.invar_rem)
  show "lru_indexes l' (hm_get es')"
    using lru_indexes_unlink [OF idx v(1)] v(2,3) wf by (simp add: hm.lookup_rem)
  show "next_order l' = next_order l" by (simp add: v(3))
  show "Suc (length es') = length es" using hm.len_rem_old [OF wf v(1)] v(2) by simp
  show "hm_get es' k = Some b \<Longrightarrow> hm_get es k = Some b" for k b
    using wf v(2) by (auto simp: hm.lookup_rem split: if_splits)
qed

lemma link_buckets:
  assumes wf: "hm_wf es" and idx0: "lru_indexes la (hm_get es)" and next0: "next_order la = next_order l"
    and idx: "lru_indexes l ((hm_get es)(bkey b := None))" and room: "next_order l \<noteq> - 1"
    and link: "lru_link b l = (b', l')"
    and others: "\<forall>k c. hm_get es k = Some c \<longrightarrow> bucket_ok capacity c"
    and bal: "- (2 ^ 64) \<le> balance b" "balance b \<le> capacity" "f64_round (balance b) = balance b"
  shows "buckets_ok capacity \<lparr>entries = hm_insert (bkey b) b' es, bk_lru = l'\<rparr>"
    and "map account_of (by_recency (hm_insert (bkey b) b' es))
      = filter (\<lambda>a. ac_key a \<noteq> bkey b) (map account_of (by_recency es)) @ [account_of b]"
proof -
  note b' = lru_link_bucket(1) [OF link]
  have ins: "hm_get (hm_insert (bkey b) b' es) = (hm_get es)(bkey b \<mapsto> b')"
    using wf by (rule hm.lookup_ins)
  have idx': "lru_indexes l' (hm_get (hm_insert (bkey b) b' es))"
    using lru_indexes_link [OF idx _ room link] by (simp add: ins)
  moreover have "bucket_ok capacity b'" using bal by (simp add: b' bucket_ok_def)
  ultimately show "buckets_ok capacity \<lparr>entries = hm_insert (bkey b) b' es, bk_lru = l'\<rparr>"
    using wf others by (auto simp: buckets_ok_def hm.invar_ins ins split: if_splits)
  have "border c < border b'" if "hm_get es k = Some c" for k c
    using lru_indexesD(6) [OF idx0 that] by (simp add: b' next0)
  from by_recency_insert [OF wf idx0 idx' this]
  show "map account_of (by_recency (hm_insert (bkey b) b' es))
      = filter (\<lambda>a. ac_key a \<noteq> bkey b) (map account_of (by_recency es)) @ [account_of b]"
    by (simp add: filter_map comp_def b' account_of_def)
qed

text \<open>What both branches of \<open>access\<close> end with: settle the bucket, link it, store it.\<close>

lemma settle_link_buckets:
  assumes wf: "hm_wf es" and idx0: "lru_indexes la (hm_get es)" and next0: "next_order la = next_order l"
    and idx: "lru_indexes l ((hm_get es)(key := None))" and room: "next_order l \<noteq> - 1"
    and each: "\<forall>k c. hm_get es k = Some c \<longrightarrow> bucket_ok capacity c"
    and b: "- (2 ^ 64) \<le> balance b" "balance b \<le> capacity" "f64_round (balance b) = balance b"
      "bkey b = key" "updated b = now" "last_access b = now"
    and acc: "access_ok acc"
    and st: "settle rate acc b = (r, b1)" and link: "lru_link b1 l = (b2, l')"
  shows "buckets_ok capacity \<lparr>entries = hm_insert key b2 es, bk_lru = l'\<rparr>"
    and "next_order l' = next_order l + 1"
    and "\<exists>bal. spend rate acc (balance b) = (r, bal) \<and> map account_of (by_recency (hm_insert key b2 es)) =
      filter (\<lambda>a. ac_key a \<noteq> key) (map account_of (by_recency es))
        @ [\<lparr>ac_key = key, ac_balance = bal, ac_updated = now, ac_last_access = now\<rparr>]"
proof -
  note b1 = settle_balance [OF st acc b(1-3)]
  have key1: "bkey b1 = key" using b1(4) b(4) by simp
  note linked = link_buckets [OF wf idx0 next0 idx [folded key1] room link each b1(1-3)]
  show "buckets_ok capacity \<lparr>entries = hm_insert key b2 es, bk_lru = l'\<rparr>"
    using linked(1) key1 by simp
  show "next_order l' = next_order l + 1" by (rule lru_link_bucket(2) [OF link])
  have "account_of b1 = \<lparr>ac_key = key, ac_balance = balance b1, ac_updated = now, ac_last_access = now\<rparr>"
    using b1(4-6) b(4-6) by (simp add: account_of_def)
  moreover have "spend rate acc (balance b) = (r, balance b1)"
    using st by (auto simp: settle_spend split: prod.splits)
  ultimately show "\<exists>bal. spend rate acc (balance b) = (r, bal) \<and> map account_of (by_recency (hm_insert key b2 es)) =
      filter (\<lambda>a. ac_key a \<noteq> key) (map account_of (by_recency es))
        @ [\<lparr>ac_key = key, ac_balance = bal, ac_updated = now, ac_last_access = now\<rparr>]"
    using linked(2) key1 by simp
qed

definition spec_access_of ::
  "rate_limiter \<Rightarrow> bytes \<Rightarrow> access \<Rightarrow> instant \<Rightarrow> (rate_limit_exceeded + unit) \<times> account list" where
  "spec_access_of l key acc now =
     spec_access (rl_rate l) (rl_capacity l) (rl_max_buckets l) key acc now (accounts l)"

abbreviation rl_next :: "rate_limiter \<Rightarrow> u64" where
  "rl_next l \<equiv> next_order (bk_lru (rl_buckets l))"

definition access_refined :: "rate_limiter \<Rightarrow> bytes \<Rightarrow> access \<Rightarrow> instant \<Rightarrow> rate_limit_exceeded + unit \<Rightarrow> rate_limiter \<Rightarrow> bool" where
  "access_refined l key acc now r l' \<longleftrightarrow>
     limiter_ok l' \<and> spec_access_of l key acc now = (r, accounts l') \<and> rl_next l' = rl_next l + 1
     \<and> rl_rate l' = rl_rate l \<and> rl_max_buckets l' = rl_max_buckets l"

lemma limiter_okD:
  assumes "limiter_ok l"
  shows "hm_wf (entries (rl_buckets l))" "lru_indexes (bk_lru (rl_buckets l)) (hm_get (entries (rl_buckets l)))"
    and "\<forall>k c. hm_get (entries (rl_buckets l)) k = Some c \<longrightarrow> bucket_ok (rl_capacity l) c"
    and "f64_round (rl_capacity l) = rl_capacity l" "0 \<le> rl_capacity l"
  using assms capacity_bounds [of "rl_capacity l" "rl_rate l"]
  by (auto simp: limiter_ok_def buckets_ok_def)

lemma rl_access_refines_old:
  assumes ok: "limiter_ok l" and acc: "access_ok acc" and room: "rl_next l \<noteq> - 1"
    and rate: "rl_rate l \<noteq> 0" and old: "hm_get (entries (rl_buckets l)) key = Some b"
    and run: "rl_access key acc now l = (r, l')"
  shows "access_refined l key acc now r l'"
proof -
  define es where "es = entries (rl_buckets l)"
  define lru where "lru = bk_lru (rl_buckets l)"
  define b1 where "b1 = (refill now (rl_rate l) (rl_capacity l) b)\<lparr>last_access := now\<rparr>"
  note inv = limiter_okD [OF ok, folded es_def lru_def]
  obtain b2 where st: "settle (rl_rate l) acc b1 = (r, b2)"
    using run rate old by (auto simp: rl_access_def Let_def b1_def split: prod.splits)
  obtain b3 lru2 where link: "lru_link b2 (lru_unlink b lru) = (b3, lru2)" by fastforce
  have l': "l' = l\<lparr>rl_buckets := \<lparr>entries = hm_insert key b3 es, bk_lru = lru2\<rparr>\<rparr>"
    using run rate old st link by (simp add: rl_access_def Let_def b1_def es_def lru_def)
  have old': "hm_get es key = Some b" using old by (simp add: es_def)
  have bal1: "balance b1 = refilled (rl_rate l) (rl_capacity l) (now - updated b) (balance b)" "bkey b1 = key"
      "updated b1 = now" "last_access b1 = now"
    using lru_indexesD(5) [OF inv(2) old'] by (simp_all add: b1_def refill_def)
  have b1: "- (2 ^ 64) \<le> balance b1" "balance b1 \<le> rl_capacity l" "f64_round (balance b1) = balance b1"
    using inv(3) [rule_format, OF old'] refilled_ge [of "balance b" "rl_capacity l" "rl_rate l" "now - updated b"]
      refilled_le inv(4)
    unfolding bal1 by (force simp: bucket_ok_def)+
  have room': "next_order (lru_unlink b lru) \<noteq> - 1" using room by (simp add: lru_def)
  note L = settle_link_buckets [OF inv(1,2) next_order_unlink [symmetric]
      lru_indexes_unlink [OF inv(2) old'] room' inv(3) b1 bal1(2-4) acc st link]
  have accs: "accounts l = map account_of (by_recency es)"
    "accounts l' = map account_of (by_recency (hm_insert key b3 es))"
    by (simp_all add: accounts_def es_def l')
  have "List.find (\<lambda>a. ac_key a = key) (accounts l) = Some (account_of b)"
    using find_account [OF inv(1,2), of key] old' by (simp add: accs)
  with L(3) have "spec_access_of l key acc now = (r, accounts l')"
    by (auto simp: spec_access_of_def spec_access_def accs bal1(1))
  moreover have "limiter_ok l'" "rl_next l' = rl_next l + 1"
    using ok L(1,2) hm.len_ins_old [OF inv(1) old']
    by (simp_all add: limiter_ok_def l' es_def lru_def b1_def refill_def)
  ultimately show ?thesis by (simp add: access_refined_def l')
qed

lemma make_room:
  assumes ok: "limiter_ok l" and es: "es = entries (rl_buckets l)" and lru: "lru = bk_lru (rl_buckets l)"
    and ev: "(if rl_max_buckets l \<le> length es then evict_one es lru else (False, es, lru)) = (forgave, es1, lru1)"
  shows "map account_of (by_recency es1) =
      (if rl_max_buckets l \<le> length es then spec_evict (map account_of (by_recency es))
       else map account_of (by_recency es))"
    and "hm_wf es1" "lru_indexes lru1 (hm_get es1)" "next_order lru1 = next_order lru"
    and "length es1 < rl_max_buckets l" "hm_get es1 k = Some c \<Longrightarrow> hm_get es k = Some c"
proof -
  note inv = limiter_okD [OF ok, folded es lru]
  have ne: "hm_get es \<noteq> Map.empty" if "rl_max_buckets l \<le> length es"
    using that ok hm.len_eq_0 [OF inv(1)] by (auto simp: limiter_ok_def)
  have flags: "\<forall>k c. hm_get es k = Some c \<longrightarrow> (indebted c \<longleftrightarrow> balance c < 0)"
    using inv(3) by (simp add: bucket_ok_def)
  have le: "length es \<le> rl_max_buckets l" using ok by (simp add: limiter_ok_def es)
  have "map account_of (by_recency es1) =
      (if rl_max_buckets l \<le> length es then spec_evict (map account_of (by_recency es))
       else map account_of (by_recency es))
    \<and> hm_wf es1 \<and> lru_indexes lru1 (hm_get es1) \<and> next_order lru1 = next_order lru
    \<and> length es1 < rl_max_buckets l \<and> (\<forall>k c. hm_get es1 k = Some c \<longrightarrow> hm_get es k = Some c)"
  proof (cases "rl_max_buckets l \<le> length es")
    case True
    then have "evict_one es lru = (forgave, es1, lru1)" using ev by simp
    from spec_evict_refines [OF inv(1,2) ne [OF True] flags this] le True show ?thesis by simp
  next
    case False
    with ev inv(1,2) show ?thesis by simp
  qed
  then show "map account_of (by_recency es1) =
      (if rl_max_buckets l \<le> length es then spec_evict (map account_of (by_recency es))
       else map account_of (by_recency es))"
    and "hm_wf es1" "lru_indexes lru1 (hm_get es1)" "next_order lru1 = next_order lru"
    and "length es1 < rl_max_buckets l" "hm_get es1 k = Some c \<Longrightarrow> hm_get es k = Some c"
    by blast+
qed

lemma rl_access_refines_new:
  assumes ok: "limiter_ok l" and acc: "access_ok acc" and room: "rl_next l \<noteq> - 1"
    and rate: "rl_rate l \<noteq> 0" and new: "hm_get (entries (rl_buckets l)) key = None"
    and run: "rl_access key acc now l = (r, l')"
  shows "access_refined l key acc now r l'"
proof -
  define es where "es = entries (rl_buckets l)"
  define lru where "lru = bk_lru (rl_buckets l)"
  note inv = limiter_okD [OF ok, folded es_def lru_def]
  obtain forgave es1 lru1 where ev:
    "(if rl_max_buckets l \<le> length es then evict_one es lru else (False, es, lru)) = (forgave, es1, lru1)"
    by (metis prod_cases3)
  note room1 = make_room [OF ok es_def lru_def ev]
  define b where "b = \<lparr>balance = rl_capacity l, updated = now, last_access = now, border = 0,
                      bkey = key, indebted = False\<rparr>"
  have b: "- (2 ^ 64) \<le> balance b" "balance b \<le> rl_capacity l" "f64_round (balance b) = balance b"
      "bkey b = key" "updated b = now" "last_access b = now"
    using inv(4,5) by (simp_all add: b_def)
  obtain b1 b2 lru2 where st: "settle (rl_rate l) acc b = (r, b1)" and link: "lru_link b1 lru1 = (b2, lru2)"
    and l': "l' = (if forgave then l\<lparr>debt_forgiven_evictions := debt_forgiven_evictions l + 1\<rparr> else l)
               \<lparr>rl_buckets := \<lparr>entries = hm_insert key b2 es1, bk_lru = lru2\<rparr>\<rparr>"
    using run rate new ev [unfolded es_def lru_def]
    by (auto simp: rl_access_def Let_def b_def split: prod.splits)
  have new1: "hm_get es1 key = None"
    using new room1(6) by (cases "hm_get es1 key") (auto simp: es_def)
  have each1: "\<forall>k c. hm_get es1 k = Some c \<longrightarrow> bucket_ok (rl_capacity l) c" using inv(3) room1(6) by blast
  have next1: "next_order lru1 \<noteq> - 1" using room room1(4) by (simp add: lru_def)
  have idx1: "lru_indexes lru1 ((hm_get es1)(key := None))" using room1(3) new1 by (simp add: fun_upd_idem)
  note L = settle_link_buckets [OF room1(2,3) refl idx1 next1 each1 b acc st link]
  have unchanged: "filter (\<lambda>a. ac_key a \<noteq> key) (map account_of (by_recency es1)) = map account_of (by_recency es1)"
    using new1 lru_indexesD(5) [OF room1(3)]
    by (intro filter_True) (auto simp: set_by_recency [OF room1(2)] ran_def)
  have accs: "accounts l = map account_of (by_recency es)"
    "accounts l' = map account_of (by_recency (hm_insert key b2 es1))"
    by (simp_all add: accounts_def es_def l')
  have "List.find (\<lambda>a. ac_key a = key) (accounts l) = None"
    using find_account [OF inv(1,2), of key] new by (simp add: accs es_def)
  with L(3) [unfolded unchanged] have "spec_access_of l key acc now = (r, accounts l')"
    by (auto simp: spec_access_of_def spec_access_def accs room1(1) b_def)
  moreover have "limiter_ok l'" "rl_next l' = rl_next l + 1"
    using ok L(1,2) hm.len_ins_new [OF room1(2) new1, of b2] room1(4,5)
    by (simp_all add: limiter_ok_def l' lru_def)
  ultimately show ?thesis by (simp add: access_refined_def l')
qed

lemma rl_access_refines:
  assumes "limiter_ok l" and "access_ok acc" and "rl_next l \<noteq> - 1" and "rl_rate l \<noteq> 0"
    and "rl_access key acc now l = (r, l')"
  shows "access_refined l key acc now r l'"
  using rl_access_refines_old [OF assms(1-4) _ assms(5)] rl_access_refines_new [OF assms(1-4) _ assms(5)]
  by (cases "hm_get (entries (rl_buckets l)) key") auto

subsection \<open>The idle sweep\<close>

definition aged :: "instant \<Rightarrow> nat \<Rightarrow> rat \<Rightarrow> bucket \<Rightarrow> bucket" where
  "aged now rate capacity b =
     (let b1 = refill now rate capacity b in b1\<lparr>indebted := balance b1 < 0\<rparr>)"

lemma aged_sel [simp]:
  "border (aged now rate capacity b) = border b" "bkey (aged now rate capacity b) = bkey b"
  "last_access (aged now rate capacity b) = last_access b" "updated (aged now rate capacity b) = now"
  "balance (aged now rate capacity b) = refilled rate capacity (now - updated b) (balance b)"
  by (simp_all add: aged_def refill_def Let_def)

lemma bucket_ok_aged:
  assumes "bucket_ok capacity b" and "f64_round capacity = capacity"
  shows "bucket_ok capacity (aged now rate capacity b)"
  using assms refilled_ge [of "balance b" capacity rate "now - updated b"] refilled_le [of rate capacity]
  by (auto simp: bucket_ok_def) (auto simp: aged_def Let_def refill_def)

lemma sweep_visit_aged:
  assumes ok: "bucket_ok capacity b" and idx: "lru_indexes l m" and b: "m k = Some b"
    and visit: "sweep_visit now rate capacity k b l = (b', l')"
  shows "b' = aged now rate capacity b" "lru_indexes l' (m(k \<mapsto> aged now rate capacity b))"
    "next_order l' = next_order l"
proof -
  have ge: "balance b \<le> refilled rate capacity (now - updated b) (balance b)"
    using ok refilled_ge by (simp add: bucket_ok_def)
  with visit ok show b': "b' = aged now rate capacity b"
    by (cases b) (auto simp: sweep_visit_def aged_def Let_def refill_def bucket_ok_def split: if_splits)
  have "indebted (aged now rate capacity b) \<longrightarrow> indebted b"
    using ge ok by (auto simp: aged_def Let_def refill_def bucket_ok_def)
  moreover have "l' = (if indebted b \<and> \<not> indebted b'
      then l\<lparr>debt := bt_remove (border b) (debt l), credit := bt_insert (border b) k (credit l)\<rparr> else l)"
    using visit by (auto simp: sweep_visit_def Let_def refill_def split: if_splits)
  ultimately show "lru_indexes l' (m(k \<mapsto> aged now rate capacity b))"
    using lru_indexes_reindex [OF idx b, of "aged now rate capacity b" l'] b' by simp
  show "next_order l' = next_order l"
    using visit by (auto simp: sweep_visit_def Let_def split: if_splits)
qed

lemma sweep_scan_aged:
  assumes "hm_wf es" and "lru_indexes l m"
    and "\<forall>(k, b) \<in> set es. m k = Some b \<and> bucket_ok capacity b"
    and "sweep_scan now rate capacity es l = (es', l', idle)"
  shows "es' = map (\<lambda>(k, b). (k, aged now rate capacity b)) es
     \<and> idle = map fst (filter (\<lambda>(k, b). is_idle now b) es')
     \<and> lru_indexes l' (\<lambda>k. case map_of es k of Some b \<Rightarrow> Some (aged now rate capacity b) | None \<Rightarrow> m k)
     \<and> next_order l' = next_order l"
  using assms
proof (induction es arbitrary: l m es' l' idle)
  case (Cons kb es)
  obtain k b where kb: "kb = (k, b)" by (cases kb)
  obtain b1 l1 where visit: "sweep_visit now rate capacity k b l = (b1, l1)" by fastforce
  obtain es1 l2 idle1 where scan: "sweep_scan now rate capacity es l1 = (es1, l2, idle1)"
    by (metis prod_cases3)
  note v = sweep_visit_aged [OF _ Cons.prems(2) _ visit]
  from Cons.prems(1,3) kb v have b1: "b1 = aged now rate capacity b"
    and idx1: "lru_indexes l1 (m(k \<mapsto> aged now rate capacity b))" and next1: "next_order l1 = next_order l"
    and wf: "hm_wf es" and fresh: "k \<notin> fst ` set es" by (auto simp: hm_wf_def)
  have "\<forall>(k', c) \<in> set es. (m(k \<mapsto> aged now rate capacity b)) k' = Some c \<and> bucket_ok capacity c"
    using Cons.prems(3) fresh by force
  note ih = Cons.IH [OF wf idx1 this scan]
  have "(\<lambda>k'. case map_of (kb # es) k' of Some b \<Rightarrow> Some (aged now rate capacity b) | None \<Rightarrow> m k') =
     (\<lambda>k'. case map_of es k' of Some b \<Rightarrow> Some (aged now rate capacity b)
           | None \<Rightarrow> (m(k \<mapsto> aged now rate capacity b)) k')"
    using fresh by (auto simp: kb fun_eq_iff simp flip: map_of_eq_None_iff split: option.split)
  with ih Cons.prems(4) kb visit scan b1 next1 show ?case by auto
qed (auto simp: hm_wf_def)

lemma sweep_remove_idle:
  assumes "hm_wf (entries bs)" and "lru_indexes (bk_lru bs) (hm_get (entries bs))"
  shows "hm_wf (entries (sweep_remove idle bs))
     \<and> lru_indexes (bk_lru (sweep_remove idle bs)) (hm_get (entries (sweep_remove idle bs)))
     \<and> by_recency (entries (sweep_remove idle bs)) = filter (\<lambda>b. bkey b \<notin> set idle) (by_recency (entries bs))
     \<and> next_order (bk_lru (sweep_remove idle bs)) = next_order (bk_lru bs)"
  using assms
proof (induction idle arbitrary: bs)
  case (Cons k idle)
  show ?case
  proof (cases "hm_get (entries bs) k")
    case None
    moreover have "filter (\<lambda>b. bkey b \<notin> set idle) (by_recency (entries bs))
        = filter (\<lambda>b. bkey b \<notin> set (k # idle)) (by_recency (entries bs))"
      using None lru_indexesD(5) [OF Cons.prems(2)]
      by (intro filter_cong) (auto simp: set_by_recency [OF Cons.prems(1)] ran_def)
    ultimately show ?thesis using Cons.IH [OF Cons.prems] by (metis sweep_remove.simps(2) option.simps(4))
  next
    case (Some b)
    let ?bs = "\<lparr>entries = hm_remove k (entries bs), bk_lru = lru_unlink b (bk_lru bs)\<rparr>"
    have wf: "hm_wf (entries ?bs)" using Cons.prems(1) by (simp add: hm.invar_rem)
    have idx: "lru_indexes (bk_lru ?bs) (hm_get (entries ?bs))"
      using lru_indexes_unlink [OF Cons.prems(2) Some] Cons.prems(1) by (simp add: hm.lookup_rem)
    from Cons.IH [OF wf idx] Some by_recency_remove [OF Cons.prems, of k] show ?thesis
      by (simp add: conj_commute)
  qed
qed simp

text \<open>The buckets after the scan and the removal of the idle ones.\<close>

lemma sweep_buckets:
  assumes wf: "hm_wf es" and idx: "lru_indexes lru (hm_get es)" and ok: "\<forall>k b. hm_get es k = Some b \<longrightarrow> bucket_ok capacity b"
    and scan: "sweep_scan now rate capacity es lru = (es1, lru1, idle)"
    and bs: "bs = \<lparr>entries = es1, bk_lru = lru1\<rparr>"
  shows "hm_wf (entries (sweep_remove idle bs))"
    and "lru_indexes (bk_lru (sweep_remove idle bs)) (hm_get (entries (sweep_remove idle bs)))"
    and "by_recency (entries (sweep_remove idle bs)) = filter (\<lambda>b. \<not> is_idle now b) (map (aged now rate capacity) (by_recency es))"
    and "next_order (bk_lru (sweep_remove idle bs)) = next_order lru"
    and "length idle + length (entries (sweep_remove idle bs)) = length es"
proof -
  let ?aged = "aged now rate capacity"
  have "\<forall>(k, b) \<in> set es. hm_get es k = Some b \<and> bucket_ok capacity b"
    using wf ok by (auto simp: hm_wf_def)
  note S = sweep_scan_aged [OF wf idx this scan]
  have es1: "es1 = map (\<lambda>(k, b). (k, ?aged b)) es" using S by blast
  have wf1: "hm_wf (entries bs)" using wf by (simp add: bs es1 hm_wf_def comp_def case_prod_beta)
  have "hm_get es1 = (\<lambda>k. case hm_get es k of Some b \<Rightarrow> Some (?aged b) | None \<Rightarrow> hm_get es k)"
    by (auto simp: es1 map_of_map fun_eq_iff split: option.split)
  with S have idx1: "lru_indexes (bk_lru bs) (hm_get (entries bs))" by (simp add: bs)
  note R = sweep_remove_idle [OF wf1 idx1, of idle]
  have "map snd es1 = map ?aged (map snd es)" by (simp add: es1 case_prod_beta)
  then have rec1: "by_recency es1 = map ?aged (by_recency es)"
    by (simp only: by_recency_def sort_key_map aged_sel)
  have idle: "k \<in> set idle \<longleftrightarrow> (\<exists>b. hm_get es1 k = Some b \<and> is_idle now b)" for k
    using S wf1 by (force simp: bs hm_wf_def)
  have gone: "bkey b \<in> set idle \<longleftrightarrow> is_idle now b" if "b \<in> set (by_recency es1)" for b
    using that lru_indexesD(5) [OF idx1] wf1 by (auto simp: idle set_by_recency ran_def bs)
  show left: "by_recency (entries (sweep_remove idle bs)) = filter (\<lambda>b. \<not> is_idle now b) (map ?aged (by_recency es))"
    using R gone by (simp add: bs flip: rec1 cong: filter_cong)
  have "length idle + length (filter (\<lambda>b. \<not> is_idle now b) (by_recency es1)) = length es"
    using S sum_length_filter_compl [of "is_idle now" "map snd es1"]
    by (simp add: by_recency_def filter_sort es1 filter_map comp_def case_prod_beta)
  then show "length idle + length (entries (sweep_remove idle bs)) = length es"
    by (metis left rec1 length_by_recency)
  show "hm_wf (entries (sweep_remove idle bs))"
    "lru_indexes (bk_lru (sweep_remove idle bs)) (hm_get (entries (sweep_remove idle bs)))" using R by blast+
  show "next_order (bk_lru (sweep_remove idle bs)) = next_order lru" using R S by (simp add: bs)
qed

lemma sweep_idle_refines:
  assumes ok: "limiter_ok l" and rate: "rl_rate l \<noteq> 0" and run: "sweep_idle now l = (n, l')"
  shows "limiter_ok l'" "accounts l' = spec_sweep (rl_rate l) (rl_capacity l) now (accounts l)"
    "n = length (accounts l) - length (accounts l')" "rl_next l' = rl_next l"
    "rl_rate l' = rl_rate l" "rl_max_buckets l' = rl_max_buckets l"
proof -
  define es where "es = entries (rl_buckets l)"
  define lru where "lru = bk_lru (rl_buckets l)"
  note inv = limiter_okD [OF ok, folded es_def lru_def]
  obtain es1 lru1 idle where scan: "sweep_scan now (rl_rate l) (rl_capacity l) es lru = (es1, lru1, idle)"
    by (metis prod_cases3)
  define bs where "bs = \<lparr>entries = es1, bk_lru = lru1\<rparr>"
  have l': "l' = l\<lparr>rl_buckets := sweep_remove idle bs\<rparr>" "n = length idle"
    using run rate scan by (auto simp: sweep_idle_def es_def lru_def bs_def)
  note B = sweep_buckets [OF inv(1,2,3) scan bs_def]
  show "accounts l' = spec_sweep (rl_rate l) (rl_capacity l) now (accounts l)"
    by (simp add: accounts_def l' B(3) spec_sweep_def filter_map comp_def is_idle_def account_of_def flip: es_def)
  show "n = length (accounts l) - length (accounts l')"
    using B(5) by (simp add: accounts_def l' flip: es_def)
  have "bucket_ok (rl_capacity l) c" if "hm_get (entries (sweep_remove idle bs)) k = Some c" for k c
  proof -
    have "c \<in> set (by_recency (entries (sweep_remove idle bs)))"
      using that by (simp only: set_by_recency [OF B(1)] ranI)
    then show ?thesis using inv(1,3,4) by (auto simp: B(3) set_by_recency ran_def bucket_ok_aged)
  qed
  then show "limiter_ok l'" using ok B by (simp add: limiter_ok_def buckets_ok_def l' es_def)
  show "rl_next l' = rl_next l" using B(4) by (simp add: l' lru_def)
  show "rl_rate l' = rl_rate l" "rl_max_buckets l' = rl_max_buckets l" by (simp_all add: l')
qed

section \<open>Runs of the limiter\<close>

text \<open>
  Any sequence of operations, in the order in which the lock serialises them. The clock is read
  before the lock is taken, so the readings of a run need not be monotone.
\<close>

datatype rl_op = OpProbe bytes instant | OpCharge bytes nat instant | OpSweep instant | OpTakeForgiven

datatype rl_out = OutAccess "rate_limit_exceeded + unit" | OutSweep nat | OutTaken

fun rl_step :: "rl_op \<Rightarrow> rate_limiter \<Rightarrow> rl_out \<times> rate_limiter" where
  "rl_step (OpProbe key now) l = (case rl_probe key now l of (r, l') \<Rightarrow> (OutAccess r, l'))"
| "rl_step (OpCharge key n now) l = (case rl_charge key n now l of (r, l') \<Rightarrow> (OutAccess r, l'))"
| "rl_step (OpSweep now) l = (case sweep_idle now l of (n, l') \<Rightarrow> (OutSweep n, l'))"
| "rl_step OpTakeForgiven l = (OutTaken, snd (take_debt_forgiven_evictions l))"

fun rl_run :: "rl_op list \<Rightarrow> rate_limiter \<Rightarrow> rl_out list \<times> rate_limiter" where
  "rl_run [] l = ([], l)"
| "rl_run (op # ops) l =
     (let (out, l1) = rl_step op l; (outs, l2) = rl_run ops l1 in (out # outs, l2))"

fun spec_step :: "nat \<Rightarrow> rat \<Rightarrow> nat \<Rightarrow> rl_op \<Rightarrow> account list \<Rightarrow> rl_out \<times> account list" where
  "spec_step rate capacity n (OpProbe key now) xs =
     (case spec_access rate capacity n key Probe now xs of (r, ys) \<Rightarrow> (OutAccess r, ys))"
| "spec_step rate capacity n (OpCharge key count now) xs =
     (case spec_access rate capacity n key (Charge count) now xs of (r, ys) \<Rightarrow> (OutAccess r, ys))"
| "spec_step rate capacity n (OpSweep now) xs =
     (let ys = spec_sweep rate capacity now xs in (OutSweep (length xs - length ys), ys))"
| "spec_step rate capacity n OpTakeForgiven xs = (OutTaken, xs)"

fun spec_run :: "nat \<Rightarrow> rat \<Rightarrow> nat \<Rightarrow> rl_op list \<Rightarrow> account list \<Rightarrow> rl_out list \<times> account list" where
  "spec_run rate capacity n [] xs = ([], xs)"
| "spec_run rate capacity n (op # ops) xs =
     (let (out, ys) = spec_step rate capacity n op xs; (outs, zs) = spec_run rate capacity n ops ys in
      (out # outs, zs))"

fun op_ok :: "rl_op \<Rightarrow> bool" where
  "op_ok (OpCharge key n now) = (n \<le> u64_max)"
| "op_ok _ = True"

lemma rl_step_refines:
  assumes ok: "limiter_ok l" and op: "op_ok op" and room: "rl_next l \<noteq> - 1" and rate: "rl_rate l \<noteq> 0"
    and run: "rl_step op l = (out, l')"
  shows "limiter_ok l'" "rl_rate l' = rl_rate l" "rl_max_buckets l' = rl_max_buckets l"
    "spec_step (rl_rate l) (rl_capacity l) (rl_max_buckets l) op (accounts l) = (out, accounts l')"
    "rl_next l' = rl_next l \<or> rl_next l' = rl_next l + 1"
proof -
  have "limiter_ok l' \<and> rl_rate l' = rl_rate l \<and> rl_max_buckets l' = rl_max_buckets l
    \<and> spec_step (rl_rate l) (rl_capacity l) (rl_max_buckets l) op (accounts l) = (out, accounts l')
    \<and> (rl_next l' = rl_next l \<or> rl_next l' = rl_next l + 1)"
  proof (cases op)
    case (OpProbe key now)
    obtain r where r: "rl_access key Probe now l = (r, l')" "out = OutAccess r"
      using run by (auto simp: OpProbe rl_probe_def split: prod.splits)
    with rl_access_refines [OF ok _ room rate r(1)] show ?thesis
      by (simp add: OpProbe access_ok_def access_refined_def spec_access_of_def)
  next
    case (OpCharge key n now)
    obtain r where r: "rl_access key (Charge n) now l = (r, l')" "out = OutAccess r"
      using run by (auto simp: OpCharge rl_charge_def split: prod.splits)
    with rl_access_refines [OF ok _ room rate r(1)] op show ?thesis
      by (simp add: OpCharge access_ok_def access_refined_def spec_access_of_def)
  next
    case (OpSweep now)
    obtain n where n: "sweep_idle now l = (n, l')" "out = OutSweep n"
      using run by (auto simp: OpSweep split: prod.splits)
    with sweep_idle_refines [OF ok rate n(1)] show ?thesis
      by (simp add: OpSweep Let_def)
  next
    case OpTakeForgiven
    with run ok show ?thesis
      by (auto simp: take_debt_forgiven_evictions_def limiter_ok_def accounts_def)
  qed
  then show "limiter_ok l'" "rl_rate l' = rl_rate l" "rl_max_buckets l' = rl_max_buckets l"
    "spec_step (rl_rate l) (rl_capacity l) (rl_max_buckets l) op (accounts l) = (out, accounts l')"
    "rl_next l' = rl_next l \<or> rl_next l' = rl_next l + 1" by blast+
qed

lemma limiter_ok_capacity:
  "limiter_ok l \<Longrightarrow> limiter_ok l' \<Longrightarrow> rl_rate l' = rl_rate l \<Longrightarrow> rl_capacity l' = rl_capacity l"
  by (simp add: limiter_ok_def)

lemma rl_run_refines:
  assumes "limiter_ok l" and "list_all op_ok ops" and "unat (rl_next l) + length ops < 2 ^ 64"
    and "rl_rate l \<noteq> 0" and "rl_run ops l = (outs, l')"
  shows "limiter_ok l' \<and> rl_rate l' = rl_rate l \<and> rl_max_buckets l' = rl_max_buckets l
    \<and> spec_run (rl_rate l) (rl_capacity l) (rl_max_buckets l) ops (accounts l) = (outs, accounts l')
    \<and> unat (rl_next l') \<le> unat (rl_next l) + length ops"
  using assms
proof (induction ops arbitrary: l outs l')
  case (Cons op ops)
  obtain out l1 where st: "rl_step op l = (out, l1)" by fastforce
  obtain outs1 where rest: "rl_run ops l1 = (outs1, l')" and outs: "outs = out # outs1"
    using Cons.prems(5) st by (auto split: prod.splits)
  have room: "rl_next l \<noteq> - 1"
    using Cons.prems(3) by (auto simp: unsigned_minus_1_eq_mask mask_eq_exp_minus_1)
  have op: "op_ok op" using Cons.prems(2) by simp
  note S = rl_step_refines [OF Cons.prems(1) op room Cons.prems(4) st]
  have "unat (rl_next l + 1) \<le> Suc (unat (rl_next l))"
    by (metis Suc_eq_plus1 eq_imp_le le_SucI unatSuc add.commute unat_0 le0)
  then have le: "unat (rl_next l1) \<le> Suc (unat (rl_next l))" using S(5) by auto
  then have "unat (rl_next l1) + length ops < 2 ^ 64" using Cons.prems(3) by simp
  with le Cons.IH [OF S(1) _ _ _ rest] S Cons.prems(2,4) limiter_ok_capacity [OF Cons.prems(1) S(1,2)]
  show ?case by (simp add: outs)
qed auto

lemma limiter_ok_new: "limiter_ok (with_max_buckets rate n)"
  by (simp add: limiter_ok_def buckets_ok_def with_max_buckets_def lru_indexes_empty hm_wf_def)

section \<open>Properties\<close>

lemma rate_limiter_accounts_run:
  assumes "rate \<noteq> 0" and "list_all op_ok ops" and "length ops < 2 ^ 64"
  shows "spec_run rate (f64_of_nat (saturating_mul rate 2)) (max n 1) ops [] =
    (fst (rl_run ops (with_max_buckets rate n)), accounts (snd (rl_run ops (with_max_buckets rate n))))"
  using rl_run_refines [OF limiter_ok_new assms(2), of rate n] assms(1,3)
  by (cases "rl_run ops (with_max_buckets rate n)")
    (simp add: with_max_buckets_def accounts_def by_recency_def)

text \<open>
  C7. Over any sequence of probes, charges and sweeps a limiter answers as the list of accounts
  does and its buckets, in recency order, are that list: an access refills, settles and moves the
  account to the recent end; a new account at the bound replaces the least recently used one
  that is not in debt, and only if all are in debt the least recently used of all. The bound on
  the length keeps the access counter from wrapping.
\<close>

theorem rate_limiter_refines_accounts:
  assumes "rate \<noteq> 0" and "list_all op_ok ops" and "length ops < 2 ^ 64"
  shows "spec_run rate (f64_of_nat (saturating_mul rate 2)) (max n 1) ops [] =
    (fst (rl_run ops (with_max_buckets rate n)), accounts (snd (rl_run ops (with_max_buckets rate n))))"
  using assms by (rule rate_limiter_accounts_run)

definition sample_ops :: "rl_op list" where
  "sample_ops = [OpCharge ''a'' 1 0, OpCharge ''b'' 9 0, OpProbe ''c'' (from_secs 1)]"

theorem rate_limiter_refines_accounts_witness:
  "spec_run 2 (f64_of_nat (saturating_mul 2 2)) (max 2 1) sample_ops [] =
    (fst (rl_run sample_ops (with_max_buckets 2 2)), accounts (snd (rl_run sample_ops (with_max_buckets 2 2))))"
  by (rule rate_limiter_refines_accounts) (simp_all add: sample_ops_def u64_max_def)

lemma rl_step_disabled:
  assumes "rl_rate l = 0" and "limiter_ok l" and "rl_step op l = (out, l')"
  shows "limiter_ok l' \<and> rl_rate l' = 0 \<and> rl_max_buckets l' = rl_max_buckets l"
  using assms
  by (cases op) (auto simp: rl_probe_def rl_charge_def rl_access_def sweep_idle_def
      take_debt_forgiven_evictions_def limiter_ok_def split: prod.splits)

lemma rl_run_ok:
  assumes "list_all op_ok ops" and "length ops < 2 ^ 64"
  shows "limiter_ok (snd (rl_run ops (with_max_buckets rate n)))
    \<and> rl_max_buckets (snd (rl_run ops (with_max_buckets rate n))) = max n 1"
proof (cases "rate = 0")
  case True
  have "limiter_ok (snd (rl_run ops l)) \<and> rl_max_buckets (snd (rl_run ops l)) = rl_max_buckets l"
    if "limiter_ok l" "rl_rate l = 0" for l
    using that
  proof (induction ops arbitrary: l)
    case (Cons op ops)
    obtain out l1 where st: "rl_step op l = (out, l1)" by fastforce
    from rl_step_disabled [OF Cons.prems(2,1) st] Cons.IH [of l1] st show ?case
      by (simp add: case_prod_beta Let_def)
  qed simp
  then show ?thesis using limiter_ok_new True by (simp add: with_max_buckets_def)
next
  case False
  with rl_run_refines [OF limiter_ok_new assms(1), of rate n] assms(2) show ?thesis
    by (cases "rl_run ops (with_max_buckets rate n)") (simp add: with_max_buckets_def)
qed

text \<open>
  C14. After any sequence of operations the limiter retains at most \<open>max_buckets\<close> buckets (one
  at least), a bucket is in the debt index under its order if its balance is negative and in the
  credit index otherwise, in no other place, and the indexes hold nothing else; no balance
  exceeds the capacity or falls below \<open>-2\<^sup>6\<^sup>4\<close>.
\<close>

theorem rate_limiter_index_exact:
  assumes "list_all op_ok ops" and "length ops < 2 ^ 64"
    and "l = snd (rl_run ops (with_max_buckets rate n))"
  shows "bucket_count l \<le> max n 1
    \<and> (map_of (debt (bk_lru (rl_buckets l))) i = Some k \<longleftrightarrow>
        (\<exists>b. hm_get (entries (rl_buckets l)) k = Some b \<and> border b = i \<and> balance b < 0))
    \<and> (map_of (credit (bk_lru (rl_buckets l))) i = Some k \<longleftrightarrow>
        (\<exists>b. hm_get (entries (rl_buckets l)) k = Some b \<and> border b = i \<and> 0 \<le> balance b))
    \<and> (\<forall>b. hm_get (entries (rl_buckets l)) k = Some b \<longrightarrow>
        - (2 ^ 64) \<le> balance b \<and> balance b \<le> f64_of_nat (saturating_mul (rl_rate l) 2))"
proof -
  have ok: "limiter_ok l" "rl_max_buckets l = max n 1" using rl_run_ok [OF assms(1,2)] assms(3) by auto
  note inv = limiter_okD [OF ok(1)]
  have "bucket_count l \<le> max n 1" using ok by (simp add: bucket_count_def limiter_ok_def)
  moreover have "map_of (debt (bk_lru (rl_buckets l))) i = Some k \<longleftrightarrow>
      (\<exists>b. hm_get (entries (rl_buckets l)) k = Some b \<and> border b = i \<and> balance b < 0)"
    using lru_indexesD(4) [OF inv(2)] inv(3) by (auto simp: bucket_ok_def)
  moreover have "map_of (credit (bk_lru (rl_buckets l))) i = Some k \<longleftrightarrow>
      (\<exists>b. hm_get (entries (rl_buckets l)) k = Some b \<and> border b = i \<and> 0 \<le> balance b)"
    using lru_indexesD(3) [OF inv(2)] inv(3) by (auto simp: bucket_ok_def not_less [symmetric])
  moreover have "- (2 ^ 64) \<le> balance b \<and> balance b \<le> f64_of_nat (saturating_mul (rl_rate l) 2)"
    if "hm_get (entries (rl_buckets l)) k = Some b" for b
    using that inv(3) ok(1) by (auto simp: bucket_ok_def limiter_ok_def)
  ultimately show ?thesis by blast
qed

theorem rate_limiter_index_exact_witness:
  "bucket_count (snd (rl_run sample_ops (with_max_buckets 2 2))) \<le> 2"
proof -
  have "list_all op_ok sample_ops" "length sample_ops < 2 ^ 64"
    by (simp_all add: sample_ops_def u64_max_def)
  from rate_limiter_index_exact [OF this refl, of 2 2 0 "''a''"] show ?thesis by simp
qed

lemma as_secs_f64_from_secs: "s \<le> 2 ^ 53 \<Longrightarrow> as_secs_f64 (from_secs s) = of_nat s"
  by (simp add: as_secs_f64_def as_secs_def subsec_nanos_def from_secs_def f64_of_nat_exact f64_round_of_nat)

lemma refilled_int:
  assumes "rate \<le> 2 ^ 51" and "0 < rate" and "rate * dt \<le> 2 ^ 52" and "\<bar>bal\<bar> \<le> 2 ^ 52"
  shows "refilled rate (of_nat (2 * rate)) (from_secs dt) (of_int bal) =
    of_int (min (bal + int (rate * dt)) (int (2 * rate)))"
proof -
  have "dt \<le> 2 ^ 53"
  proof -
    have "dt \<le> rate * dt" using assms(2) by simp
    also note assms(3)
    finally show ?thesis by simp
  qed
  moreover have "f64_of_nat rate = of_nat rate" using assms(1) by (simp add: f64_of_nat_exact)
  moreover have "f64_round (of_nat (dt * rate)) = of_nat (dt * rate)"
    using assms(3) by (intro f64_round_of_nat) (simp add: mult.commute)
  moreover have "f64_round (of_int (bal + int (dt * rate))) = of_int (bal + int (dt * rate))"
  proof (rule f64_round_of_int)
    have "int (dt * rate) \<le> int (2 ^ 52)" using assms(3) by (simp only: of_nat_le_iff mult.commute)
    with assms(4) show "\<bar>bal + int (dt * rate)\<bar> \<le> 2 ^ 53" by (simp add: abs_le_iff del: of_nat_mult)
  qed
  ultimately show ?thesis
    by (simp add: refilled_def as_secs_f64_from_secs of_int_min mult.commute)
qed

lemma ceiling_quotient_bounds:
  assumes "0 < r" and "c = \<lceil>of_nat d / (of_nat r :: rat)\<rceil>"
  shows "(c - 1) * int r < int d" and "int d \<le> c * int r"
proof -
  have "of_int (c - 1) < of_nat d / (of_nat r :: rat)" "of_nat d / (of_nat r :: rat) \<le> of_int c"
    unfolding assms(2) by linarith+
  then have "of_int ((c - 1) * int r) < (of_int (int d) :: rat)" "(of_int (int d) :: rat) \<le> of_int (c * int r)"
    using assms(1) by (simp_all add: pos_less_divide_eq pos_divide_le_eq)
  then show "(c - 1) * int r < int d" and "int d \<le> c * int r"
    by (simp_all only: of_int_less_iff of_int_le_iff)
qed

text \<open>
  The delay of a refusal is \<open>ceil(deficit / rate)\<close>, and at least one second, for every
  deficit of whole tokens below \<open>2\<^sup>5\<^sup>3\<close>: the rounding of the quotient never moves it. Refilling
  for that long clears the debt, and refilling for fewer whole seconds does not.
\<close>

theorem rate_limiter_retry_after_exact:
  assumes "0 < rate" and "rate \<le> 2 ^ 51" and "0 < deficit" and "deficit \<le> 2 ^ 51"
    and "retry = retry_after_secs (exceeded rate (- of_nat deficit))"
  shows "int retry = \<lceil>of_nat deficit / (of_nat rate :: rat)\<rceil>
    \<and> 0 \<le> refilled rate (f64_of_nat (2 * rate)) (from_secs retry) (- of_nat deficit)
    \<and> (\<forall>k < retry. refilled rate (f64_of_nat (2 * rate)) (from_secs k) (- of_nat deficit) < 0)"
proof -
  define c where "c = \<lceil>of_nat deficit / (of_nat rate :: rat)\<rceil>"
  note b = ceiling_quotient_bounds [OF assms(1) c_def]
  have round: "\<lceil>f64_round (of_nat deficit / of_nat rate)\<rceil> = c"
    unfolding c_def using assms by (intro ceiling_f64_quotient) auto
  have pos: "0 < c" unfolding c_def using assms(1,3) by simp
  have "c - 1 \<le> (c - 1) * int rate" using mult_left_mono [of 1 "int rate" "c - 1"] assms(1) pos by simp
  with b(1) have "c \<le> int deficit" by linarith
  with round pos have retry: "int retry = c"
    using assms by (simp add: exceeded_def Let_def f64_of_nat_exact u64_max_def)
  then have ceil: "int retry = \<lceil>of_nat deficit / (of_nat rate :: rat)\<rceil>" by (simp add: c_def)
  have cap: "f64_of_nat (2 * rate) = of_nat (2 * rate)"
    using assms(2) by (intro f64_of_nat_exact) simp
  have exact: "refilled rate (f64_of_nat (2 * rate)) (from_secs s) (- of_nat deficit) =
      of_int (min (- int deficit + int (rate * s)) (int (2 * rate)))" if "s \<le> retry" for s
  proof -
    have "int (rate * s) \<le> int rate * c" using that retry by (simp add: mult_left_mono)
    also have "\<dots> \<le> int deficit + int rate" using b(1) by (simp add: algebra_simps)
    finally have "rate * s \<le> deficit + rate" by (metis of_nat_add of_nat_le_iff)
    then have "rate * s \<le> 2 ^ 52" using assms(2,4) by simp
    then show ?thesis
      using refilled_int [of rate s "- int deficit"] assms by (simp add: cap)
  qed
  have "0 \<le> refilled rate (f64_of_nat (2 * rate)) (from_secs retry) (- of_nat deficit)"
    using exact [of retry] b(2) by (simp add: mult.commute flip: retry)
  moreover have "refilled rate (f64_of_nat (2 * rate)) (from_secs k) (- of_nat deficit) < 0" if "k < retry" for k
  proof -
    have "int k * int rate \<le> (c - 1) * int rate"
      using that retry by (intro mult_right_mono) auto
    then have "int (rate * k) \<le> (c - 1) * int rate" by (simp add: mult.commute)
    with b(1) have "int (rate * k) < int deficit" by linarith
    with exact [of k] that show ?thesis by (simp del: of_nat_mult)
  qed
  ultimately show ?thesis using ceil by blast
qed

lemma retry_sample: "(10::nat) \<le> 2 ^ 51" "(75::nat) \<le> 2 ^ 51"
  by simp_all

theorem rate_limiter_retry_after_exact_witness:
  "int (retry_after_secs (exceeded 10 (- of_nat 75))) = 8
   \<and> 0 \<le> refilled 10 (f64_of_nat (2 * 10)) (from_secs (retry_after_secs (exceeded 10 (- of_nat 75)))) (- of_nat 75)"
proof -
  have "\<lceil>of_nat 75 / (of_nat 10 :: rat)\<rceil> = 8" by (simp add: ceiling_eq_iff)
  with rate_limiter_retry_after_exact [OF _ retry_sample(1) _ retry_sample(2) refl] show ?thesis
    by (simp only: zero_less_numeral simp_thms)
qed

subsection \<open>Throughput\<close>

text \<open>Charges of one credential at whole seconds, and how many commands of them were admitted.\<close>

definition charge_ops :: "bytes \<Rightarrow> (nat \<times> nat) list \<Rightarrow> rl_op list" where
  "charge_ops key cs = map (\<lambda>(t, n). OpCharge key n (from_secs t)) cs"

fun admitted_commands :: "(nat \<times> nat) list \<Rightarrow> rl_out list \<Rightarrow> nat" where
  "admitted_commands ((t, n) # cs) (out # outs) =
     (if out = OutAccess (Inr ()) then max n 1 else 0) + admitted_commands cs outs"
| "admitted_commands _ _ = 0"

abbreviation lone_account :: "bytes \<Rightarrow> int \<Rightarrow> nat \<Rightarrow> account" where
  "lone_account key bal t \<equiv> \<lparr>ac_key = key, ac_balance = of_int bal, ac_updated = from_secs t,
     ac_last_access = from_secs t\<rparr>"

lemma spend_int:
  assumes "\<bar>bal\<bar> \<le> 2 ^ 52" and "n \<le> 2 ^ 52"
  shows "spend rate (Charge n) (of_int bal) =
    (if bal \<le> 0 then (Inl (exceeded rate (of_int bal)), of_int bal)
     else (Inr (), of_int (bal - int (max n 1))))"
proof -
  have "f64_of_nat (max n 1) = of_int (int (max n 1))"
    using f64_of_nat_exact [of "max n 1"] assms(2) by simp
  moreover have "f64_round (of_int (bal - int (max n 1))) = of_int (bal - int (max n 1))"
    using assms by (intro f64_round_of_int) (auto simp: abs_le_iff max_def)
  ultimately show ?thesis by (simp add: spend_def)
qed

lemma spec_charge_lone:
  assumes "rate \<le> 2 ^ 51" and "0 < rate" and "t \<le> t'" and "rate * (t' - t) \<le> 2 ^ 52" and "\<bar>bal\<bar> \<le> 2 ^ 52"
    and "n \<le> 2 ^ 52" and "b = min (bal + int (rate * (t' - t))) (int (2 * rate))"
    and cap: "capacity = of_nat (2 * rate)"
  shows "spec_access rate capacity m key (Charge n) (from_secs t') [lone_account key bal t] =
    (if b \<le> 0 then (Inl (exceeded rate (of_int b)), [lone_account key b t'])
     else (Inr (), [lone_account key (b - int (max n 1)) t']))"
proof -
  have dt: "from_secs t' - from_secs t = from_secs (t' - t)" by (simp add: from_secs_def diff_mult_distrib)
  have "\<bar>b\<bar> \<le> 2 ^ 52"
  proof -
    have "int (rate * (t' - t)) \<le> 2 ^ 52" using assms(4) by (metis of_nat_le_iff of_nat_numeral of_nat_power)
    with assms(1,5,7) show ?thesis by (auto simp: abs_le_iff min_def simp del: of_nat_mult)
  qed
  with assms show ?thesis
    by (simp add: spec_access_def dt cap refilled_int spend_int del: of_nat_mult)
qed

lemma lone_account_throughput:
  assumes "rate \<le> 2 ^ 51" and "0 < rate" and "sorted (t # map fst cs)"
    and "rate * (last (t # map fst cs) - t) \<le> 2 ^ 52"
    and "\<forall>(_, n) \<in> set cs. n \<le> N" and "1 \<le> N" and "N \<le> 2 ^ 52" and "1 - int N \<le> bal" and "bal \<le> int (2 * rate)"
    and cap: "capacity = of_nat (2 * rate)"
  shows "int (admitted_commands cs (fst (spec_run rate capacity m (charge_ops key cs) [lone_account key bal t])))
     \<le> bal + int (rate * (last (t # map fst cs) - t)) + int N - 1"
  using assms(3-9)
proof (induction cs arbitrary: t bal)
  case Nil
  then show ?case by (simp add: charge_ops_def)
next
  case (Cons tn cs)
  obtain t' n where tn: "tn = (t', n)" by (cases tn)
  define b where "b = min (bal + int (rate * (t' - t))) (int (2 * rate))"
  define b' where "b' = (if b \<le> 0 then b else b - int (max n 1))"
  let ?T = "last (t' # map fst cs)"
  have le: "t \<le> t'" using Cons.prems(1) by (auto simp: tn)
  have le': "t' \<le> ?T" using Cons.prems(1) last_in_set [of "t' # map fst cs"] by (auto simp: tn)
  have parts: "rate * (?T - t) = rate * (t' - t) + rate * (?T - t')"
    using le le' by (simp flip: add_mult_distrib2)
  have small: "rate * (t' - t) \<le> 2 ^ 52" "rate * (?T - t') \<le> 2 ^ 52"
    using Cons.prems(2) parts by (auto simp: tn)
  have n: "n \<le> N" using Cons.prems(3) by (auto simp: tn)
  have bal: "\<bar>bal\<bar> \<le> 2 ^ 52" using Cons.prems(5-7) assms(1) by (auto simp: abs_le_iff)
  have step: "spec_access rate capacity m key (Charge n) (from_secs t') [lone_account key bal t] =
      (if b \<le> 0 then Inl (exceeded rate (of_int b)) else Inr (), [lone_account key b' t'])"
    using spec_charge_lone [OF assms(1,2) le small(1) bal _ b_def cap, of n m key] n Cons.prems(5)
    by (simp add: b'_def)
  have "1 - int N \<le> b'" "b' \<le> int (2 * rate)"
    using Cons.prems(4,6,7) n by (auto simp: b'_def b_def min_def max_def simp del: of_nat_mult)
  moreover have "sorted (t' # map fst cs)" using Cons.prems(1) by (simp add: tn)
  ultimately have "int (admitted_commands cs (fst (spec_run rate capacity m (charge_ops key cs) [lone_account key b' t'])))
     \<le> b' + int (rate * (?T - t')) + int N - 1"
    using Cons.IH [of t' b'] Cons.prems(3-5) small(2) by auto
  moreover have "int (if b \<le> 0 then 0 else max n 1) + b' \<le> bal + int (rate * (t' - t))"
    by (auto simp: b'_def b_def)
  moreover have "fst (spec_run rate capacity m (charge_ops key (tn # cs)) [lone_account key bal t]) =
      OutAccess (if b \<le> 0 then Inl (exceeded rate (of_int b)) else Inr ())
        # fst (spec_run rate capacity m (charge_ops key cs) [lone_account key b' t'])"
    by (simp add: tn charge_ops_def step case_prod_beta Let_def)
  moreover have "last (t # map fst (tn # cs)) = ?T" by (simp add: tn)
  ultimately show ?case by (simp add: tn parts del: of_nat_mult last.simps split: if_splits)
qed



subsection \<open>Debt is not forgiven by chance\<close>

lemma accounts_key_inj:
  assumes "limiter_ok l" and "a \<in> set (accounts l)" and "c \<in> set (accounts l)" and "ac_key a = ac_key c"
  shows "a = c"
proof -
  note inv = limiter_okD [OF assms(1)]
  have "\<exists>b. x = account_of b \<and> hm_get (entries (rl_buckets l)) (ac_key x) = Some b" if "x \<in> set (accounts l)" for x
    using that lru_indexesD(5) [OF inv(2)]
    by (auto simp: accounts_def set_by_recency [OF inv(1)] ran_def)
  with assms(2-4) show ?thesis by (metis option.inject)
qed

lemma spec_evict_keeps_debt:
  assumes "c \<in> set xs" and "0 \<le> ac_balance c" and "a \<in> set xs" and "ac_balance a < 0"
    and "\<And>x y. x \<in> set xs \<Longrightarrow> y \<in> set xs \<Longrightarrow> ac_key x = ac_key y \<Longrightarrow> x = y"
  shows "a \<in> set (spec_evict xs)"
proof (cases "List.find (\<lambda>a. 0 \<le> ac_balance a) xs")
  case None
  with assms(1,2) show ?thesis by (auto simp: find_None_iff)
next
  case (Some v)
  then have "v \<in> set xs" "0 \<le> ac_balance v" by (auto simp: find_Some_iff)
  then have "ac_key a \<noteq> ac_key v" using assms(3-5) by force
  with Some assms(3) show ?thesis by (simp add: spec_evict_def)
qed

text \<open>
  C28. In every state the limiter reaches, an indebted account survives whatever another
  credential does as long as there is room or some account is not in debt, and no access of
  another credential touches its balance or its refill time; an idle sweep keeps it, with its
  refilled balance, unless that refill repaid it, and removes only accounts whose refilled
  balance is not negative and that were idle for fifteen minutes.
\<close>

theorem rate_limiter_debt_survives:
  assumes "rate \<noteq> 0" and "list_all op_ok ops" and "Suc (length ops) < 2 ^ 64"
    and "l = snd (rl_run ops (with_max_buckets rate n))" and "a \<in> set (accounts l)"
    and "access_ok acc"
  shows "(ac_balance a < 0 \<longrightarrow> key \<noteq> ac_key a \<longrightarrow>
      bucket_count l < max n 1 \<or> (\<exists>c \<in> set (accounts l). 0 \<le> ac_balance c) \<longrightarrow>
      a \<in> set (accounts (snd (rl_access key acc now l))))
    \<and> (a\<lparr>ac_balance := refilled rate (rl_capacity l) (now - ac_updated a) (ac_balance a), ac_updated := now\<rparr>
        \<in> set (accounts (snd (sweep_idle now l))) \<longleftrightarrow>
      \<not> (0 \<le> refilled rate (rl_capacity l) (now - ac_updated a) (ac_balance a)
         \<and> IDLE_EVICTION \<le> now - ac_last_access a))"
proof -
  have R: "limiter_ok l" "rl_rate l = rate" "rl_max_buckets l = max n 1" "unat (rl_next l) \<le> length ops"
    using rl_run_refines [OF limiter_ok_new assms(2), of rate n] assms(1,3,4)
    by (cases "rl_run ops (with_max_buckets rate n)"; simp add: with_max_buckets_def)+
  have room: "rl_next l \<noteq> - 1"
    using R(4) assms(3) by (auto simp: unsigned_minus_1_eq_mask mask_eq_exp_minus_1)
  have "a \<in> set (accounts (snd (rl_access key acc now l)))"
    if debt: "ac_balance a < 0" and other: "key \<noteq> ac_key a"
      and safe: "bucket_count l < max n 1 \<or> (\<exists>c \<in> set (accounts l). 0 \<le> ac_balance c)"
  proof -
    obtain r l' where run: "rl_access key acc now l = (r, l')" by fastforce
    have spec: "spec_access rate (rl_capacity l) (max n 1) key acc now (accounts l) = (r, accounts l')"
      using rl_access_refines [OF R(1) assms(6) room _ run] assms(1) R(2,3)
      by (simp add: access_refined_def spec_access_of_def)
    have "length (accounts l) = bucket_count l" by (simp add: accounts_def bucket_count_def)
    then have "a \<in> set (spec_evict (accounts l))" if "max n 1 \<le> length (accounts l)"
      using that safe spec_evict_keeps_debt [OF _ _ assms(5) debt] accounts_key_inj [OF R(1)] by fastforce
    then have "a \<in> set (snd (spec_access rate (rl_capacity l) (max n 1) key acc now (accounts l)))"
      using assms(5) other by (simp add: spec_access_def case_prod_beta split: option.split)
    with spec show ?thesis by (simp add: run)
  qed
  moreover have "a\<lparr>ac_balance := refilled rate (rl_capacity l) (now - ac_updated a) (ac_balance a), ac_updated := now\<rparr>
        \<in> set (accounts (snd (sweep_idle now l))) \<longleftrightarrow>
      \<not> (0 \<le> refilled rate (rl_capacity l) (now - ac_updated a) (ac_balance a)
         \<and> IDLE_EVICTION \<le> now - ac_last_access a)"
    using sweep_idle_refines(2) [OF R(1), of now "fst (sweep_idle now l)" "snd (sweep_idle now l)"]
      assms(1,5) R(2)
    by (auto simp: spec_sweep_def)
  ultimately show ?thesis by blast
qed

definition debt_ops :: "rl_op list" where
  "debt_ops = [OpCharge ''b'' 9 0, OpCharge ''a'' 1 0]"

definition debtor :: account where
  "debtor = \<lparr>ac_key = ''b'', ac_balance = - 5, ac_updated = 0, ac_last_access = 0\<rparr>"

lemma debt_ops_accounts:
  "accounts (snd (rl_run debt_ops (with_max_buckets 2 2))) =
     [debtor, \<lparr>ac_key = ''a'', ac_balance = 3, ac_updated = 0, ac_last_access = 0\<rparr>]"
proof -
  have cap: "f64_of_nat (saturating_mul 2 2) = 4"
    by (simp add: saturating_mul_def u64_max_def f64_of_nat_exact)
  have "f64_round (- 5) = - 5" "f64_round 3 = 3"
    using f64_round_of_int [of "- 5"] f64_round_of_int [of 3] by simp_all
  then have "snd (spec_run 2 4 2 debt_ops []) =
      [debtor, \<lparr>ac_key = ''a'', ac_balance = 3, ac_updated = 0, ac_last_access = 0\<rparr>]"
    by (simp add: debt_ops_def spec_access_def spend_def f64_of_nat_exact debtor_def)
  moreover have "list_all op_ok debt_ops" "length debt_ops < 2 ^ 64"
    by (simp_all add: debt_ops_def u64_max_def)
  ultimately show ?thesis
    using rate_limiter_accounts_run [of 2 debt_ops 2] cap by (simp add: numeral_2_eq_2)
qed

theorem rate_limiter_debt_survives_witness:
  "debtor \<in> set (accounts (snd (rl_access ''c'' Probe 0 (snd (rl_run debt_ops (with_max_buckets 2 2))))))"
proof -
  have "list_all op_ok debt_ops" "Suc (length debt_ops) < 2 ^ 64"
    by (simp_all add: debt_ops_def u64_max_def)
  moreover have "debtor \<in> set (accounts (snd (rl_run debt_ops (with_max_buckets 2 2))))"
    by (simp add: debt_ops_accounts)
  ultimately show ?thesis
    using rate_limiter_debt_survives [of 2 debt_ops _ 2, OF _ _ _ refl, of debtor Probe "''c''" 0]
    by (simp add: debt_ops_accounts access_ok_def) (simp add: debtor_def)
qed

end
