(* ===== verification/Utf8.thy ===== *)
theory Utf8
  imports Rust_Prelude
begin

text \<open>
  The UTF-8 part of Rust's standard library that the sources rely on:
  \<open>String::from_utf8_lossy\<close>, \<open>String::from_utf8\<close> and \<open>str::from_utf8\<close>. The decoder
  is the one of \<open>Utf8Chunks\<close>: it reads one scalar value or the longest prefix of one
  that went wrong, and the lossy conversion writes one U+FFFD for each such prefix.
\<close>

definition safe_get :: "bytes \<Rightarrow> nat \<Rightarrow> nat" where
  "safe_get s i = (if i < length s then byte_of (s ! i) else 0)"

definition tag_cont :: "nat \<Rightarrow> bool" where
  "tag_cont b \<longleftrightarrow> 128 \<le> b \<and> b < 192"

definition utf8_char_width :: "nat \<Rightarrow> nat" where
  "utf8_char_width b =
     (if b < 128 then 1
      else if 194 \<le> b \<and> b \<le> 223 then 2
      else if 224 \<le> b \<and> b \<le> 239 then 3
      else if 240 \<le> b \<and> b \<le> 244 then 4
      else 0)"

definition second_of_three :: "nat \<Rightarrow> nat \<Rightarrow> bool" where
  "second_of_three b c \<longleftrightarrow>
     (b = 224 \<and> 160 \<le> c \<and> c \<le> 191) \<or>
     (225 \<le> b \<and> b \<le> 236 \<and> 128 \<le> c \<and> c \<le> 191) \<or>
     (b = 237 \<and> 128 \<le> c \<and> c \<le> 159) \<or>
     (238 \<le> b \<and> b \<le> 239 \<and> 128 \<le> c \<and> c \<le> 191)"

definition second_of_four :: "nat \<Rightarrow> nat \<Rightarrow> bool" where
  "second_of_four b c \<longleftrightarrow>
     (b = 240 \<and> 144 \<le> c \<and> c \<le> 191) \<or>
     (241 \<le> b \<and> b \<le> 243 \<and> 128 \<le> c \<and> c \<le> 191) \<or>
     (b = 244 \<and> 128 \<le> c \<and> c \<le> 143)"

text \<open>How many bytes one step inspects, and whether they are a scalar value.\<close>

definition utf8_step :: "bytes \<Rightarrow> nat \<times> bool" where
  "utf8_step s =
     (let b = safe_get s 0; w = utf8_char_width b in
      if b < 128 then (1, True)
      else if w = 2 then (if tag_cont (safe_get s 1) then (2, True) else (1, False))
      else if w = 3 then
        (if \<not> second_of_three b (safe_get s 1) then (1, False)
         else if tag_cont (safe_get s 2) then (3, True) else (2, False))
      else if w = 4 then
        (if \<not> second_of_four b (safe_get s 1) then (1, False)
         else if \<not> tag_cont (safe_get s 2) then (2, False)
         else if tag_cont (safe_get s 3) then (4, True) else (3, False))
      else (1, False))"

definition replacement_character :: bytes where
  "replacement_character = [char_of (239::nat), char_of (191::nat), char_of (189::nat)]"

lemma utf8_step_pos: "0 < fst (utf8_step s)"
  by (simp add: utf8_step_def Let_def)

function from_utf8_lossy :: "bytes \<Rightarrow> bytes" where
  "from_utf8_lossy s =
     (if s = [] then []
      else (case utf8_step s of (n, ok) \<Rightarrow>
        (if ok then take n s else replacement_character) @ from_utf8_lossy (drop n s)))"
  by pat_completeness auto
termination
proof (relation "measure length")
  fix s :: bytes and n ok
  assume "s \<noteq> []" and "(n, ok) = utf8_step s"
  then show "(drop n s, s) \<in> measure length"
    using utf8_step_pos [of s] by (cases "utf8_step s") simp
qed simp

function valid_utf8 :: "bytes \<Rightarrow> bool" where
  "valid_utf8 s =
     (if s = [] then True
      else if snd (utf8_step s) then valid_utf8 (drop (fst (utf8_step s)) s) else False)"
  by pat_completeness auto
termination
  by (relation "measure length") (auto simp: utf8_step_pos)

declare from_utf8_lossy.simps [simp del] valid_utf8.simps [simp del]

text \<open>\<open>String::from_utf8\<close> keeps the bytes of a valid sequence and rejects any other.\<close>

definition from_utf8 :: "bytes \<Rightarrow> bytes option" where
  "from_utf8 s = (if valid_utf8 s then Some s else None)"

section \<open>Lemmas\<close>

lemma from_utf8_lossy_Nil [simp]: "from_utf8_lossy [] = []"
  by (simp add: from_utf8_lossy.simps [of "[]"])

lemma valid_utf8_Nil [simp]: "valid_utf8 []"
  by (simp add: valid_utf8.simps [of "[]"])

lemma from_utf8_lossy_valid: "valid_utf8 s \<Longrightarrow> from_utf8_lossy s = s"
proof (induction s rule: valid_utf8.induct)
  case (1 s)
  show ?case
  proof (cases "s = []")
    case False
    obtain n ok where step: "utf8_step s = (n, ok)" by (cases "utf8_step s")
    with False 1 have "ok" and "from_utf8_lossy (drop n s) = drop n s"
      by (auto simp: valid_utf8.simps [of s] split: if_splits)
    with step show ?thesis
      by (simp add: from_utf8_lossy.simps [of s] False)
  qed simp
qed

lemma safe_get_pos_less: "0 < safe_get s i \<Longrightarrow> i < length s"
  by (simp add: safe_get_def split: if_splits)

lemma safe_get_append: "i < length s \<Longrightarrow> safe_get (s @ t) i = safe_get s i"
  by (simp add: safe_get_def nth_append)

lemma safe_get_take: "i < n \<Longrightarrow> safe_get (take n s) i = safe_get s i"
  by (simp add: safe_get_def)

lemma utf8_step_ok_length:
  assumes "utf8_step s = (n, True)" and "s \<noteq> []"
  shows "n \<le> length s"
proof -
  have "n \<le> 1 \<or> 0 < safe_get s (n - 1)"
    using assms(1)
    by (auto simp: utf8_step_def Let_def tag_cont_def second_of_three_def second_of_four_def
        split: if_splits)
  then show ?thesis
    using assms(2) safe_get_pos_less [of s "n - 1"] by (cases s) auto
qed

lemma utf8_step_ok_local:
  assumes "utf8_step s = (n, True)" and "\<And>i. i < n \<Longrightarrow> safe_get t i = safe_get s i"
  shows "utf8_step t = (n, True)"
  using assms by (auto simp: utf8_step_def Let_def split: if_splits)

lemma utf8_step_take_append:
  assumes "utf8_step s = (n, True)" and "s \<noteq> []"
  shows "utf8_step (take n s @ t) = (n, True)"
  using assms(1)
proof (rule utf8_step_ok_local)
  fix i assume "i < n"
  with utf8_step_ok_length [OF assms] show "safe_get (take n s @ t) i = safe_get s i"
    by (simp add: safe_get_append safe_get_take)
qed

lemma utf8_step_replacement: "utf8_step (replacement_character @ t) = (3, True)"
  by (simp add: replacement_character_def utf8_step_def Let_def safe_get_def
      utf8_char_width_def second_of_three_def tag_cont_def nth_append)

lemma length_replacement: "length replacement_character = 3"
  by (simp add: replacement_character_def)

lemma valid_utf8_appendI:
  assumes "utf8_step (s @ t) = (length s, True)" and "valid_utf8 t"
  shows "valid_utf8 (s @ t)"
  using assms by (simp add: valid_utf8.simps [of "s @ t"])

text \<open>The lossy conversion always yields valid UTF-8: what Rust's \<open>str\<close> type promises.\<close>

lemma valid_from_utf8_lossy: "valid_utf8 (from_utf8_lossy s)"
proof (induction s rule: from_utf8_lossy.induct)
  case (1 s)
  show ?case
  proof (cases "s = []")
    case False
    obtain n ok where step: "utf8_step s = (n, ok)" by (cases "utf8_step s")
    have IH: "valid_utf8 (from_utf8_lossy (drop n s))"
      using "1.IH" False step by metis
    show ?thesis
    proof (cases ok)
      case True
      with step have step': "utf8_step s = (n, True)" by simp
      have "length (take n s) = n" using utf8_step_ok_length [OF step' False] by simp
      with utf8_step_take_append [OF step' False] IH
      have "valid_utf8 (take n s @ from_utf8_lossy (drop n s))"
        by (intro valid_utf8_appendI) auto
      with False step' show ?thesis by (simp add: from_utf8_lossy.simps [of s])
    next
      case False': False
      have "valid_utf8 (replacement_character @ from_utf8_lossy (drop n s))"
        using IH utf8_step_replacement
        by (intro valid_utf8_appendI) (simp_all add: length_replacement)
      with False False' step show ?thesis by (simp add: from_utf8_lossy.simps [of s])
    qed
  qed simp
qed

lemma from_utf8_lossy_idem: "from_utf8_lossy (from_utf8_lossy s) = from_utf8_lossy s"
  by (rule from_utf8_lossy_valid) (rule valid_from_utf8_lossy)

lemma from_utf8_lossy_eq_iff: "from_utf8_lossy s = s \<longleftrightarrow> valid_utf8 s"
  by (metis from_utf8_lossy_valid valid_from_utf8_lossy)

lemma length_from_utf8_lossy: "length (from_utf8_lossy s) \<le> 3 * length s"
proof (induction s rule: from_utf8_lossy.induct)
  case (1 s)
  show ?case
  proof (cases "s = []")
    case False
    obtain n ok where step: "utf8_step s = (n, ok)" by (cases "utf8_step s")
    have IH: "length (from_utf8_lossy (drop n s)) \<le> 3 * length (drop n s)"
      using "1.IH" False step by metis
    have "0 < n" using utf8_step_pos [of s] step by simp
    then have "length (if ok then take n s else replacement_character) \<le> 3 * (length s - length (drop n s))"
      using False by (cases "n \<le> length s"; cases s) (auto simp: replacement_character_def)
    moreover have "length (drop n s) \<le> length s" by simp
    ultimately have "length (if ok then take n s else replacement_character)
        + length (from_utf8_lossy (drop n s)) \<le> 3 * length s"
      using IH by linarith
    with False step show ?thesis by (simp add: from_utf8_lossy.simps [of s])
  qed simp
qed

definition is_ascii :: "bytes \<Rightarrow> bool" where
  "is_ascii s \<longleftrightarrow> (\<forall>c \<in> set s. byte_of c < 128)"

lemma is_ascii_Cons [simp]: "is_ascii (c # s) \<longleftrightarrow> byte_of c < 128 \<and> is_ascii s"
  by (auto simp: is_ascii_def)

lemma is_ascii_Nil [simp]: "is_ascii []"
  by (simp add: is_ascii_def)

lemma is_ascii_append [simp]: "is_ascii (s @ t) \<longleftrightarrow> is_ascii s \<and> is_ascii t"
  by (auto simp: is_ascii_def)

lemma utf8_step_ascii: "byte_of c < 128 \<Longrightarrow> utf8_step (c # s) = (1, True)"
  by (simp add: utf8_step_def Let_def safe_get_def)

lemma valid_utf8_ascii: "is_ascii s \<Longrightarrow> valid_utf8 s"
proof (induction s)
  case (Cons c s)
  then show ?case by (simp add: valid_utf8.simps [of "c # s"] utf8_step_ascii)
qed simp

lemma utf8_step_not_ascii: "\<not> byte_of c < 128 \<Longrightarrow> 0 < n \<Longrightarrow> \<not> is_ascii (take n (c # s))"
  by (cases n) auto

text \<open>A lossy conversion that comes out as ASCII text changed nothing.\<close>

lemma from_utf8_lossy_ascii: "is_ascii (from_utf8_lossy s) \<Longrightarrow> from_utf8_lossy s = s"
proof (induction s)
  case (Cons c s)
  have "byte_of c < 128"
  proof (rule ccontr)
    assume big: "\<not> byte_of c < 128"
    obtain n ok where step: "utf8_step (c # s) = (n, ok)" by (cases "utf8_step (c # s)")
    then have "0 < n" using utf8_step_pos [of "c # s"] by simp
    with big have "\<not> is_ascii (take n (c # s))" by (intro utf8_step_not_ascii)
    with Cons.prems step show False
      by (auto simp: from_utf8_lossy.simps [of "c # s"] replacement_character_def split: if_splits)
  qed
  with Cons show ?case
    by (simp add: from_utf8_lossy.simps [of "c # s"] utf8_step_ascii)
qed simp

end
