(* ===== verification/Domain.thy ===== *)
theory Domain
  imports Utf8
begin

text \<open>
  The transport-independent data of \<open>src/domain/identity.rs\<close>, \<open>src/domain/resp.rs\<close> and
  \<open>src/ports/mod.rs\<close>: identities, commands, RESP2 values and the error types of the
  ports, with the texts their \<open>Display\<close> implementations print. A \<open>HashSet\<close> of strings is a
  set, an \<open>Arc\<close> of a value is the value.
\<close>

section \<open>Identities and authentication errors\<close>

record identity =
  subject :: string
  bucket_key :: string
  pool :: string
  read_only :: bool
  is_admin :: bool
  legacy :: bool
  allowed_commands :: "string set option"
  blocked_commands :: "string set"
  allowed_script_sha256 :: "string set"
  key_prefix :: "string option"

datatype jwt_algorithm = Rs256 | Rs384 | Rs512 | Es256 | Es384

record cached_key =
  ck_algorithm :: jwt_algorithm
  ck_material :: bytes

datatype auth_error =
    AuthRejected
  | AuthForbidden string
  | AuthServiceUnavailable string

datatype jwks_error = JwksNotFound | JwksUnavailable string

datatype introspect_error = IntrospectError string

fun auth_error_display :: "auth_error \<Rightarrow> string" where
  "auth_error_display AuthRejected = ''authentication rejected''"
| "auth_error_display (AuthForbidden message) = message"
| "auth_error_display (AuthServiceUnavailable message) = message"

fun jwks_error_display :: "jwks_error \<Rightarrow> string" where
  "jwks_error_display JwksNotFound = ''no matching signing key''"
| "jwks_error_display (JwksUnavailable message) = message"

fun introspect_error_display :: "introspect_error \<Rightarrow> string" where
  "introspect_error_display (IntrospectError message) = message"

section \<open>Commands, replies and execution errors\<close>

record redis_command =
  cmd_name :: string
  cmd_args :: "bytes list"

text \<open>An \<open>i64\<close> payload is an \<open>int\<close>; nothing in the sources computes with it.\<close>

datatype resp_value =
    RespSimple string
  | RespBulk bytes
  | RespInt int
  | RespNil
  | RespArray "resp_value list"

datatype exec_error =
    ExecTransport string
  | ExecTimeout
  | ExecRedis string
  | ExecResponseTooLarge

fun exec_error_display :: "exec_error \<Rightarrow> string" where
  "exec_error_display (ExecTransport message) = message"
| "exec_error_display (ExecRedis message) = message"
| "exec_error_display ExecTimeout = ''Redis command timed out''"
| "exec_error_display ExecResponseTooLarge = ''Redis response is too large''"

datatype acquire_error =
    UnknownPool string
  | AcqOverloaded
  | AcqPoolOpen nat
  | AcqInternal string

text \<open>A single quote, which a string literal cannot end with.\<close>

definition quote :: string where
  "quote = [char_of (39::nat)]"

fun acquire_error_display :: "acquire_error \<Rightarrow> string" where
  "acquire_error_display (UnknownPool p) = ''unknown Redis pool '' @ quote @ p @ quote"
| "acquire_error_display AcqOverloaded = ''Redis pool is overloaded''"
| "acquire_error_display (AcqPoolOpen _) = ''Redis backend is unavailable''"
| "acquire_error_display (AcqInternal message) = message"

datatype pool_readiness_status = Ready | Unavailable string

record pool_readiness =
  pr_pool :: string
  pr_status :: pool_readiness_status

text \<open>The result of one executed command, and its transaction form.\<close>

type_synonym exec_result = "exec_error + resp_value"

section \<open>Nesting depth and traversal of replies\<close>

fun resp_depth :: "resp_value \<Rightarrow> nat" where
  "resp_depth (RespArray vs) = Suc (fold max (map resp_depth vs) 0)"
| "resp_depth _ = 1"

lemma fold_max_le_iff: "fold max xs m \<le> (n::nat) \<longleftrightarrow> m \<le> n \<and> (\<forall>x \<in> set xs. x \<le> n)"
  by (induction xs arbitrary: m) auto

lemma resp_depth_Array_le_iff:
  "resp_depth (RespArray vs) \<le> Suc n \<longleftrightarrow> (\<forall>v \<in> set vs. resp_depth v \<le> n)"
  by (simp add: fold_max_le_iff)

lemma resp_depth_pos: "0 < resp_depth v"
  by (cases v) auto

end
