(* ===== verification/Acl.thy ===== *)
theory Acl
  imports Domain
begin

text \<open>
  The command policy of \<open>src/domain/acl.rs\<close> and the argument normalisation of
  \<open>src/domain/compat.rs\<close>. SHA-256 comes from the \<open>sha2\<close> crate and is a parameter
  (\<open>sha256\<close>, the digest bytes of a script body).

  \<open>acl_permits\<close> is the policy as a conjunction of independent gates;
  \<open>acl_check_refines\<close> shows that the code's sequence of early returns decides it. The
  properties are read off the gates: what no identity can run, what the admin role adds, what a
  read-only token can reach, and that narrowing an identity never admits more.
\<close>

section \<open>The command tables\<close>

definition HARD_DENY :: "string list" where
  "HARD_DENY =
    [''CONFIG'', ''SHUTDOWN'', ''DEBUG'', ''SLAVEOF'', ''REPLICAOF'', ''MIGRATE'', ''MODULE'',
     ''SAVE'', ''BGSAVE'', ''BGREWRITEAOF'', ''LASTSAVE'', ''ACL'', ''CLIENT'', ''CLUSTER'',
     ''LATENCY'', ''MONITOR'', ''PSYNC'', ''SYNC'', ''FAILOVER'', ''RESET'', ''SLOWLOG'',
     ''COMMAND'', ''MEMORY'', ''HELLO'', ''SELECT'', ''SWAPDB'', ''AUTH'', ''QUIT'',
     ''MULTI'', ''EXEC'', ''DISCARD'', ''WATCH'', ''UNWATCH'',
     ''SUBSCRIBE'', ''PSUBSCRIBE'', ''UNSUBSCRIBE'', ''PUNSUBSCRIBE'', ''SSUBSCRIBE'',
     ''SUNSUBSCRIBE'', ''PUBLISH'', ''PUBSUB'',
     ''BLPOP'', ''BRPOP'', ''BLMOVE'', ''BRPOPLPUSH'', ''BLMPOP'', ''BZPOPMIN'', ''BZPOPMAX'',
     ''BZMPOP'', ''WAIT'', ''WAITAOF'', ''SCRIPT'', ''FUNCTION'']"

definition SCRIPTING :: "string list" where
  "SCRIPTING = [''EVAL'', ''EVALSHA'', ''EVALSHA_RO'', ''EVAL_RO'', ''FCALL'', ''FCALL_RO'']"

definition DEFAULT_BLOCK :: "string list" where
  "DEFAULT_BLOCK = [''FLUSHALL'', ''FLUSHDB'', ''KEYS'', ''RANDOMKEY'', ''INFO'', ''DBSIZE'']"

definition READ_COMMANDS :: "string list" where
  "READ_COMMANDS =
    [''GET'', ''MGET'', ''GETRANGE'', ''STRLEN'', ''EXISTS'', ''TYPE'', ''TTL'', ''PTTL'',
     ''EXPIRETIME'', ''PEXPIRETIME'', ''HGET'', ''HMGET'', ''HGETALL'', ''HKEYS'', ''HVALS'',
     ''HLEN'', ''HEXISTS'', ''HSTRLEN'', ''HRANDFIELD'', ''LRANGE'', ''LLEN'', ''LINDEX'',
     ''LPOS'', ''SMEMBERS'', ''SISMEMBER'', ''SMISMEMBER'', ''SCARD'', ''SRANDMEMBER'',
     ''SINTER'', ''SUNION'', ''SDIFF'', ''SINTERCARD'', ''ZRANGE'', ''ZRANGEBYSCORE'',
     ''ZRANGEBYLEX'', ''ZREVRANGE'', ''ZREVRANGEBYSCORE'', ''ZREVRANGEBYLEX'', ''ZSCORE'',
     ''ZMSCORE'', ''ZCARD'', ''ZCOUNT'', ''ZLEXCOUNT'', ''ZRANK'', ''ZREVRANK'', ''ZRANDMEMBER'',
     ''GETBIT'', ''BITCOUNT'', ''BITPOS'', ''BITFIELD_RO'', ''XRANGE'', ''XREVRANGE'', ''XLEN'',
     ''XREAD'', ''XINFO'', ''GEOPOS'', ''GEODIST'', ''GEOHASH'', ''GEOSEARCH'', ''PFCOUNT'',
     ''OBJECT'', ''DUMP'', ''TOUCH'', ''TIME'', ''PING'', ''ECHO'', ''SORT_RO'', ''LCS'',
     ''SUBSTR'']"

section \<open>The check\<close>

datatype acl_error = AclInvalidCommand | AclForbidden string

definition denied :: "string \<Rightarrow> acl_error" where
  "denied name =
     AclForbidden (''NOPERM this token does not have permission to run '' @ quote @ name @ quote)"

text \<open>\<open>{byte:02x}\<close>: two lower-case hexadecimal digits.\<close>

definition hex_digit :: "nat \<Rightarrow> char" where
  "hex_digit n = (if n < 10 then char_of (48 + n) else char_of (87 + n))"

definition hex_byte :: "char \<Rightarrow> string" where
  "hex_byte c = [hex_digit (byte_of c div 16), hex_digit (byte_of c mod 16)]"

definition hex_digest :: "bytes \<Rightarrow> string" where
  "hex_digest bs = concat (map hex_byte bs)"

fun first_arg :: "bytes list \<Rightarrow> bytes option" where
  "first_arg [] = None"
| "first_arg (a # _) = Some a"

definition admin_allow :: "string \<Rightarrow> bytes option \<Rightarrow> bool" where
  "admin_allow name subcommand =
     (let sub = map_option (\<lambda>value. to_ascii_uppercase (from_utf8_lossy value)) subcommand in
      (name = ''CONFIG'' \<and> sub = Some ''GET'')
      \<or> (name = ''CLIENT'' \<and> (sub = Some ''LIST'' \<or> sub = Some ''INFO''))
      \<or> (name = ''SLOWLOG'' \<and> (sub = Some ''GET'' \<or> sub = Some ''LEN''))
      \<or> name = ''INFO''
      \<or> (name = ''COMMAND'' \<and> (sub = Some ''COUNT'' \<or> sub = Some ''INFO'' \<or> sub = Some ''DOCS''))
      \<or> (name = ''LATENCY'' \<and> (sub = Some ''HISTORY'' \<or> sub = Some ''LATEST''))
      \<or> (name = ''MEMORY'' \<and> (sub = Some ''USAGE'' \<or> sub = Some ''STATS'' \<or> sub = Some ''DOCTOR''))
      \<or> (name = ''ACL'' \<and> sub = Some ''WHOAMI''))"

definition check_scripting ::
  "(bytes \<Rightarrow> bytes) \<Rightarrow> identity \<Rightarrow> string \<Rightarrow> redis_command \<Rightarrow> acl_error + unit" where
  "check_scripting sha256 ident name command =
     (if name \<notin> set SCRIPTING then Inr ()
      else if \<not> (name = ''EVAL'' \<or> name = ''EVAL_RO'') \<or> allowed_script_sha256 ident = {}
      then Inl (denied name)
      else (case first_arg (cmd_args command) of
        None \<Rightarrow> Inl (denied name)
      | Some script \<Rightarrow>
          (let digest = hex_digest (sha256 script) in
           if digest \<notin> allowed_script_sha256 ident then Inl (denied name) else Inr ())))"

definition acl_check ::
  "(bytes \<Rightarrow> bytes) \<Rightarrow> identity \<Rightarrow> redis_command \<Rightarrow> acl_error + unit" where
  "acl_check sha256 ident command =
     (if cmd_name command = [] then Inl AclInvalidCommand
      else
       (let name = to_ascii_uppercase (cmd_name command);
            admin_allowed = (is_admin ident \<and> admin_allow name (first_arg (cmd_args command)))
        in
        if name \<in> set HARD_DENY \<and> \<not> admin_allowed then Inl (denied name)
        else (case check_scripting sha256 ident name command of
          Inl e \<Rightarrow> Inl e
        | Inr _ \<Rightarrow>
            if (name = ''XREAD'' \<or> name = ''XREADGROUP'')
               \<and> (\<exists>argument \<in> set (cmd_args command). eq_ignore_ascii_case argument ''BLOCK'')
            then Inl (AclForbidden ''NOPERM blocking XREAD is not allowed'')
            else if key_prefix ident \<noteq> None
               \<and> (name = ''SORT'' \<or> name = ''SORT_RO'')
               \<and> (\<exists>argument \<in> set (cmd_args command).
                    eq_ignore_ascii_case argument ''BY'' \<or> eq_ignore_ascii_case argument ''GET'')
            then Inl (denied name)
            else if name \<in> blocked_commands ident then Inl (denied name)
            else
             (let explicitly_allowed =
                    (case allowed_commands ident of None \<Rightarrow> False | Some commands \<Rightarrow> name \<in> commands)
              in
              if \<not> legacy ident \<and> name \<in> set DEFAULT_BLOCK \<and> \<not> explicitly_allowed \<and> \<not> admin_allowed
              then Inl (denied name)
              else if (case allowed_commands ident of None \<Rightarrow> False | Some commands \<Rightarrow> name \<notin> commands)
              then Inl (denied name)
              else if read_only ident \<and> name \<notin> set READ_COMMANDS then Inl (denied name)
              else Inr ()))))"

section \<open>Argument normalisation\<close>

definition normalize :: "redis_command \<Rightarrow> redis_command" where
  "normalize command =
     (if cmd_name command = ''GEODIST'' \<and> length (cmd_args command) = 4
         \<and> last (cmd_args command) \<in> {''M'', ''KM'', ''FT'', ''MI''}
      then command\<lparr>cmd_args := butlast (cmd_args command)
                     @ [to_ascii_lowercase (last (cmd_args command))]\<rparr>
      else command)"

section \<open>The policy as gates\<close>

text \<open>
  The specification: each gate looks at the identity and the command on its own. \<open>NAME\<close>
  is the upper-case command name.
\<close>

abbreviation upper_name :: "redis_command \<Rightarrow> string" where
  "upper_name command \<equiv> to_ascii_uppercase (cmd_name command)"

definition admin_granted :: "identity \<Rightarrow> redis_command \<Rightarrow> bool" where
  "admin_granted ident command \<longleftrightarrow>
     is_admin ident \<and> admin_allow (upper_name command) (first_arg (cmd_args command))"

definition script_gate :: "(bytes \<Rightarrow> bytes) \<Rightarrow> identity \<Rightarrow> redis_command \<Rightarrow> bool" where
  "script_gate sha256 ident command \<longleftrightarrow>
     (upper_name command \<in> set SCRIPTING \<longrightarrow>
        upper_name command \<in> {''EVAL'', ''EVAL_RO''} \<and>
        (\<exists>script rest. cmd_args command = script # rest
           \<and> hex_digest (sha256 script) \<in> allowed_script_sha256 ident))"

definition argument_gate :: "identity \<Rightarrow> redis_command \<Rightarrow> bool" where
  "argument_gate ident command \<longleftrightarrow>
     (upper_name command \<in> {''XREAD'', ''XREADGROUP''} \<longrightarrow>
        (\<forall>argument \<in> set (cmd_args command). to_ascii_uppercase argument \<noteq> ''BLOCK''))
     \<and> (key_prefix ident \<noteq> None \<and> upper_name command \<in> {''SORT'', ''SORT_RO''} \<longrightarrow>
        (\<forall>argument \<in> set (cmd_args command).
           to_ascii_uppercase argument \<noteq> ''BY'' \<and> to_ascii_uppercase argument \<noteq> ''GET''))"

definition allowlist_gate :: "identity \<Rightarrow> redis_command \<Rightarrow> bool" where
  "allowlist_gate ident command \<longleftrightarrow>
     (\<forall>commands. allowed_commands ident = Some commands \<longrightarrow> upper_name command \<in> commands)"

definition default_gate :: "identity \<Rightarrow> redis_command \<Rightarrow> bool" where
  "default_gate ident command \<longleftrightarrow>
     (upper_name command \<in> set DEFAULT_BLOCK \<longrightarrow>
        legacy ident \<or> admin_granted ident command
        \<or> (\<exists>commands. allowed_commands ident = Some commands \<and> upper_name command \<in> commands))"

definition acl_permits :: "(bytes \<Rightarrow> bytes) \<Rightarrow> identity \<Rightarrow> redis_command \<Rightarrow> bool" where
  "acl_permits sha256 ident command \<longleftrightarrow>
     cmd_name command \<noteq> []
     \<and> (upper_name command \<in> set HARD_DENY \<longrightarrow> admin_granted ident command)
     \<and> script_gate sha256 ident command
     \<and> argument_gate ident command
     \<and> upper_name command \<notin> blocked_commands ident
     \<and> default_gate ident command
     \<and> allowlist_gate ident command
     \<and> (read_only ident \<longrightarrow> upper_name command \<in> set READ_COMMANDS)"

lemmas acl_gate_defs =
  admin_granted_def script_gate_def argument_gate_def allowlist_gate_def default_gate_def

lemma upper_BLOCK [simp]:
  "to_ascii_uppercase ''BLOCK'' = ''BLOCK''" "to_ascii_uppercase ''BY'' = ''BY''"
  "to_ascii_uppercase ''GET'' = ''GET''"
  by (simp_all add: to_ascii_uppercase_def ascii_upper_char_def byte_of_def)

lemma check_scripting_iff:
  "check_scripting sha256 ident (upper_name command) command = Inr ()
     \<longleftrightarrow> script_gate sha256 ident command"
  by (cases "cmd_args command") (auto simp: check_scripting_def script_gate_def Let_def)

lemma check_scripting_error:
  "check_scripting sha256 ident name command = Inl e \<Longrightarrow> e = denied name"
  by (auto simp: check_scripting_def Let_def split: if_splits option.splits)

text \<open>The early returns of the code decide the conjunction of the gates.\<close>

lemma acl_check_permits_iff:
  "acl_check sha256 ident command = Inr () \<longleftrightarrow> acl_permits sha256 ident command"
proof (cases "check_scripting sha256 ident (upper_name command) command")
  case (Inl e)
  then have "\<not> script_gate sha256 ident command"
    using check_scripting_iff [of sha256 ident command] by simp
  with Inl show ?thesis
    by (simp add: acl_check_def acl_permits_def Let_def)
next
  case (Inr u)
  then have "script_gate sha256 ident command"
    using check_scripting_iff [of sha256 ident command] by simp
  with Inr show ?thesis
    by (cases "allowed_commands ident")
      (auto simp: acl_check_def acl_permits_def Let_def admin_granted_def argument_gate_def
        default_gate_def allowlist_gate_def eq_ignore_ascii_case_upper_iff)
qed

text \<open>Which error a rejected command gets.\<close>

lemma acl_check_error:
  assumes "acl_check sha256 ident command = Inl e"
  shows "e = (if cmd_name command = [] then AclInvalidCommand
     else if upper_name command \<in> {''XREAD'', ''XREADGROUP''}
       \<and> (\<exists>argument \<in> set (cmd_args command). to_ascii_uppercase argument = ''BLOCK'')
     then AclForbidden ''NOPERM blocking XREAD is not allowed''
     else denied (upper_name command))"
proof -
  have tables: "''XREAD'' \<notin> set HARD_DENY" "''XREADGROUP'' \<notin> set HARD_DENY"
    "''XREAD'' \<notin> set SCRIPTING" "''XREADGROUP'' \<notin> set SCRIPTING"
    by (simp_all add: HARD_DENY_def SCRIPTING_def)
  show ?thesis
  proof (cases "check_scripting sha256 ident (upper_name command) command")
    case (Inl e')
    then have "e' = denied (upper_name command)" by (rule check_scripting_error)
    moreover have "upper_name command \<in> set SCRIPTING"
      using Inl by (auto simp: check_scripting_def split: if_splits)
    ultimately show ?thesis
      using assms Inl tables by (auto simp: acl_check_def Let_def split: if_splits)
  next
    case (Inr u)
    then show ?thesis
      using assms tables
      by (auto simp: acl_check_def Let_def eq_ignore_ascii_case_upper_iff split: if_splits)
  qed
qed

definition acl_rejection :: "redis_command \<Rightarrow> acl_error" where
  "acl_rejection command =
     (if cmd_name command = [] then AclInvalidCommand
      else if upper_name command \<in> {''XREAD'', ''XREADGROUP''}
        \<and> (\<exists>argument \<in> set (cmd_args command). to_ascii_uppercase argument = ''BLOCK'')
      then AclForbidden ''NOPERM blocking XREAD is not allowed''
      else denied (upper_name command))"

lemma acl_check_eq_policy:
  "acl_check sha256 ident command =
     (if acl_permits sha256 ident command then Inr () else Inl (acl_rejection command))"
proof (cases "acl_check sha256 ident command")
  case (Inl e)
  then have "\<not> acl_permits sha256 ident command"
    using acl_check_permits_iff [of sha256 ident command] by simp
  with Inl acl_check_error [OF Inl] show ?thesis
    by (simp add: acl_rejection_def)
next
  case (Inr u)
  then show ?thesis
    using acl_check_permits_iff [of sha256 ident command] by simp
qed

text \<open>
  C2. The check decides the gate policy, and its error depends on the command alone: an
  empty name is an invalid command, a blocking \<open>XREAD\<close> has a text of its own, and every other
  rejection names the upper-case command.
\<close>

theorem acl_check_refines_policy:
  "acl_check sha256 ident command =
     (if acl_permits sha256 ident command then Inr () else Inl (acl_rejection command))"
  by (rule acl_check_eq_policy)

section \<open>What no identity can run\<close>

text \<open>
  Commands that would change or pin a pooled connection for its next borrower: transaction and
  watch state, the session's protocol version, database and user, subscriptions, and the
  blocking reads. The list is written out independently of \<open>HARD_DENY\<close>.
\<close>

definition connection_state_commands :: "string list" where
  "connection_state_commands =
    [''MULTI'', ''EXEC'', ''DISCARD'', ''WATCH'', ''UNWATCH'', ''HELLO'', ''SELECT'', ''SWAPDB'',
     ''AUTH'', ''QUIT'', ''RESET'', ''MONITOR'', ''SUBSCRIBE'', ''PSUBSCRIBE'', ''SSUBSCRIBE'',
     ''UNSUBSCRIBE'', ''PUNSUBSCRIBE'', ''SUNSUBSCRIBE'',
     ''BLPOP'', ''BRPOP'', ''BLMOVE'', ''BRPOPLPUSH'', ''BLMPOP'', ''BZPOPMIN'', ''BZPOPMAX'',
     ''BZMPOP'', ''WAIT'', ''WAITAOF'']"

definition leaves_connection_clean :: "redis_command \<Rightarrow> bool" where
  "leaves_connection_clean command \<longleftrightarrow>
     upper_name command \<notin> set connection_state_commands
     \<and> (upper_name command \<in> {''XREAD'', ''XREADGROUP''} \<longrightarrow>
          ''BLOCK'' \<notin> to_ascii_uppercase ` set (cmd_args command))"

lemma connection_state_hard_denied:
  assumes "name \<in> set connection_state_commands"
  shows "name \<in> set HARD_DENY \<and> \<not> admin_allow name sub"
proof -
  have "list_all (\<lambda>n. n \<in> set HARD_DENY) connection_state_commands"
    by (simp add: connection_state_commands_def HARD_DENY_def)
  moreover have "list_all (\<lambda>n. n \<notin> {''CONFIG'', ''CLIENT'', ''SLOWLOG'', ''INFO'', ''COMMAND'',
      ''LATENCY'', ''MEMORY'', ''ACL''}) connection_state_commands"
    by (simp add: connection_state_commands_def)
  ultimately show ?thesis
    using assms by (auto simp: list_all_iff admin_allow_def Let_def)
qed

lemma acl_permits_clean:
  assumes "acl_permits sha256 ident command"
  shows "leaves_connection_clean command"
  unfolding leaves_connection_clean_def
proof (intro conjI impI notI)
  assume "upper_name command \<in> set connection_state_commands"
  from connection_state_hard_denied [OF this] assms show False
    by (simp add: acl_permits_def admin_granted_def)
next
  assume xread: "upper_name command \<in> {''XREAD'', ''XREADGROUP''}"
    and "''BLOCK'' \<in> to_ascii_uppercase ` set (cmd_args command)"
  then obtain argument where "argument \<in> set (cmd_args command)" "to_ascii_uppercase argument = ''BLOCK''"
    by (metis imageE)
  moreover have "argument_gate ident command"
    using assms by (simp add: acl_permits_def)
  then have "\<forall>argument \<in> set (cmd_args command). to_ascii_uppercase argument \<noteq> ''BLOCK''"
    unfolding argument_gate_def by (elim conjE) (rule mp [OF _ xread])
  ultimately show False by simp
qed

text \<open>
  C3. Whatever the identity, the admin role included, an accepted command never touches the
  state of the pooled connection it runs on and never blocks it: it is none of the
  transaction, session, subscription or blocking commands, however its name is spelled, and an
  accepted \<open>XREAD\<close> has no \<open>BLOCK\<close> option.
\<close>

theorem acl_accepted_leaves_connection_clean:
  assumes "acl_check sha256 ident command = Inr ()"
  shows "leaves_connection_clean command"
  using assms by (simp add: acl_check_permits_iff acl_permits_clean)

definition sample_identity :: identity where
  "sample_identity =
     \<lparr>subject = ''subject'', bucket_key = ''bucket'', pool = ''pool'', read_only = False,
      is_admin = False, legacy = False, allowed_commands = None, blocked_commands = {},
      allowed_script_sha256 = {}, key_prefix = None\<rparr>"

definition sample_command :: "string \<Rightarrow> bytes list \<Rightarrow> redis_command" where
  "sample_command name args = \<lparr>cmd_name = name, cmd_args = args\<rparr>"

lemmas acl_eval =
  acl_check_def check_scripting_def Let_def sample_identity_def sample_command_def
  to_ascii_uppercase_def to_ascii_lowercase_def ascii_upper_char_def ascii_lower_char_def
  byte_of_def char_of_eq_iff eq_ignore_ascii_case_def
  HARD_DENY_def SCRIPTING_def DEFAULT_BLOCK_def READ_COMMANDS_def

theorem acl_accepted_leaves_connection_clean_witness:
  "acl_check (\<lambda>s. s) sample_identity (sample_command ''xread'' [''STREAMS'', ''key'', ''0'']) = Inr ()
   \<and> leaves_connection_clean (sample_command ''xread'' [''STREAMS'', ''key'', ''0''])"
proof -
  have "acl_check (\<lambda>s. s) sample_identity (sample_command ''xread'' [''STREAMS'', ''key'', ''0'']) = Inr ()"
    by (simp add: acl_eval)
  then show ?thesis
    using acl_accepted_leaves_connection_clean by blast
qed

section \<open>What the admin role adds\<close>

lemma admin_granted_demoted: "\<not> admin_granted (ident\<lparr>is_admin := False\<rparr>) command"
  by (simp add: admin_granted_def)

lemma admin_granted_promoted:
  "admin_granted (ident\<lparr>is_admin := True\<rparr>) command
     \<longleftrightarrow> admin_allow (upper_name command) (first_arg (cmd_args command))"
  by (simp add: admin_granted_def)

text \<open>
  The admin role is exactly the admin allowlist: promoting an identity admits, besides what
  it could already run, only allowlisted name and subcommand pairs, and those still have to
  pass the identity's own blocklist, allowlist and read-only restriction.
\<close>

theorem acl_admin_delta:
  "acl_check sha256 (ident\<lparr>is_admin := True\<rparr>) command = Inr () \<longleftrightarrow>
     acl_check sha256 (ident\<lparr>is_admin := False\<rparr>) command = Inr ()
     \<or> (admin_allow (upper_name command) (first_arg (cmd_args command))
        \<and> upper_name command \<notin> blocked_commands ident
        \<and> allowlist_gate ident command
        \<and> \<not> read_only ident)"
proof -
  have admin_names: "name \<in> {''CONFIG'', ''CLIENT'', ''SLOWLOG'', ''INFO'', ''COMMAND'', ''LATENCY'',
      ''MEMORY'', ''ACL''}" if "admin_allow name sub" for name sub
    using that by (auto simp: admin_allow_def Let_def)
  have tables: "name \<notin> set SCRIPTING \<and> name \<notin> set READ_COMMANDS \<and> name \<noteq> []
      \<and> name \<notin> {''XREAD'', ''XREADGROUP'', ''SORT'', ''SORT_RO''}"
    if "admin_allow name sub" for name sub
    using admin_names [OF that] by (auto simp: SCRIPTING_def READ_COMMANDS_def)
  let ?up = "ident\<lparr>is_admin := True\<rparr>" and ?down = "ident\<lparr>is_admin := False\<rparr>"
  have same: "script_gate sha256 ?up command = script_gate sha256 ?down command"
    "argument_gate ?up command = argument_gate ?down command"
    "allowlist_gate ?up command = allowlist_gate ident command"
    "allowlist_gate ?down command = allowlist_gate ident command"
    by (simp_all add: script_gate_def argument_gate_def allowlist_gate_def)
  show ?thesis
  proof (cases "admin_allow (upper_name command) (first_arg (cmd_args command))")
    case True
    note t = tables [OF True]
    have "script_gate sha256 ?down command" "argument_gate ?down command" "cmd_name command \<noteq> []"
      "default_gate ?up command" "admin_granted ?up command"
      using t True by (auto simp: script_gate_def argument_gate_def default_gate_def admin_granted_def)
    with True t show ?thesis
      unfolding acl_check_permits_iff acl_permits_def same by auto
  next
    case False
    then have "admin_granted ?up command = admin_granted ?down command"
      by (simp add: admin_granted_def)
    with False show ?thesis
      unfolding acl_check_permits_iff acl_permits_def same by (simp add: default_gate_def)
  qed
qed

section \<open>Read-only identities\<close>

text \<open>
  A read-only identity, even one with the admin role and an approved script, runs only
  commands of the read table: never a hard-denied command, never a script, never one of the
  commands of the default block.
\<close>

theorem acl_read_only_confined:
  assumes "read_only ident" and "acl_check sha256 ident command = Inr ()"
  shows "upper_name command \<in> set READ_COMMANDS - set HARD_DENY - set SCRIPTING - set DEFAULT_BLOCK"
proof -
  have disjoint: "list_all (\<lambda>n. n \<notin> set HARD_DENY \<and> n \<notin> set SCRIPTING \<and> n \<notin> set DEFAULT_BLOCK)
      READ_COMMANDS"
    by (simp add: HARD_DENY_def SCRIPTING_def DEFAULT_BLOCK_def READ_COMMANDS_def)
  from assms have "upper_name command \<in> set READ_COMMANDS"
    by (simp add: acl_check_permits_iff acl_permits_def)
  with disjoint show ?thesis by (auto simp: list_all_iff)
qed

theorem acl_read_only_confined_witness:
  "acl_check (\<lambda>s. s) (sample_identity\<lparr>read_only := True, is_admin := True\<rparr>)
     (sample_command ''get'' [''key'']) = Inr ()
   \<and> upper_name (sample_command ''get'' [''key'']) \<in> set READ_COMMANDS - set HARD_DENY"
proof -
  let ?id = "sample_identity\<lparr>read_only := True, is_admin := True\<rparr>"
  have ok: "acl_check (\<lambda>s. s) ?id (sample_command ''get'' [''key'']) = Inr ()"
    by (simp add: acl_eval)
  moreover have "read_only ?id" by simp
  ultimately show ?thesis
    using acl_read_only_confined by blast
qed

section \<open>Attenuation\<close>

text \<open>
  One identity is at most as powerful as another when every restriction is at least as tight.
  Two allowlists are compared only when both are present or both absent: an allowlist also
  lifts the default block, so adding one to an identity that had none is no attenuation.
\<close>

definition attenuates :: "identity \<Rightarrow> identity \<Rightarrow> bool" where
  "attenuates weak strong \<longleftrightarrow>
     (is_admin weak \<longrightarrow> is_admin strong)
     \<and> (legacy weak \<longrightarrow> legacy strong)
     \<and> (read_only strong \<longrightarrow> read_only weak)
     \<and> rel_option (\<subseteq>) (allowed_commands weak) (allowed_commands strong)
     \<and> blocked_commands strong \<subseteq> blocked_commands weak
     \<and> allowed_script_sha256 weak \<subseteq> allowed_script_sha256 strong
     \<and> (key_prefix weak = None \<longrightarrow> key_prefix strong = None)"

lemma attenuates_gates:
  assumes "attenuates weak strong"
  shows "admin_granted weak command \<Longrightarrow> admin_granted strong command"
    and "script_gate sha256 weak command \<Longrightarrow> script_gate sha256 strong command"
    and "argument_gate weak command \<Longrightarrow> argument_gate strong command"
    and "allowlist_gate weak command \<Longrightarrow> allowlist_gate strong command"
    and "default_gate weak command \<Longrightarrow> default_gate strong command"
proof -
  have lists: "\<exists>B. allowed_commands strong = Some B \<and> A \<subseteq> B" if "allowed_commands weak = Some A" for A
    using assms that by (auto simp: attenuates_def option_rel_Some1)
  have none: "allowed_commands strong = None" if "allowed_commands weak = None"
    using assms that by (simp add: attenuates_def)
  show adm: "admin_granted weak command \<Longrightarrow> admin_granted strong command"
    using assms by (simp add: attenuates_def admin_granted_def)
  show "script_gate sha256 weak command \<Longrightarrow> script_gate sha256 strong command"
    using assms unfolding attenuates_def script_gate_def by blast
  show "argument_gate strong command" if "argument_gate weak command"
  proof (cases "key_prefix strong = None")
    case True
    with that show ?thesis by (simp add: argument_gate_def)
  next
    case False
    with assms have "key_prefix weak \<noteq> None" by (auto simp: attenuates_def)
    with False have "argument_gate strong command = argument_gate weak command"
      by (simp add: argument_gate_def)
    with that show ?thesis by simp
  qed
  show "allowlist_gate weak command \<Longrightarrow> allowlist_gate strong command"
    using lists none unfolding allowlist_gate_def by (cases "allowed_commands weak") auto
  show "default_gate weak command \<Longrightarrow> default_gate strong command"
    using lists adm assms unfolding default_gate_def attenuates_def by blast
qed

text \<open>
  C29. Narrowing an identity never admits a command: whatever the attenuated identity may run, the
  original may run too.
\<close>

theorem acl_attenuation_monotone:
  assumes "attenuates weak strong" and "acl_check sha256 weak command = Inr ()"
  shows "acl_check sha256 strong command = Inr ()"
proof -
  have "upper_name command \<in> set HARD_DENY \<Longrightarrow> admin_granted strong command"
    "upper_name command \<notin> blocked_commands strong"
    "read_only strong \<Longrightarrow> upper_name command \<in> set READ_COMMANDS"
    using assms attenuates_gates(1) [OF assms(1), of command]
    by (auto simp: acl_check_permits_iff acl_permits_def attenuates_def)
  with assms attenuates_gates [OF assms(1)] show ?thesis
    by (simp add: acl_check_permits_iff acl_permits_def)
qed

theorem acl_attenuation_monotone_witness:
  "attenuates (sample_identity\<lparr>read_only := True, blocked_commands := {''SET''}\<rparr>) sample_identity
   \<and> acl_check (\<lambda>s. s) sample_identity (sample_command ''GET'' [''k'']) = Inr ()"
proof -
  let ?weak = "sample_identity\<lparr>read_only := True, blocked_commands := {''SET''}\<rparr>"
  have a: "attenuates ?weak sample_identity"
    by (simp add: attenuates_def sample_identity_def)
  have c: "acl_check (\<lambda>s. s) ?weak (sample_command ''GET'' [''k'']) = Inr ()"
    by (simp add: acl_eval)
  from a acl_attenuation_monotone [OF a c] show ?thesis by simp
qed

section \<open>Normalisation and the policy\<close>

lemma normalize_name [simp]: "cmd_name (normalize command) = cmd_name command"
  by (simp add: normalize_def)

lemma normalize_length [simp]: "length (cmd_args (normalize command)) = length (cmd_args command)"
  by (simp add: normalize_def)

lemma normalize_first_arg [simp]:
  "first_arg (cmd_args (normalize command)) = first_arg (cmd_args command)"
proof (cases "cmd_args command")
  case (Cons a as)
  then show ?thesis
    by (cases as) (auto simp: normalize_def)
qed (simp add: normalize_def)

lemma normalize_id_unless_geodist:
  "cmd_name command \<noteq> ''GEODIST'' \<Longrightarrow> normalize command = command"
  by (simp add: normalize_def)

text \<open>
  The command that reaches Redis is the one the policy judged: normalisation changes neither
  the verdict nor the error of the check, and doing it twice is doing it once.
\<close>

theorem normalize_preserves_verdict:
  "acl_check sha256 ident (normalize command) = acl_check sha256 ident command
   \<and> normalize (normalize command) = normalize command"
proof (cases "cmd_name command = ''GEODIST''")
  case True
  have up: "to_ascii_uppercase ''GEODIST'' = ''GEODIST''"
    by (simp add: to_ascii_uppercase_def ascii_upper_char_def byte_of_def)
  have "''GEODIST'' \<notin> set SCRIPTING"
    by (simp add: SCRIPTING_def)
  with True have "acl_permits sha256 ident (normalize command) = acl_permits sha256 ident command"
    by (simp add: acl_permits_def acl_gate_defs up)
  then have "acl_check sha256 ident (normalize command) = acl_check sha256 ident command"
    by (simp add: acl_check_eq_policy acl_rejection_def True up)
  moreover have "normalize (normalize command) = normalize command"
    by (auto simp: normalize_def to_ascii_lowercase_def ascii_lower_char_def byte_of_def)
  ultimately show ?thesis ..
qed (simp add: normalize_id_unless_geodist)

end
