(* ===== verification/Convert.thy ===== *)
theory Convert
  imports Domain Utf8 "HOL-Library.List_Lexorder" "HOL-Library.Char_ord"
begin

text \<open>
  The conversions of \<open>src/domain/convert.rs\<close>: JSON argument to Redis bytes, the response budget,
  and the rendering of a RESP2 reply as JSON.

  \<open>serde_json\<close> and \<open>base64\<close> are parameters. Of a JSON document the sources see a
  \<open>Value\<close>, whose floating-point numbers are an opaque type \<open>'f\<close>; \<open>serde\<close> holds what the
  sources call: the text of a float, whether it is finite, the text of a value, and whether the
  parser can skip an element. An object is a \<open>serde_json::Map\<close>, a \<open>BTreeMap\<close>. The
  properties show that the budget is exact: it is spent to the byte for what is written, and
  the call refuses exactly the replies that do not fit or nest too deep; and that rendering
  loses no byte in base64 mode.
\<close>

section \<open>JSON values\<close>

datatype 'f json_number = NumU64 nat | NumI64 int | NumF64 'f

datatype 'f json =
    JNull
  | JBool bool
  | JNumber "'f json_number"
  | JString bytes
  | JArray "'f json list"
  | JObject "(bytes, 'f json) btree_map"

record 'f serde =
  sj_finite :: "'f \<Rightarrow> bool"
  sj_f64_text :: "'f \<Rightarrow> string"
  sj_to_string :: "'f json \<Rightarrow> bytes option"

text \<open>\<open>Display\<close> for the integer types: decimal digits, a minus sign for negative numbers.\<close>

fun nat_text :: "nat \<Rightarrow> string" where
  "nat_text n = (if n < 10 then [char_of (48 + n)] else nat_text (n div 10) @ [char_of (48 + n mod 10)])"

declare nat_text.simps [simp del]

definition int_text :: "int \<Rightarrow> string" where
  "int_text i = (if i < 0 then CHR ''-'' # nat_text (nat (- i)) else nat_text (nat i))"

definition number_from_i64 :: "int \<Rightarrow> 'f json_number" where
  "number_from_i64 i = (if i < 0 then NumI64 i else NumU64 (nat i))"

definition number_from_f64 :: "'f serde \<Rightarrow> 'f \<Rightarrow> 'f json_number option" where
  "number_from_f64 sj x = (if sj_finite sj x then Some (NumF64 x) else None)"

fun number_to_string :: "'f serde \<Rightarrow> 'f json_number \<Rightarrow> string" where
  "number_to_string sj (NumU64 n) = nat_text n"
| "number_to_string sj (NumI64 i) = int_text i"
| "number_to_string sj (NumF64 x) = sj_f64_text sj x"

section \<open>Arguments\<close>

datatype encoding = EncNone | EncBase64

datatype conversion_error = ConvInvalidCommand | ConvResponseTooLarge

fun json_value_to_bytes :: "'f serde \<Rightarrow> 'f json \<Rightarrow> conversion_error + bytes" where
  "json_value_to_bytes sj (JString s) = Inr s"
| "json_value_to_bytes sj (JNumber n) = Inr (number_to_string sj n)"
| "json_value_to_bytes sj (JBool b) = Inr (if b then ''true'' else ''false'')"
| "json_value_to_bytes sj JNull = Inr ''null''"
| "json_value_to_bytes sj v =
     (case sj_to_string sj v of Some text \<Rightarrow> Inr text | None \<Rightarrow> Inl ConvInvalidCommand)"

section \<open>The response budget\<close>

definition NODE_COST :: nat where
  "NODE_COST = 8"

definition MAX_DEPTH :: nat where
  "MAX_DEPTH = 64"

definition base64_encoded_len :: "nat \<Rightarrow> conversion_error + nat" where
  "base64_encoded_len input_len =
     (case Option.bind (checked_add input_len 2) (\<lambda>length. checked_mul (length div 3) 4) of
        Some n \<Rightarrow> Inr n
      | None \<Rightarrow> Inl ConvResponseTooLarge)"

text \<open>A call takes the budget and gives its result and what is left; on an error the budget keeps what was left.\<close>

definition charge :: "nat \<Rightarrow> nat \<Rightarrow> (conversion_error + unit) \<times> nat" where
  "charge amount budget =
     (case checked_sub budget amount of
        Some left \<Rightarrow> (Inr (), left)
      | None \<Rightarrow> (Inl ConvResponseTooLarge, budget))"

definition charge_encoded :: "nat \<Rightarrow> nat \<Rightarrow> (conversion_error + unit) \<times> nat" where
  "charge_encoded input_len budget =
     (case base64_encoded_len input_len of Inl e \<Rightarrow> (Inl e, budget) | Inr n \<Rightarrow> charge n budget)"

fun charge_within_depth ::
    "encoding \<Rightarrow> nat \<Rightarrow> resp_value \<Rightarrow> nat \<Rightarrow> (conversion_error + unit) \<times> nat"
  and charge_values ::
    "encoding \<Rightarrow> nat \<Rightarrow> resp_value list \<Rightarrow> nat \<Rightarrow> (conversion_error + unit) \<times> nat"
where
  "charge_within_depth enc depth v budget =
     (case checked_sub depth 1 of
        None \<Rightarrow> (Inl ConvResponseTooLarge, budget)
      | Some depth_remaining \<Rightarrow>
          (case charge NODE_COST budget of
             (Inl e, budget1) \<Rightarrow> (Inl e, budget1)
           | (Inr _, budget1) \<Rightarrow>
               (case v of
                  RespSimple s \<Rightarrow>
                    if enc = EncBase64 \<and> s \<noteq> ''OK'' then charge_encoded (length s) budget1
                    else charge (length s) budget1
                | RespBulk b \<Rightarrow>
                    if enc = EncBase64 then charge_encoded (length b) budget1
                    else charge (length (from_utf8_lossy b)) budget1
                | RespInt _ \<Rightarrow> (Inr (), budget1)
                | RespNil \<Rightarrow> (Inr (), budget1)
                | RespArray vs \<Rightarrow> charge_values enc depth_remaining vs budget1)))"
| "charge_values enc depth [] budget = (Inr (), budget)"
| "charge_values enc depth (v # vs) budget =
     (case charge_within_depth enc depth v budget of
        (Inl e, budget1) \<Rightarrow> (Inl e, budget1)
      | (Inr _, budget1) \<Rightarrow> charge_values enc depth vs budget1)"

declare charge_within_depth.simps [simp del]

definition charge_response_budget :: "encoding \<Rightarrow> resp_value \<Rightarrow> nat \<Rightarrow> (conversion_error + unit) \<times> nat" where
  "charge_response_budget enc v budget = charge_within_depth enc MAX_DEPTH v budget"

section \<open>Rendering\<close>

fun response_json :: "(bytes \<Rightarrow> bytes) \<Rightarrow> encoding \<Rightarrow> resp_value \<Rightarrow> 'f json" where
  "response_json encode enc (RespSimple s) =
     JString (if enc = EncBase64 \<and> s \<noteq> ''OK'' then encode s else s)"
| "response_json encode enc (RespBulk b) =
     JString (if enc = EncBase64 then encode b else from_utf8_lossy b)"
| "response_json encode enc (RespInt i) = JNumber (number_from_i64 i)"
| "response_json encode enc RespNil = JNull"
| "response_json encode enc (RespArray vs) = JArray (map (response_json encode enc) vs)"

section \<open>The budget is exact\<close>

text \<open>What a reply costs, as a sum over its nodes.\<close>

definition base64_len :: "nat \<Rightarrow> nat" where
  "base64_len n = (n + 2) div 3 * 4"

fun resp_cost :: "encoding \<Rightarrow> resp_value \<Rightarrow> nat" where
  "resp_cost enc (RespSimple s) =
     NODE_COST + (if enc = EncBase64 \<and> s \<noteq> ''OK'' then base64_len (length s) else length s)"
| "resp_cost enc (RespBulk b) =
     NODE_COST + (if enc = EncBase64 then base64_len (length b) else length (from_utf8_lossy b))"
| "resp_cost enc (RespInt i) = NODE_COST"
| "resp_cost enc RespNil = NODE_COST"
| "resp_cost enc (RespArray vs) = NODE_COST + sum_list (map (resp_cost enc) vs)"

text \<open>No Rust allocation is longer than \<open>isize::MAX\<close> bytes.\<close>

definition isize_max :: nat where
  "isize_max = 2 ^ 63 - 1"

fun fits_memory :: "resp_value \<Rightarrow> bool" where
  "fits_memory (RespSimple s) = (length s \<le> isize_max)"
| "fits_memory (RespBulk b) = (length b \<le> isize_max)"
| "fits_memory (RespArray vs) = list_all fits_memory vs"
| "fits_memory _ = True"

definition charged :: "bool \<Rightarrow> nat \<Rightarrow> nat \<Rightarrow> (conversion_error + unit) \<times> nat \<Rightarrow> bool" where
  "charged deep cost budget r \<longleftrightarrow>
     (case r of
        (Inr _, left) \<Rightarrow> \<not> deep \<and> left + cost = budget
      | (Inl e, left) \<Rightarrow> e = ConvResponseTooLarge \<and> (deep \<or> budget < cost))"

lemma charge_charged: "charged False n budget (charge n budget)"
  by (auto simp: charged_def charge_def checked_sub_def)

lemma charge_encoded_eq:
  assumes "n \<le> isize_max"
  shows "charge_encoded n budget = charge (base64_len n) budget"
proof -
  have "(n + 2) div 3 * 3 \<le> n + 2" by simp
  with assms have "(n + 2) div 3 * 4 \<le> u64_max" by (simp add: isize_max_def u64_max_def)
  moreover have "n + 2 \<le> u64_max" using assms by (simp add: isize_max_def u64_max_def)
  ultimately show ?thesis
    by (simp add: charge_encoded_def base64_encoded_len_def checked_add_def checked_mul_def base64_len_def)
qed

lemma charged_node:
  assumes "charge NODE_COST budget = (r, left)"
  shows "r = Inl ConvResponseTooLarge \<and> budget < NODE_COST \<or> r = Inr () \<and> left + NODE_COST = budget"
  using assms by (auto simp: charge_def checked_sub_def split: if_splits)

lemma charged_leaf:
  assumes "charge NODE_COST budget = (Inr (), left)" and "charged deep cost left r"
  shows "charged deep (NODE_COST + cost) budget r"
proof -
  have "budget = left + NODE_COST" using charged_node [OF assms(1)] by auto
  with assms(2) show ?thesis
    by (cases r; cases "fst r") (auto simp: charged_def)
qed

lemma charge_within_depth_charged:
  "fits_memory v \<Longrightarrow> charged (depth < resp_depth v) (resp_cost enc v) budget (charge_within_depth enc depth v budget)"
  "list_all fits_memory vs \<Longrightarrow>
     charged (\<exists>v \<in> set vs. depth < resp_depth v) (sum_list (map (resp_cost enc) vs)) budget
       (charge_values enc depth vs budget)"
proof (induction enc depth v budget and enc depth vs budget rule: charge_within_depth_charge_values.induct)
  case (1 enc depth v budget)
  show ?case
  proof (cases depth)
    case 0
    then show ?thesis
      using resp_depth_pos [of v] by (simp add: charge_within_depth.simps charged_def)
  next
    case (Suc d)
    obtain r left where node: "charge NODE_COST budget = (r, left)" by fastforce
    show ?thesis
    proof (cases r)
      case (Inl e)
      then show ?thesis
        using charged_node [OF node] node Suc
        by (cases v) (auto simp: charge_within_depth.simps charged_def)
    next
      case (Inr u)
      then have node': "charge NODE_COST budget = (Inr (), left)" using node by simp
      show ?thesis
      proof (cases v)
        case (RespArray vs)
        have "charged (\<exists>v \<in> set vs. d < resp_depth v) (sum_list (map (resp_cost enc) vs)) left
            (charge_values enc d vs left)"
          by (rule 1 (1) [of d r left u]) (use Suc Inr RespArray "1.prems" node in auto)
        then show ?thesis
          using charged_leaf [OF node'] resp_depth_Array_le_iff [of vs d]
          by (simp add: charge_within_depth.simps Suc node' RespArray not_le [symmetric] not_less_eq_eq
              del: resp_depth.simps)
      qed (use charged_leaf [OF node' charge_charged] charged_node [OF node'] "1.prems"
           in \<open>simp_all add: charge_within_depth.simps Suc node' charge_encoded_eq charged_def [of _ _ _ "(Inr (), _)"]\<close>)
    qed
  qed
next
  case (3 enc depth v vs budget)
  then show ?case
    by (cases "charge_within_depth enc depth v budget"; cases "fst (charge_within_depth enc depth v budget)")
      (auto simp: charged_def split: sum.splits prod.splits)
qed (auto simp: charged_def)

text \<open>
  C21. \<open>charge_response_budget\<close> accepts a reply exactly if it nests at most 64 deep and its cost
  (eight per node, the written length of every string) is within the budget; it then leaves
  the budget less the cost, and otherwise it reports \<open>ResponseTooLarge\<close>. No reply in memory
  makes the length computation of base64 overflow.
\<close>

theorem charge_response_budget_exact:
  assumes "fits_memory v"
  shows "case charge_response_budget enc v budget of
      (Inr _, left) \<Rightarrow> resp_depth v \<le> 64 \<and> left + resp_cost enc v = budget
    | (Inl e, _) \<Rightarrow> e = ConvResponseTooLarge \<and> (64 < resp_depth v \<or> budget < resp_cost enc v)"
  using charge_within_depth_charged(1) [OF assms, of MAX_DEPTH enc budget]
  by (auto simp: charge_response_budget_def charged_def MAX_DEPTH_def not_less split: prod.splits sum.splits)

theorem charge_response_budget_exact_witness:
  "\<exists>left. charge_response_budget EncBase64 (RespArray [RespSimple ''OK'', RespBulk ''abcd'']) 40 = (Inr (), left)
     \<and> left + resp_cost EncBase64 (RespArray [RespSimple ''OK'', RespBulk ''abcd'']) = 40"
proof -
  let ?v = "RespArray [RespSimple ''OK'', RespBulk ''abcd'']"
  have "fits_memory ?v" by (simp add: isize_max_def)
  note C = charge_response_budget_exact [OF this, where enc = EncBase64 and budget = 40]
  have "resp_depth ?v \<le> 64" "resp_cost EncBase64 ?v \<le> 40"
    by (simp_all add: NODE_COST_def base64_len_def)
  with C show ?thesis
    by (cases "charge_response_budget EncBase64 ?v 40"; cases "fst (charge_response_budget EncBase64 ?v 40)")
      auto
qed

section \<open>What is written\<close>

fun json_nodes :: "'f json \<Rightarrow> nat" where
  "json_nodes (JArray vs) = Suc (sum_list (map json_nodes vs))"
| "json_nodes _ = 1"

fun string_bytes :: "'f json \<Rightarrow> nat" where
  "string_bytes (JString s) = length s"
| "string_bytes (JArray vs) = sum_list (map string_bytes vs)"
| "string_bytes _ = 0"

text \<open>What the sources rely on of the standard base64 alphabet: padded output, four characters for three bytes.\<close>

definition base64_padded :: "(bytes \<Rightarrow> bytes) \<Rightarrow> bool" where
  "base64_padded encode \<longleftrightarrow> (\<forall>b. length (encode b) = base64_len (length b))"

lemma resp_cost_written:
  assumes "base64_padded encode"
  shows "resp_cost enc v = NODE_COST * json_nodes (response_json encode enc v :: 'f json)
      + string_bytes (response_json encode enc v :: 'f json)"
proof (induction v)
  case (RespArray vs)
  have "sum_list (map (resp_cost enc) vs) =
      sum_list (map (\<lambda>v. NODE_COST * json_nodes (response_json encode enc v :: 'f json)
        + string_bytes (response_json encode enc v :: 'f json)) vs)"
    using RespArray.IH by (intro arg_cong [of _ _ sum_list] map_cong) auto
  then show ?case by (simp add: sum_list_addf sum_list_const_mult comp_def)
qed (use assms in \<open>auto simp: base64_padded_def\<close>)

text \<open>
  C20. The budget is charged for what is written: for an accepted reply, what is left, eight per
  JSON node of the rendered response and the bytes of its strings (before JSON escaping) add up
  to the budget. Hence the strings of a response never exceed it.
\<close>

theorem response_within_budget:
  assumes "base64_padded encode" and "fits_memory v"
    and "charge_response_budget enc v budget = (Inr (), left)"
  shows "left + NODE_COST * json_nodes (response_json encode enc v :: 'f json)
      + string_bytes (response_json encode enc v :: 'f json) = budget"
  using charge_within_depth_charged(1) [OF assms(2), of MAX_DEPTH enc budget] assms(3)
    resp_cost_written [OF assms(1), of enc v, where 'f = 'f]
  by (simp add: charge_response_budget_def charged_def)

theorem response_within_budget_witness:
  "\<exists>left. charge_response_budget EncBase64 (RespBulk ''abcd'') 40 = (Inr (), left) \<and>
     left + NODE_COST * json_nodes (response_json (\<lambda>b. replicate (base64_len (length b)) CHR ''A'') EncBase64
        (RespBulk ''abcd'') :: unit json)
      + string_bytes (response_json (\<lambda>b. replicate (base64_len (length b)) CHR ''A'') EncBase64
        (RespBulk ''abcd'') :: unit json) = 40"
proof -
  have pad: "base64_padded (\<lambda>b. replicate (base64_len (length b)) CHR ''A'')" by (simp add: base64_padded_def)
  have fits: "fits_memory (RespBulk ''abcd'')" by (simp add: isize_max_def)
  have "charge_response_budget EncBase64 (RespBulk ''abcd'') 40 = (Inr (), 24)"
    by (simp add: charge_response_budget_def charge_within_depth.simps MAX_DEPTH_def NODE_COST_def charge_def
        checked_sub_def charge_encoded_def base64_encoded_len_def checked_add_def checked_mul_def u64_max_def)
  with response_within_budget [OF pad fits this, where 'f = unit] show ?thesis by blast
qed

section \<open>Base64 mode loses nothing\<close>

fun read_back :: "(bytes \<Rightarrow> bytes) \<Rightarrow> 'f json \<Rightarrow> resp_value" where
  "read_back decode (JString s) = (if s = ''OK'' then RespSimple s else RespBulk (decode s))"
| "read_back decode (JNumber (NumU64 n)) = RespInt (int n)"
| "read_back decode (JNumber (NumI64 i)) = RespInt i"
| "read_back decode (JArray vs) = RespArray (map (read_back decode) vs)"
| "read_back decode _ = RespNil"

text \<open>A client cannot tell a simple string from a bulk string, \<open>OK\<close> apart.\<close>

fun as_client_sees :: "resp_value \<Rightarrow> resp_value" where
  "as_client_sees (RespSimple s) = (if s = ''OK'' then RespSimple s else RespBulk s)"
| "as_client_sees (RespArray vs) = RespArray (map as_client_sees vs)"
| "as_client_sees v = v"

lemma encode_not_OK: "base64_padded encode \<Longrightarrow> encode b \<noteq> ''OK''"
proof
  assume pad: "base64_padded encode" and "encode b = ''OK''"
  then have "base64_len (length b) = 2" by (metis base64_padded_def length_Cons list.size(3) numeral_2_eq_2)
  then show False by (simp add: base64_len_def)
qed

text \<open>
  C22. In base64 mode a response determines the reply it was rendered from, whatever bytes the
  reply holds: decoding every string other than a bare \<open>OK\<close> gives the reply back, up to the
  difference between simple and bulk strings. A bare \<open>OK\<close> is never the encoding of data.
\<close>

theorem base64_response_roundtrip:
  assumes "base64_padded encode" and "\<forall>b. decode (encode b) = b"
  shows "read_back decode (response_json encode EncBase64 v :: 'f json) = as_client_sees v"
  by (induction v) (auto simp: assms encode_not_OK number_from_i64_def)

text \<open>A concrete reversible encoding with the lengths of base64: groups of three bytes and their count.\<close>

fun pack :: "bytes \<Rightarrow> bytes" where
  "pack (a # b # c # s) = a # b # c # char_of (3::nat) # pack s"
| "pack [a, b] = [a, b, b, char_of (2::nat)]"
| "pack [a] = [a, a, a, char_of (1::nat)]"
| "pack [] = []"

fun unpack :: "bytes \<Rightarrow> bytes" where
  "unpack (a # b # c # n # s) = take (byte_of n) [a, b, c] @ unpack s"
| "unpack _ = []"

lemma unpack_pack: "unpack (pack b) = b"
  by (induction b rule: pack.induct) simp_all

lemma pack_padded: "base64_padded pack"
proof -
  have "base64_len (Suc (Suc (Suc n))) = 4 + base64_len n" for n
  proof -
    have "Suc (Suc (Suc n)) + 2 = (n + 2) + 3" by simp
    then show ?thesis by (simp only: base64_len_def div_add_self2 zero_neq_numeral) simp
  qed
  then have "length (pack b) = base64_len (length b)" for b
    by (induction b rule: pack.induct) (simp_all add: base64_len_def)
  then show ?thesis by (simp add: base64_padded_def)
qed

theorem base64_response_roundtrip_witness:
  "read_back unpack (response_json pack EncBase64 (RespArray [RespSimple ''OK'', RespBulk [char_of (255::nat)]]) :: unit json)
     = RespArray [RespSimple ''OK'', RespBulk [char_of (255::nat)]]"
  using base64_response_roundtrip [OF pack_padded, of unpack
      "RespArray [RespSimple ''OK'', RespBulk [char_of (255::nat)]]", where 'f = unit]
  by (simp add: unpack_pack del: response_json.simps read_back.simps pack.simps unpack.simps)

end
