(* ===== verification/App_Error.thy ===== *)
theory App_Error
  imports Acl Convert
begin

text \<open>
  The request errors of \<open>src/error.rs\<close> and the responses they become. A response is its status,
  its JSON body and its \<open>Retry-After\<close> header. \<open>HeaderValue::from_str\<close> of the \<open>http\<close> crate is
  the parameter \<open>header_value\<close>. The property shows that a response never reveals why an internal
  failure or a backend outage happened, and announces a retry delay exactly where it has one.
\<close>

datatype app_error =
    Unauthorized
  | Forbidden string
  | BadRequest string
  | RedisError string
  | RateLimited nat
  | AuthServiceDown
  | Overloaded nat
  | PoolOpen nat string
  | ResponseTooLarge
  | RequestBodyTimeout
  | Internal string

fun from_conversion_error :: "conversion_error \<Rightarrow> app_error" where
  "from_conversion_error ConvInvalidCommand = BadRequest ''Invalid command''"
| "from_conversion_error ConvResponseTooLarge = ResponseTooLarge"

fun from_acl_error :: "acl_error \<Rightarrow> app_error" where
  "from_acl_error AclInvalidCommand = BadRequest ''Invalid command''"
| "from_acl_error (AclForbidden message) = Forbidden message"

record 'f http_response =
  rs_status :: nat
  rs_body :: "'f json"
  rs_retry_after :: "bytes option"

text \<open>A metric counter: its name, the value of its label, and the increment.\<close>

type_synonym metric = "string \<times> string \<times> nat"

definition error_metrics :: "app_error \<Rightarrow> metric list" where
  "error_metrics e = (if e = ResponseTooLarge then [(''srh_shed_total'', ''response_too_large'', 1)] else [])"

fun error_parts :: "app_error \<Rightarrow> nat \<times> string \<times> nat option" where
  "error_parts Unauthorized = (401, ''Unauthorized'', None)"
| "error_parts (Forbidden message) = (403, message, None)"
| "error_parts (BadRequest message) = (400, message, None)"
| "error_parts (RedisError message) = (400, message, None)"
| "error_parts (RateLimited secs) = (429, ''Rate limit exceeded'', Some secs)"
| "error_parts AuthServiceDown = (503, ''Authentication service unavailable'', None)"
| "error_parts (Overloaded secs) = (503, ''Server overloaded'', Some secs)"
| "error_parts (PoolOpen secs reason) = (503, ''Backend unavailable'', Some secs)"
| "error_parts ResponseTooLarge = (502, ''Response too large'', None)"
| "error_parts RequestBodyTimeout = (408, ''Request body timeout'', None)"
| "error_parts (Internal e) = (500, ''Internal server error'', None)"

definition error_body :: "string \<Rightarrow> 'f json" where
  "error_body message = JObject [(''error'', JString message)]"

definition into_response :: "(string \<Rightarrow> bytes option) \<Rightarrow> app_error \<Rightarrow> 'f http_response" where
  "into_response header_value e =
     (case error_parts e of
        (status, message, retry_after) \<Rightarrow>
          \<lparr>rs_status = status, rs_body = error_body message,
           rs_retry_after = Option.bind retry_after (\<lambda>secs. header_value (nat_text secs))\<rparr>)"

section \<open>What a response reveals\<close>

text \<open>The part of an error that the client may learn.\<close>

fun disclosed :: "app_error \<Rightarrow> app_error" where
  "disclosed (PoolOpen secs reason) = PoolOpen secs ''''"
| "disclosed (Internal e) = Internal ''''"
| "disclosed (RedisError message) = BadRequest message"
| "disclosed e = e"

text \<open>What the code relies on of \<open>HeaderValue::from_str\<close>: text of decimal digits is a valid header value.\<close>

definition header_accepts_digits :: "(string \<Rightarrow> bytes option) \<Rightarrow> bool" where
  "header_accepts_digits header_value \<longleftrightarrow>
     (\<forall>s. (\<forall>c \<in> set s. 48 \<le> byte_of c \<and> byte_of c \<le> 57) \<longrightarrow> header_value s = Some s)"

lemma nat_text_digits: "c \<in> set (nat_text n) \<Longrightarrow> 48 \<le> byte_of c \<and> byte_of c \<le> 57"
proof (induction n rule: nat_text.induct)
  case (1 n)
  have "n mod 10 < 10" by simp
  then have *: "48 \<le> byte_of (char_of (48 + n mod 10)) \<and> byte_of (char_of (48 + n mod 10)) \<le> 57"
    by (subst (1 2) byte_of_char_of) linarith+
  show ?case
  proof (cases "n < 10")
    case True
    with 1 have "c = char_of (48 + n)" by (simp add: nat_text.simps [of n])
    with True show ?thesis by simp
  next
    case False
    with 1 * show ?thesis by (auto simp: nat_text.simps [of n])
  qed
qed

lemma retry_after_text: "header_accepts_digits h \<Longrightarrow> h (nat_text n) = Some (nat_text n)"
  using nat_text_digits by (auto simp: header_accepts_digits_def)

lemma into_response_disclosed: "disclosed e = disclosed e' \<Longrightarrow> into_response h e = into_response h e'"
  by (cases e; cases e') (auto simp: into_response_def)

text \<open>
  C35. Error responses. The status is one of eight error codes; two errors that differ only in an
  internal message or in the reason of an outage get the same response; and a \<open>Retry-After\<close>
  header is sent exactly with 429 and with the 503 answers that know a delay, carrying the delay in decimal.
\<close>

theorem error_response_discloses_only:
  assumes "header_accepts_digits header_value"
  shows "rs_status (into_response header_value e :: 'f http_response) \<in> {400, 401, 403, 408, 429, 500, 502, 503}
    \<and> (disclosed e = disclosed e' \<longrightarrow>
         (into_response header_value e :: 'f http_response) = into_response header_value e')
    \<and> rs_retry_after (into_response header_value e :: 'f http_response) =
        (case e of RateLimited secs \<Rightarrow> Some (nat_text secs) | Overloaded secs \<Rightarrow> Some (nat_text secs)
         | PoolOpen secs _ \<Rightarrow> Some (nat_text secs) | _ \<Rightarrow> None)"
proof (intro conjI impI)
  show "rs_status (into_response header_value e :: 'f http_response) \<in> {400, 401, 403, 408, 429, 500, 502, 503}"
    by (cases e) (simp_all add: into_response_def)
  show "rs_retry_after (into_response header_value e :: 'f http_response) =
        (case e of RateLimited secs \<Rightarrow> Some (nat_text secs) | Overloaded secs \<Rightarrow> Some (nat_text secs)
         | PoolOpen secs _ \<Rightarrow> Some (nat_text secs) | _ \<Rightarrow> None)"
    using retry_after_text [OF assms] by (cases e) (simp_all add: into_response_def)
qed (rule into_response_disclosed)

theorem error_response_discloses_only_witness:
  "(into_response Some (Internal ''unknown Redis pool'') :: unit http_response) = into_response Some (Internal ''x'')"
proof -
  have "header_accepts_digits Some" by (simp add: header_accepts_digits_def)
  from error_response_discloses_only [OF this, of "Internal ''unknown Redis pool''" "Internal ''x''", where 'f = unit]
  show ?thesis by simp
qed

end
