(* ===== verification/Raw_Config.thy ===== *)
theory Raw_Config
  imports Acl Convert "HOL-Library.Multiset"
begin

text \<open>
  The data of \<open>src/config.rs\<close>: the configuration, the \<open>Raw\<close> structures with their defaults, and the
  \<open>Deserialize\<close> implementations that \<open>serde\<close> derives for them, as readers of JSON values. An object gives the fields of a
  structure by name, an array by position; a missing field takes its default; a field that is not declared
  is an error where the structure says so. The error text of \<open>serde\<close> is not modelled.

  \<open>schema\<close> is the reference: what a document has to look like, as data. Each reader accepts exactly the
  documents that fit its schema.
\<close>

section \<open>Secrets\<close>

text \<open>\<open>SecretString\<close>: its debug text is fixed. Zeroing the memory on drop is not visible in the model.\<close>

datatype secret_string = SecretString (expose: string)

definition secret_debug :: "secret_string \<Rightarrow> string" where
  "secret_debug secret = CHR 0x22 # ''<redacted>'' @ [CHR 0x22]"

section \<open>Configuration\<close>

record tls_config =
  tls_cert :: string
  tls_key :: string

record rate_limit_config =
  per_token_commands_per_sec :: nat

record load_config =
  max_in_flight :: nat
  max_response_bytes :: nat
  shed_retry_after_secs :: nat
  body_read_timeout_ms :: nat

record server_config =
  sv_port :: nat
  sv_bind :: string
  sv_tls :: "tls_config option"
  max_body_bytes :: nat
  max_pipeline_commands :: nat
  max_request_elements :: nat
  http_timeout_ms :: nat
  sv_rate_limit :: rate_limit_config
  sv_load :: load_config
  metrics_bind :: string

record introspection_config =
  in_enabled :: bool
  in_url :: string
  in_client_id :: string
  in_client_secret :: secret_string
  in_cache_secs :: nat

record jwt_config =
  jw_issuer :: string
  jw_audience :: string
  jwks_refresh_secs :: nat
  jw_role_prefix :: string
  jw_client_id :: string
  jw_introspection :: introspection_config

record static_token_config =
  st_pool :: string
  st_read_only :: bool
  st_legacy :: bool
  st_allowed_commands :: "string set option"
  st_blocked_commands :: "string set"
  st_allowed_script_sha256 :: "string set"
  st_key_prefix :: "string option"

record breaker_config =
  bc_failure_threshold :: nat
  bc_cooldown_ms :: nat

record pool_config =
  connection_string :: secret_string
  max_connections :: nat
  command_timeout_ms :: nat
  acquire_timeout_ms :: nat
  max_waiters :: nat
  pc_breaker :: breaker_config
  pc_allowed_script_sha256 :: "string set"

record auth_config =
  au_jwt :: "jwt_config option"
  au_static_tokens :: "(bytes, static_token_config) hash_map"

record config =
  cf_server :: server_config
  cf_auth :: auth_config
  cf_pools :: "(string, pool_config) hash_map"

datatype config_error =
    CfgRead string
  | CfgJson
  | CfgMissingEnvironment string
  | CfgInvalidEnvironment string string
  | CfgValidation string

section \<open>Raw configuration\<close>

record raw_legacy_token =
  rl_srh_id :: "string option"
  rl_connection_string :: string
  rl_max_connections :: nat

record raw_rate_limit_config =
  rr_per_token_commands_per_sec :: nat

record raw_load_config =
  ro_max_in_flight :: nat
  ro_max_response_bytes :: nat
  ro_shed_retry_after_secs :: nat
  ro_body_read_timeout_ms :: nat

record raw_server_config =
  rv_port :: nat
  rv_bind :: string
  rv_tls :: "tls_config option"
  rv_max_body_bytes :: nat
  rv_max_pipeline_commands :: nat
  rv_max_request_elements :: nat
  rv_http_timeout_ms :: nat
  rv_rate_limit :: raw_rate_limit_config
  rv_load :: raw_load_config
  rv_metrics_bind :: string

record raw_introspection_config =
  ri_enabled :: bool
  ri_url :: string
  ri_client_id :: string
  ri_client_secret :: string
  ri_cache_secs :: nat

record raw_jwt_config =
  rj_issuer :: string
  rj_audience :: string
  rj_jwks_refresh_secs :: nat
  rj_role_prefix :: string
  rj_client_id :: string
  rj_introspection :: raw_introspection_config

record raw_static_token_config =
  rt_pool :: string
  rt_read_only :: bool
  rt_allowed_commands :: "string list option"
  rt_blocked_commands :: "string list"
  rt_allowed_script_sha256 :: "string list"
  rt_key_prefix :: "string option"

record raw_breaker_config =
  rb_failure_threshold :: nat
  rb_cooldown_ms :: nat

record raw_pool_config =
  rp_connection_string :: string
  rp_max_connections :: nat
  rp_command_timeout_ms :: nat
  rp_acquire_timeout_ms :: nat
  rp_max_waiters :: "nat option"
  rp_breaker :: raw_breaker_config
  rp_allowed_script_sha256 :: "string list"

record raw_auth_config =
  ra_jwt :: "raw_jwt_config option"
  ra_static_tokens :: "(string, raw_static_token_config) hash_map"

record raw_config =
  rc_server :: raw_server_config
  rc_auth :: raw_auth_config
  rc_pools :: "(string, raw_pool_config) hash_map"

section \<open>Defaults\<close>

definition default_server_config :: server_config where
  "default_server_config =
     \<lparr>sv_port = 80, sv_bind = ''127.0.0.1'', sv_tls = None, max_body_bytes = 10485760,
      max_pipeline_commands = 1000, max_request_elements = 10000, http_timeout_ms = 10000,
      sv_rate_limit = \<lparr>per_token_commands_per_sec = 0\<rparr>,
      sv_load = \<lparr>max_in_flight = 512, max_response_bytes = 33554432, shed_retry_after_secs = 1,
                 body_read_timeout_ms = 2000\<rparr>,
      metrics_bind = ''127.0.0.1:9422''\<rparr>"

definition default_raw_rate_limit_config :: raw_rate_limit_config where
  "default_raw_rate_limit_config = \<lparr>rr_per_token_commands_per_sec = 0\<rparr>"

definition default_raw_load_config :: raw_load_config where
  "default_raw_load_config =
     (let load = sv_load default_server_config in
      \<lparr>ro_max_in_flight = max_in_flight load, ro_max_response_bytes = max_response_bytes load,
       ro_shed_retry_after_secs = shed_retry_after_secs load, ro_body_read_timeout_ms = body_read_timeout_ms load\<rparr>)"

definition default_raw_server_config :: raw_server_config where
  "default_raw_server_config =
     (let server = default_server_config in
      \<lparr>rv_port = sv_port server, rv_bind = sv_bind server, rv_tls = sv_tls server,
       rv_max_body_bytes = max_body_bytes server, rv_max_pipeline_commands = max_pipeline_commands server,
       rv_max_request_elements = max_request_elements server, rv_http_timeout_ms = http_timeout_ms server,
       rv_rate_limit = default_raw_rate_limit_config, rv_load = default_raw_load_config,
       rv_metrics_bind = metrics_bind server\<rparr>)"

definition default_raw_introspection_config :: raw_introspection_config where
  "default_raw_introspection_config =
     \<lparr>ri_enabled = False, ri_url = [], ri_client_id = [], ri_client_secret = [], ri_cache_secs = 30\<rparr>"

definition default_raw_jwt_config :: raw_jwt_config where
  "default_raw_jwt_config =
     \<lparr>rj_issuer = [], rj_audience = [], rj_jwks_refresh_secs = 600, rj_role_prefix = ''redis:'',
      rj_client_id = ''srh'', rj_introspection = default_raw_introspection_config\<rparr>"

definition default_raw_breaker_config :: raw_breaker_config where
  "default_raw_breaker_config = \<lparr>rb_failure_threshold = 10, rb_cooldown_ms = 2000\<rparr>"

definition default_max_connections :: nat where
  "default_max_connections = 3"

definition default_raw_pool_config :: raw_pool_config where
  "default_raw_pool_config =
     \<lparr>rp_connection_string = [], rp_max_connections = default_max_connections,
      rp_command_timeout_ms = 2000, rp_acquire_timeout_ms = 500, rp_max_waiters = None,
      rp_breaker = default_raw_breaker_config, rp_allowed_script_sha256 = []\<rparr>"

section \<open>From the raw structures\<close>

definition rate_limit_config_from :: "raw_rate_limit_config \<Rightarrow> rate_limit_config" where
  "rate_limit_config_from raw = \<lparr>per_token_commands_per_sec = rr_per_token_commands_per_sec raw\<rparr>"

definition load_config_from :: "raw_load_config \<Rightarrow> load_config" where
  "load_config_from raw =
     \<lparr>max_in_flight = ro_max_in_flight raw, max_response_bytes = ro_max_response_bytes raw,
      shed_retry_after_secs = ro_shed_retry_after_secs raw, body_read_timeout_ms = ro_body_read_timeout_ms raw\<rparr>"

definition server_config_from :: "raw_server_config \<Rightarrow> server_config" where
  "server_config_from raw =
     \<lparr>sv_port = rv_port raw, sv_bind = rv_bind raw, sv_tls = rv_tls raw, max_body_bytes = rv_max_body_bytes raw,
      max_pipeline_commands = rv_max_pipeline_commands raw, max_request_elements = rv_max_request_elements raw,
      http_timeout_ms = rv_http_timeout_ms raw, sv_rate_limit = rate_limit_config_from (rv_rate_limit raw),
      sv_load = load_config_from (rv_load raw), metrics_bind = rv_metrics_bind raw\<rparr>"

definition introspection_config_from :: "raw_introspection_config \<Rightarrow> introspection_config" where
  "introspection_config_from raw =
     \<lparr>in_enabled = ri_enabled raw, in_url = ri_url raw, in_client_id = ri_client_id raw,
      in_client_secret = SecretString (ri_client_secret raw), in_cache_secs = ri_cache_secs raw\<rparr>"

definition jwt_config_from :: "raw_jwt_config \<Rightarrow> jwt_config" where
  "jwt_config_from raw =
     \<lparr>jw_issuer = rj_issuer raw, jw_audience = rj_audience raw, jwks_refresh_secs = rj_jwks_refresh_secs raw,
      jw_role_prefix = rj_role_prefix raw, jw_client_id = rj_client_id raw,
      jw_introspection = introspection_config_from (rj_introspection raw)\<rparr>"

definition breaker_config_from :: "raw_breaker_config \<Rightarrow> breaker_config" where
  "breaker_config_from raw =
     \<lparr>bc_failure_threshold = rb_failure_threshold raw, bc_cooldown_ms = rb_cooldown_ms raw\<rparr>"

section \<open>Readers\<close>

definition read_bool :: "'f json \<Rightarrow> bool option" where
  "read_bool v = (case v of JBool b \<Rightarrow> Some b | _ \<Rightarrow> None)"

definition read_text :: "'f json \<Rightarrow> string option" where
  "read_text v = (case v of JString s \<Rightarrow> Some s | _ \<Rightarrow> None)"

text \<open>An unsigned integer type with the largest value \<open>m\<close>.\<close>

definition read_uint :: "nat \<Rightarrow> 'f json \<Rightarrow> nat option" where
  "read_uint m v =
     (case v of
        JNumber (NumU64 n) \<Rightarrow> if n \<le> m then Some n else None
      | JNumber (NumI64 i) \<Rightarrow> if 0 \<le> i \<and> nat i \<le> m then Some (nat i) else None
      | _ \<Rightarrow> None)"

definition read_option :: "('f json \<Rightarrow> 'a option) \<Rightarrow> 'f json \<Rightarrow> 'a option option" where
  "read_option r v = (case v of JNull \<Rightarrow> Some None | _ \<Rightarrow> map_option Some (r v))"

definition read_list :: "('f json \<Rightarrow> 'a option) \<Rightarrow> 'f json \<Rightarrow> 'a list option" where
  "read_list r v = (case v of JArray vs \<Rightarrow> those (map r vs) | _ \<Rightarrow> None)"

definition read_map :: "('f json \<Rightarrow> 'a option) \<Rightarrow> 'f json \<Rightarrow> (string, 'a) hash_map option" where
  "read_map r v = (case v of JObject m \<Rightarrow> those (map (\<lambda>(k, w). map_option (Pair k) (r w)) m) | _ \<Rightarrow> None)"

text \<open>The fields of a structure, by name or by position; \<open>deny\<close> is \<open>deny_unknown_fields\<close>.\<close>

definition struct_fields :: "bool \<Rightarrow> string list \<Rightarrow> 'f json \<Rightarrow> (string \<Rightarrow> 'f json option) option" where
  "struct_fields deny names v =
     (case v of
        JObject m \<Rightarrow> if deny \<and> \<not> list_all (\<lambda>(k, _). k \<in> set names) m then None else Some (map_of m)
      | JArray vs \<Rightarrow> if length names < length vs then None else Some (map_of (zip names vs))
      | _ \<Rightarrow> None)"

definition field ::
  "(string \<Rightarrow> 'f json option) \<Rightarrow> string \<Rightarrow> ('f json \<Rightarrow> 'a option) \<Rightarrow> 'a \<Rightarrow> 'a option" where
  "field f name r dflt = (case f name of None \<Rightarrow> Some dflt | Some v \<Rightarrow> r v)"

definition required_field :: "(string \<Rightarrow> 'f json option) \<Rightarrow> string \<Rightarrow> ('f json \<Rightarrow> 'a option) \<Rightarrow> 'a option" where
  "required_field f name r = Option.bind (f name) r"

section \<open>The structures\<close>

definition read_tls :: "'f json \<Rightarrow> tls_config option" where
  "read_tls v =
     Option.bind (struct_fields True [''cert'', ''key''] v) (\<lambda>f.
     Option.bind (required_field f ''cert'' read_text) (\<lambda>x1.
     Option.bind (required_field f ''key'' read_text) (\<lambda>x2.
     Some \<lparr>tls_cert = x1, tls_key = x2\<rparr>)))"

definition read_rate_limit :: "'f json \<Rightarrow> raw_rate_limit_config option" where
  "read_rate_limit v =
     Option.bind (struct_fields True [''per_token_commands_per_sec''] v) (\<lambda>f.
     Option.bind (field f ''per_token_commands_per_sec'' (read_uint u64_max) (rr_per_token_commands_per_sec default_raw_rate_limit_config)) (\<lambda>x1.
     Some \<lparr>rr_per_token_commands_per_sec = x1\<rparr>))"

definition read_load :: "'f json \<Rightarrow> raw_load_config option" where
  "read_load v =
     Option.bind (struct_fields True [''max_in_flight'', ''max_response_bytes'', ''shed_retry_after_secs'', ''body_read_timeout_ms''] v) (\<lambda>f.
     Option.bind (field f ''max_in_flight'' (read_uint u64_max) (ro_max_in_flight default_raw_load_config)) (\<lambda>x1.
     Option.bind (field f ''max_response_bytes'' (read_uint u64_max) (ro_max_response_bytes default_raw_load_config)) (\<lambda>x2.
     Option.bind (field f ''shed_retry_after_secs'' (read_uint u64_max) (ro_shed_retry_after_secs default_raw_load_config)) (\<lambda>x3.
     Option.bind (field f ''body_read_timeout_ms'' (read_uint u64_max) (ro_body_read_timeout_ms default_raw_load_config)) (\<lambda>x4.
     Some \<lparr>ro_max_in_flight = x1, ro_max_response_bytes = x2, ro_shed_retry_after_secs = x3,
        ro_body_read_timeout_ms = x4\<rparr>)))))"

definition read_server :: "'f json \<Rightarrow> raw_server_config option" where
  "read_server v =
     Option.bind (struct_fields True [''port'', ''bind'', ''tls'', ''max_body_bytes'', ''max_pipeline_commands'',
        ''max_request_elements'', ''http_timeout_ms'', ''rate_limit'', ''load'', ''metrics_bind''] v) (\<lambda>f.
     Option.bind (field f ''port'' (read_uint 65535) (rv_port default_raw_server_config)) (\<lambda>x1.
     Option.bind (field f ''bind'' read_text (rv_bind default_raw_server_config)) (\<lambda>x2.
     Option.bind (field f ''tls'' (read_option read_tls) (rv_tls default_raw_server_config)) (\<lambda>x3.
     Option.bind (field f ''max_body_bytes'' (read_uint u64_max) (rv_max_body_bytes default_raw_server_config)) (\<lambda>x4.
     Option.bind (field f ''max_pipeline_commands'' (read_uint u64_max) (rv_max_pipeline_commands default_raw_server_config)) (\<lambda>x5.
     Option.bind (field f ''max_request_elements'' (read_uint u64_max) (rv_max_request_elements default_raw_server_config)) (\<lambda>x6.
     Option.bind (field f ''http_timeout_ms'' (read_uint u64_max) (rv_http_timeout_ms default_raw_server_config)) (\<lambda>x7.
     Option.bind (field f ''rate_limit'' read_rate_limit (rv_rate_limit default_raw_server_config)) (\<lambda>x8.
     Option.bind (field f ''load'' read_load (rv_load default_raw_server_config)) (\<lambda>x9.
     Option.bind (field f ''metrics_bind'' read_text (rv_metrics_bind default_raw_server_config)) (\<lambda>x10.
     Some \<lparr>rv_port = x1, rv_bind = x2, rv_tls = x3, rv_max_body_bytes = x4, rv_max_pipeline_commands = x5,
        rv_max_request_elements = x6, rv_http_timeout_ms = x7, rv_rate_limit = x8, rv_load = x9,
        rv_metrics_bind = x10\<rparr>)))))))))))"

definition read_introspection :: "'f json \<Rightarrow> raw_introspection_config option" where
  "read_introspection v =
     Option.bind (struct_fields True [''enabled'', ''url'', ''client_id'', ''client_secret'', ''cache_secs''] v) (\<lambda>f.
     Option.bind (field f ''enabled'' read_bool (ri_enabled default_raw_introspection_config)) (\<lambda>x1.
     Option.bind (field f ''url'' read_text (ri_url default_raw_introspection_config)) (\<lambda>x2.
     Option.bind (field f ''client_id'' read_text (ri_client_id default_raw_introspection_config)) (\<lambda>x3.
     Option.bind (field f ''client_secret'' read_text (ri_client_secret default_raw_introspection_config)) (\<lambda>x4.
     Option.bind (field f ''cache_secs'' (read_uint u64_max) (ri_cache_secs default_raw_introspection_config)) (\<lambda>x5.
     Some \<lparr>ri_enabled = x1, ri_url = x2, ri_client_id = x3, ri_client_secret = x4,
        ri_cache_secs = x5\<rparr>))))))"

definition read_jwt :: "'f json \<Rightarrow> raw_jwt_config option" where
  "read_jwt v =
     Option.bind (struct_fields True [''issuer'', ''audience'', ''jwks_refresh_secs'', ''role_prefix'', ''client_id'',
        ''introspection''] v) (\<lambda>f.
     Option.bind (field f ''issuer'' read_text (rj_issuer default_raw_jwt_config)) (\<lambda>x1.
     Option.bind (field f ''audience'' read_text (rj_audience default_raw_jwt_config)) (\<lambda>x2.
     Option.bind (field f ''jwks_refresh_secs'' (read_uint u64_max) (rj_jwks_refresh_secs default_raw_jwt_config)) (\<lambda>x3.
     Option.bind (field f ''role_prefix'' read_text (rj_role_prefix default_raw_jwt_config)) (\<lambda>x4.
     Option.bind (field f ''client_id'' read_text (rj_client_id default_raw_jwt_config)) (\<lambda>x5.
     Option.bind (field f ''introspection'' read_introspection (rj_introspection default_raw_jwt_config)) (\<lambda>x6.
     Some \<lparr>rj_issuer = x1, rj_audience = x2, rj_jwks_refresh_secs = x3, rj_role_prefix = x4,
        rj_client_id = x5, rj_introspection = x6\<rparr>)))))))"

definition read_static_token :: "'f json \<Rightarrow> raw_static_token_config option" where
  "read_static_token v =
     Option.bind (struct_fields True [''pool'', ''read_only'', ''allowed_commands'', ''blocked_commands'', ''allowed_script_sha256'',
        ''key_prefix''] v) (\<lambda>f.
     Option.bind (field f ''pool'' read_text []) (\<lambda>x1.
     Option.bind (field f ''read_only'' read_bool False) (\<lambda>x2.
     Option.bind (field f ''allowed_commands'' (read_option (read_list read_text)) None) (\<lambda>x3.
     Option.bind (field f ''blocked_commands'' (read_list read_text) []) (\<lambda>x4.
     Option.bind (field f ''allowed_script_sha256'' (read_list read_text) []) (\<lambda>x5.
     Option.bind (field f ''key_prefix'' (read_option read_text) None) (\<lambda>x6.
     Some \<lparr>rt_pool = x1, rt_read_only = x2, rt_allowed_commands = x3, rt_blocked_commands = x4,
        rt_allowed_script_sha256 = x5, rt_key_prefix = x6\<rparr>)))))))"

definition read_breaker :: "'f json \<Rightarrow> raw_breaker_config option" where
  "read_breaker v =
     Option.bind (struct_fields True [''failure_threshold'', ''cooldown_ms''] v) (\<lambda>f.
     Option.bind (field f ''failure_threshold'' (read_uint u64_max) (rb_failure_threshold default_raw_breaker_config)) (\<lambda>x1.
     Option.bind (field f ''cooldown_ms'' (read_uint u64_max) (rb_cooldown_ms default_raw_breaker_config)) (\<lambda>x2.
     Some \<lparr>rb_failure_threshold = x1, rb_cooldown_ms = x2\<rparr>)))"

definition read_pool :: "'f json \<Rightarrow> raw_pool_config option" where
  "read_pool v =
     Option.bind (struct_fields True [''connection_string'', ''max_connections'', ''command_timeout_ms'', ''acquire_timeout_ms'',
        ''max_waiters'', ''breaker'', ''allowed_script_sha256''] v) (\<lambda>f.
     Option.bind (field f ''connection_string'' read_text (rp_connection_string default_raw_pool_config)) (\<lambda>x1.
     Option.bind (field f ''max_connections'' (read_uint u64_max) (rp_max_connections default_raw_pool_config)) (\<lambda>x2.
     Option.bind (field f ''command_timeout_ms'' (read_uint u64_max) (rp_command_timeout_ms default_raw_pool_config)) (\<lambda>x3.
     Option.bind (field f ''acquire_timeout_ms'' (read_uint u64_max) (rp_acquire_timeout_ms default_raw_pool_config)) (\<lambda>x4.
     Option.bind (field f ''max_waiters'' (read_option (read_uint u64_max)) (rp_max_waiters default_raw_pool_config)) (\<lambda>x5.
     Option.bind (field f ''breaker'' read_breaker (rp_breaker default_raw_pool_config)) (\<lambda>x6.
     Option.bind (field f ''allowed_script_sha256'' (read_list read_text) (rp_allowed_script_sha256 default_raw_pool_config)) (\<lambda>x7.
     Some \<lparr>rp_connection_string = x1, rp_max_connections = x2, rp_command_timeout_ms = x3,
        rp_acquire_timeout_ms = x4, rp_max_waiters = x5, rp_breaker = x6,
        rp_allowed_script_sha256 = x7\<rparr>))))))))"

definition read_auth :: "'f json \<Rightarrow> raw_auth_config option" where
  "read_auth v =
     Option.bind (struct_fields True [''jwt'', ''static_tokens''] v) (\<lambda>f.
     Option.bind (field f ''jwt'' (read_option read_jwt) None) (\<lambda>x1.
     Option.bind (field f ''static_tokens'' (read_map read_static_token) []) (\<lambda>x2.
     Some \<lparr>ra_jwt = x1, ra_static_tokens = x2\<rparr>)))"

text \<open>The document: \<open>from_value\<close> for \<open>RawConfig\<close>.\<close>

definition raw_config_of :: "'f json \<Rightarrow> raw_config option" where
  "raw_config_of v =
     Option.bind (struct_fields True [''server'', ''auth'', ''pools''] v) (\<lambda>f.
     Option.bind (field f ''server'' read_server default_raw_server_config) (\<lambda>x1.
     Option.bind (field f ''auth'' read_auth (\<lparr>ra_jwt = None, ra_static_tokens = []\<rparr>)) (\<lambda>x2.
     Option.bind (field f ''pools'' (read_map read_pool) []) (\<lambda>x3.
     Some \<lparr>rc_server = x1, rc_auth = x2, rc_pools = x3\<rparr>))))"

text \<open>A legacy token file may have other fields beside the ones that are read.\<close>

definition read_legacy_token :: "'f json \<Rightarrow> raw_legacy_token option" where
  "read_legacy_token v =
     Option.bind (struct_fields False [''srh_id'', ''connection_string'', ''max_connections''] v) (\<lambda>f.
     Option.bind (field f ''srh_id'' (read_option read_text) None) (\<lambda>x1.
     Option.bind (required_field f ''connection_string'' read_text) (\<lambda>x2.
     Option.bind (field f ''max_connections'' (read_uint u64_max) default_max_connections) (\<lambda>x3.
     Some \<lparr>rl_srh_id = x1, rl_connection_string = x2, rl_max_connections = x3\<rparr>))))"

definition legacy_entries_of :: "'f json \<Rightarrow> (string, raw_legacy_token) hash_map option" where
  "legacy_entries_of = read_map read_legacy_token"

section \<open>Schemas\<close>

text \<open>A structure has a name, whether it is required, and a schema for each field.\<close>

datatype schema =
    SBool
  | SText
  | SUInt nat
  | SOption schema
  | SList schema
  | SMap schema
  | SStruct bool "(string \<times> bool \<times> schema) list"

lemma size_zip_field [termination_simp]:
  "((a, aa, b :: schema), w) \<in> set (zip fs vs) \<Longrightarrow> size b < Suc (size_list (\<lambda>x. Suc (Suc (size (snd (snd x))))) fs)"
  using size_list_estimation [of "(a, aa, b)" fs "size b" "\<lambda>x. Suc (Suc (size (snd (snd x))))"]
  by (auto dest!: set_zip_leftD)

fun fits :: "schema \<Rightarrow> 'f json \<Rightarrow> bool" where
  "fits SBool v = (case v of JBool _ \<Rightarrow> True | _ \<Rightarrow> False)"
| "fits SText v = (case v of JString _ \<Rightarrow> True | _ \<Rightarrow> False)"
| "fits (SUInt m) v =
     (case v of
        JNumber (NumU64 n) \<Rightarrow> n \<le> m
      | JNumber (NumI64 i) \<Rightarrow> 0 \<le> i \<and> i \<le> int m
      | _ \<Rightarrow> False)"
| "fits (SOption s) v = (v = JNull \<or> fits s v)"
| "fits (SList s) v = (case v of JArray vs \<Rightarrow> (\<forall>w \<in> set vs. fits s w) | _ \<Rightarrow> False)"
| "fits (SMap s) v = (case v of JObject m \<Rightarrow> (\<forall>(k, w) \<in> set m. fits s w) | _ \<Rightarrow> False)"
| "fits (SStruct deny fs) v =
     (case v of
        JObject m \<Rightarrow>
          (deny \<longrightarrow> fst ` set m \<subseteq> fst ` set fs)
          \<and> (\<forall>(name, required, s) \<in> set fs. case map_of m name of None \<Rightarrow> \<not> required | Some w \<Rightarrow> fits s w)
      | JArray vs \<Rightarrow>
          length vs \<le> length fs
          \<and> (\<forall>((name, required, s), w) \<in> set (zip fs vs). fits s w)
          \<and> (\<forall>(name, required, s) \<in> set (drop (length vs) fs). \<not> required)
      | _ \<Rightarrow> False)"

definition fields_fit :: "(string \<Rightarrow> 'f json option) \<Rightarrow> (string \<times> bool \<times> schema) list \<Rightarrow> bool" where
  "fields_fit f fs \<longleftrightarrow>
     list_all (\<lambda>(name, required, s). case f name of None \<Rightarrow> \<not> required | Some w \<Rightarrow> fits s w) fs"

lemma fields_fit_cong:
  assumes "\<And>name. name \<in> fst ` set fs \<Longrightarrow> f name = g name"
  shows "fields_fit f fs = fields_fit g fs"
  unfolding fields_fit_def
proof (rule list.pred_cong [OF refl])
  fix z :: "string \<times> bool \<times> schema"
  assume "z \<in> set fs"
  then have "f (fst z) = g (fst z)" by (intro assms) simp
  then show "(case z of (name, required, s) \<Rightarrow> case f name of None \<Rightarrow> \<not> required | Some w \<Rightarrow> fits s w) =
      (case z of (name, required, s) \<Rightarrow> case g name of None \<Rightarrow> \<not> required | Some w \<Rightarrow> fits s w)"
    by (simp add: case_prod_unfold)
qed

lemma fields_fit_zip:
  "distinct (map fst fs) \<Longrightarrow> length vs \<le> length fs \<Longrightarrow>
     fields_fit (map_of (zip (map fst fs) vs)) fs \<longleftrightarrow>
       (\<forall>((name, required, s), w) \<in> set (zip fs vs). fits s w) \<and> (\<forall>(name, required, s) \<in> set (drop (length vs) fs). \<not> required)"
proof (induction fs arbitrary: vs)
  case Nil
  then show ?case by (simp add: fields_fit_def)
next
  case (Cons fld fs)
  obtain name req s where fld: "fld = (name, req, s)" by (cases fld)
  show ?case
  proof (cases vs)
    case Nil
    then show ?thesis by (auto simp: fields_fit_def list_all_iff)
  next
    case (Cons w ws)
    have "fields_fit ((map_of (zip (map fst fs) ws))(name \<mapsto> w)) fs = fields_fit (map_of (zip (map fst fs) ws)) fs"
      by (rule fields_fit_cong) (use Cons.prems(1) fld in auto)
    with Cons.IH [of ws] Cons.prems fld \<open>vs = w # ws\<close> show ?thesis
      by (simp add: fields_fit_def)
  qed
qed

lemma fits_struct:
  assumes "distinct (map fst fs)"
  shows "fits (SStruct deny fs) v \<longleftrightarrow> (\<exists>f. struct_fields deny (map fst fs) v = Some f \<and> fields_fit f fs)"
proof (cases v)
  case (JArray vs)
  then show ?thesis using fields_fit_zip [OF assms, of vs] by (auto simp: struct_fields_def not_less)
next
  case (JObject m)
  have "list_all (\<lambda>(k, _). k \<in> set (map fst fs)) m \<longleftrightarrow> fst ` set m \<subseteq> fst ` set fs"
    by (force simp: list_all_iff)
  with JObject show ?thesis by (auto simp: struct_fields_def fields_fit_def Ball_set)
qed (simp_all add: struct_fields_def)

section \<open>Each reader accepts what fits\<close>

text \<open>A reader decides a schema.\<close>

definition decides :: "('f json \<Rightarrow> 'a option) \<Rightarrow> schema \<Rightarrow> bool" where
  "decides r s \<longleftrightarrow> (\<forall>v. r v = None \<longleftrightarrow> \<not> fits s v)"

lemma decidesD: "decides r s \<Longrightarrow> r v = None \<longleftrightarrow> \<not> fits s v"
  by (simp add: decides_def)

lemma those_map_None_iff: "those (map g xs) = None \<longleftrightarrow> (\<exists>x \<in> set xs. g x = None)"
  by (induction xs) (auto split: option.splits)

lemma decides_leaf: "decides read_bool SBool" "decides read_text SText" "decides (read_uint m) (SUInt m)"
  by (auto simp: decides_def read_bool_def read_text_def read_uint_def le_nat_iff nat_le_iff
      split: json.splits json_number.splits)

lemma decides_option: "decides r s \<Longrightarrow> decides (read_option r) (SOption s)"
  by (auto simp: decides_def read_option_def split: json.splits)

lemma decides_list: "decides r s \<Longrightarrow> decides (read_list r) (SList s)"
  by (simp add: decides_def read_list_def those_map_None_iff split: json.splits)

lemma decides_map: "decides r s \<Longrightarrow> decides (read_map r) (SMap s)"
  by (auto simp: decides_def read_map_def those_map_None_iff case_prod_unfold split: json.splits)

text \<open>The fields of a reader, one after another, against the fields of a schema.\<close>

lemma read_field:
  assumes "decides r s" and "\<And>x. k x = None \<longleftrightarrow> \<not> fields_fit f fs"
  shows "Option.bind (field f name r d) k = None \<longleftrightarrow> \<not> fields_fit f ((name, False, s) # fs)"
proof (cases "f name")
  case (Some w)
  with assms decidesD [OF assms(1), of w] show ?thesis
    by (cases "r w") (auto simp: field_def fields_fit_def simp del: fits.simps)
qed (simp add: assms(2) field_def fields_fit_def)

lemma read_required_field:
  assumes "decides r s" and "\<And>x. k x = None \<longleftrightarrow> \<not> fields_fit f fs"
  shows "Option.bind (required_field f name r) k = None \<longleftrightarrow> \<not> fields_fit f ((name, True, s) # fs)"
proof (cases "f name")
  case (Some w)
  with assms decidesD [OF assms(1), of w] show ?thesis
    by (cases "r w") (auto simp: required_field_def fields_fit_def simp del: fits.simps)
qed (simp add: required_field_def fields_fit_def)

lemma read_done: "Some x = None \<longleftrightarrow> \<not> fields_fit f []"
  by (simp add: fields_fit_def)

lemmas read_chain = read_field read_required_field read_done

text \<open>The schema of each structure.\<close>

definition tls_schema :: schema where
  "tls_schema =
     SStruct True [(''cert'', True, SText), (''key'', True, SText)]"

definition rate_limit_schema :: schema where
  "rate_limit_schema =
     SStruct True [(''per_token_commands_per_sec'', False, SUInt u64_max)]"

definition load_schema :: schema where
  "load_schema =
     SStruct True [(''max_in_flight'', False, SUInt u64_max), (''max_response_bytes'', False, SUInt u64_max),
        (''shed_retry_after_secs'', False, SUInt u64_max), (''body_read_timeout_ms'', False, SUInt u64_max)]"

definition server_schema :: schema where
  "server_schema =
     SStruct True [(''port'', False, SUInt 65535), (''bind'', False, SText), (''tls'', False, SOption tls_schema),
        (''max_body_bytes'', False, SUInt u64_max), (''max_pipeline_commands'', False, SUInt u64_max),
        (''max_request_elements'', False, SUInt u64_max), (''http_timeout_ms'', False, SUInt u64_max),
        (''rate_limit'', False, rate_limit_schema), (''load'', False, load_schema),
        (''metrics_bind'', False, SText)]"

definition introspection_schema :: schema where
  "introspection_schema =
     SStruct True [(''enabled'', False, SBool), (''url'', False, SText), (''client_id'', False, SText),
        (''client_secret'', False, SText), (''cache_secs'', False, SUInt u64_max)]"

definition jwt_schema :: schema where
  "jwt_schema =
     SStruct True [(''issuer'', False, SText), (''audience'', False, SText),
        (''jwks_refresh_secs'', False, SUInt u64_max), (''role_prefix'', False, SText),
        (''client_id'', False, SText), (''introspection'', False, introspection_schema)]"

definition static_token_schema :: schema where
  "static_token_schema =
     SStruct True [(''pool'', False, SText), (''read_only'', False, SBool),
        (''allowed_commands'', False, SOption (SList SText)), (''blocked_commands'', False, SList SText),
        (''allowed_script_sha256'', False, SList SText), (''key_prefix'', False, SOption SText)]"

definition breaker_schema :: schema where
  "breaker_schema =
     SStruct True [(''failure_threshold'', False, SUInt u64_max), (''cooldown_ms'', False, SUInt u64_max)]"

definition pool_schema :: schema where
  "pool_schema =
     SStruct True [(''connection_string'', False, SText), (''max_connections'', False, SUInt u64_max),
        (''command_timeout_ms'', False, SUInt u64_max), (''acquire_timeout_ms'', False, SUInt u64_max),
        (''max_waiters'', False, SOption (SUInt u64_max)), (''breaker'', False, breaker_schema),
        (''allowed_script_sha256'', False, SList SText)]"

definition auth_schema :: schema where
  "auth_schema =
     SStruct True [(''jwt'', False, SOption jwt_schema), (''static_tokens'', False, SMap static_token_schema)]"

definition config_schema :: schema where
  "config_schema =
     SStruct True [(''server'', False, server_schema), (''auth'', False, auth_schema),
        (''pools'', False, SMap pool_schema)]"

definition legacy_token_schema :: schema where
  "legacy_token_schema =
     SStruct False [(''srh_id'', False, SOption SText), (''connection_string'', True, SText),
        (''max_connections'', False, SUInt u64_max)]"

named_theorems deciders
lemmas [deciders] = decides_leaf decides_option decides_list decides_map

text \<open>A structure whose reader asks for the fields of its schema.\<close>

lemma decides_structI:
  assumes "\<And>v. r v = Option.bind (struct_fields deny names v) k" and "map fst fs = names" and "distinct names"
    and "\<And>f. k f = None \<longleftrightarrow> \<not> fields_fit f fs"
  shows "decides r (SStruct deny fs)"
  unfolding decides_def
proof
  fix v
  have "distinct (map fst fs)" using assms(2,3) by simp
  note fits_struct [OF this, of deny v]
  then show "(r v = None) = (\<not> fits (SStruct deny fs) v)"
    using assms(1,4) unfolding assms(2) by (cases "struct_fields deny names v") (auto simp del: fits.simps)
qed

lemma decides_tls [deciders]: "decides read_tls tls_schema"
  unfolding tls_schema_def
  by (rule decides_structI [OF read_tls_def], simp, simp) (intro read_chain deciders)

lemma decides_rate_limit [deciders]: "decides read_rate_limit rate_limit_schema"
  unfolding rate_limit_schema_def
  by (rule decides_structI [OF read_rate_limit_def], simp, simp) (intro read_chain deciders)

lemma decides_load [deciders]: "decides read_load load_schema"
  unfolding load_schema_def
  by (rule decides_structI [OF read_load_def], simp, simp) (intro read_chain deciders)

lemma decides_server [deciders]: "decides read_server server_schema"
  unfolding server_schema_def
  by (rule decides_structI [OF read_server_def], simp, simp) (intro read_chain deciders)

lemma decides_introspection [deciders]: "decides read_introspection introspection_schema"
  unfolding introspection_schema_def
  by (rule decides_structI [OF read_introspection_def], simp, simp) (intro read_chain deciders)

lemma decides_jwt [deciders]: "decides read_jwt jwt_schema"
  unfolding jwt_schema_def
  by (rule decides_structI [OF read_jwt_def], simp, simp) (intro read_chain deciders)

lemma decides_static_token [deciders]: "decides read_static_token static_token_schema"
  unfolding static_token_schema_def
  by (rule decides_structI [OF read_static_token_def], simp, simp) (intro read_chain deciders)

lemma decides_breaker [deciders]: "decides read_breaker breaker_schema"
  unfolding breaker_schema_def
  by (rule decides_structI [OF read_breaker_def], simp, simp) (intro read_chain deciders)

lemma decides_pool [deciders]: "decides read_pool pool_schema"
  unfolding pool_schema_def
  by (rule decides_structI [OF read_pool_def], simp, simp) (intro read_chain deciders)

lemma decides_auth [deciders]: "decides read_auth auth_schema"
  unfolding auth_schema_def
  by (rule decides_structI [OF read_auth_def], simp, simp) (intro read_chain deciders)

lemma decides_config [deciders]: "decides raw_config_of config_schema"
  unfolding config_schema_def
  by (rule decides_structI [OF raw_config_of_def], simp, simp) (intro read_chain deciders)

lemma decides_legacy_token [deciders]: "decides read_legacy_token legacy_token_schema"
  unfolding legacy_token_schema_def
  by (rule decides_structI [OF read_legacy_token_def], simp, simp) (intro read_chain deciders)

end
