(* ===== verification/Config.thy ===== *)
theory Config
  imports Raw_Config
begin

text \<open>
  Configuration loading and validation (\<open>src/config.rs\<close>), on the data and the readers of
  \<open>Raw_Config\<close>. Reading a file and parsing JSON text are parameters, as are SHA-256, the URL parser and the socket address parser.
  A \<open>HashMap\<close> is iterated in the order of its list. Secrets are plain strings: redaction and
  zeroing have no effect on what is computed.

  Properties: what validation guarantees of an accepted configuration, above all that the
  worst case of a request fits its deadline; that configured digests read back what
  \<open>digest_hex\<close> prints; that a document is refused as JSON exactly if it does not fit the schema of its kind; and
  that loading a legacy file does not depend on the map's order, while a file of the new form with two keys for one token does.
\<close>

section \<open>Helpers\<close>

definition pool_config_new ::
  "string \<Rightarrow> nat \<Rightarrow> nat \<Rightarrow> nat \<Rightarrow> nat option \<Rightarrow> raw_breaker_config option \<Rightarrow> pool_config" where
  "pool_config_new connection max_conn command_ms acquire_ms waiters brk =
     \<lparr>connection_string = SecretString connection, max_connections = max_conn, command_timeout_ms = command_ms,
      acquire_timeout_ms = acquire_ms,
      max_waiters = (case waiters of Some n \<Rightarrow> n | None \<Rightarrow> saturating_mul max_conn 4),
      pc_breaker = breaker_config_from (case brk of Some b \<Rightarrow> b | None \<Rightarrow> default_raw_breaker_config),
      pc_allowed_script_sha256 = {}\<rparr>"

definition same_legacy_pool :: "pool_config \<Rightarrow> pool_config \<Rightarrow> bool" where
  "same_legacy_pool left right \<longleftrightarrow>
     expose (connection_string left) = expose (connection_string right) \<and> max_connections left = max_connections right"

definition has_connection_string :: "'f json \<Rightarrow> bool" where
  "has_connection_string v =
     (case v of JObject m \<Rightarrow> ''connection_string'' \<in> fst ` set m | _ \<Rightarrow> False)"

definition required :: "(string \<Rightarrow> string option) \<Rightarrow> string \<Rightarrow> config_error + string" where
  "required get name =
     (case get name of Some value \<Rightarrow> Inr value | None \<Rightarrow> Inl (CfgMissingEnvironment name))"

text \<open>\<open>str::parse\<close> for an unsigned integer type whose largest value is \<open>m\<close>.\<close>

fun parse_digits :: "nat \<Rightarrow> string \<Rightarrow> nat \<Rightarrow> string + nat" where
  "parse_digits m [] acc = Inr acc"
| "parse_digits m (c # s) acc =
     (if byte_of c < 48 \<or> 57 < byte_of c then Inl ''invalid digit found in string''
      else if m < acc * 10 + (byte_of c - 48) then Inl ''number too large to fit in target type''
      else parse_digits m s (acc * 10 + (byte_of c - 48)))"

definition parse_unsigned :: "nat \<Rightarrow> string \<Rightarrow> string + nat" where
  "parse_unsigned m s =
     (case s of
        [] \<Rightarrow> Inl ''cannot parse integer from empty string''
      | c # s' \<Rightarrow>
          if c = CHR ''+'' \<and> s' \<noteq> [] then parse_digits m s' 0 else parse_digits m s 0)"

definition parse_env :: "nat \<Rightarrow> (string \<Rightarrow> string option) \<Rightarrow> string \<Rightarrow> config_error + nat option" where
  "parse_env m get name =
     (case get name of
        None \<Rightarrow> Inr None
      | Some value \<Rightarrow>
          (case parse_unsigned m value of
             Inr n \<Rightarrow> Inr (Some n)
           | Inl reason \<Rightarrow> Inl (CfgInvalidEnvironment name reason)))"

definition parse_bool_env :: "(string \<Rightarrow> string option) \<Rightarrow> string \<Rightarrow> config_error + bool option" where
  "parse_bool_env get name =
     (case get name of
        None \<Rightarrow> Inr None
      | Some value \<Rightarrow>
          if value = ''true'' \<or> value = ''1'' then Inr (Some True)
          else if value = ''false'' \<or> value = ''0'' then Inr (Some False)
          else Inl (CfgInvalidEnvironment name ''expected true, false, 1, or 0''))"

definition validate_nonzero :: "string \<Rightarrow> nat \<Rightarrow> config_error + unit" where
  "validate_nonzero name value = ensure (value \<noteq> 0) (CfgValidation (name @ '' must be greater than zero''))"

definition digest_token :: "(bytes \<Rightarrow> bytes) \<Rightarrow> string \<Rightarrow> bytes" where
  "digest_token sha256 token = sha256 token"

definition hex_nibble :: "char \<Rightarrow> nat option" where
  "hex_nibble c =
     (let b = byte_of c in
      if 48 \<le> b \<and> b \<le> 57 then Some (b - 48)
      else if 97 \<le> b \<and> b \<le> 102 then Some (b - 97 + 10)
      else if 65 \<le> b \<and> b \<le> 70 then Some (b - 65 + 10)
      else None)"

definition invalid_digest_hex :: config_error where
  "invalid_digest_hex = CfgValidation ''sha256 token keys must contain only hex''"

fun parse_hex_pairs :: "string \<Rightarrow> config_error + bytes" where
  "parse_hex_pairs (h # l # s) =
     (case hex_nibble h of
        None \<Rightarrow> Inl invalid_digest_hex
      | Some high \<Rightarrow>
          (case hex_nibble l of
             None \<Rightarrow> Inl invalid_digest_hex
           | Some low \<Rightarrow> res_bind (parse_hex_pairs s) (\<lambda>rest. Inr (char_of (high * 16 + low) # rest))))"
| "parse_hex_pairs _ = Inr []"

definition strip_prefix :: "string \<Rightarrow> string \<Rightarrow> string option" where
  "strip_prefix p s = (if take (length p) s = p then Some (drop (length p) s) else None)"

definition parse_configured_digest :: "(bytes \<Rightarrow> bytes) \<Rightarrow> string \<Rightarrow> config_error + bytes" where
  "parse_configured_digest sha256 token =
     (case strip_prefix ''sha256:'' token of
        None \<Rightarrow> Inr (digest_token sha256 token)
      | Some hex \<Rightarrow>
          if length hex \<noteq> 64
          then Inl (CfgValidation ''sha256 token keys must contain exactly 64 hex characters'')
          else parse_hex_pairs hex)"

definition digest_hex :: "bytes \<Rightarrow> string" where
  "digest_hex digest = concat (map hex_byte digest)"

definition digest_prefix :: "bytes \<Rightarrow> string" where
  "digest_prefix digest = take 8 (digest_hex digest)"

definition uppercase_set :: "string list \<Rightarrow> string set" where
  "uppercase_set values = to_ascii_uppercase ` set values"

definition default_token :: "string \<Rightarrow> bool \<Rightarrow> static_token_config" where
  "default_token pl leg =
     \<lparr>st_pool = pl, st_read_only = False, st_legacy = leg, st_allowed_commands = None,
      st_blocked_commands = {}, st_allowed_script_sha256 = {}, st_key_prefix = None\<rparr>"

section \<open>Loading\<close>

definition from_env_mode :: "(bytes \<Rightarrow> bytes) \<Rightarrow> (string \<Rightarrow> string option) \<Rightarrow> config_error + config" where
  "from_env_mode sha256 get =
     res_bind (required get ''SRH_TOKEN'') (\<lambda>token.
     res_bind (required get ''SRH_CONNECTION_STRING'') (\<lambda>connection.
     res_bind (parse_env u64_max get ''SRH_MAX_CONNECTIONS'') (\<lambda>max_conn.
     Inr \<lparr>cf_server = default_server_config,
          cf_auth = \<lparr>au_jwt = None,
                     au_static_tokens = [(digest_token sha256 token, default_token ''default'' True)]\<rparr>,
          cf_pools = [(''default'',
            pool_config_new connection (case max_conn of Some n \<Rightarrow> n | None \<Rightarrow> 3) 2000 500 None None)]\<rparr>)))"

definition legacy_pool_name :: "bytes \<Rightarrow> raw_legacy_token \<Rightarrow> string" where
  "legacy_pool_name digest entry =
     (case rl_srh_id entry of
        Some name \<Rightarrow> if name \<noteq> [] then name else digest_prefix digest
      | None \<Rightarrow> digest_prefix digest)"

definition legacy_candidate :: "raw_legacy_token \<Rightarrow> pool_config" where
  "legacy_candidate entry =
     pool_config_new (rl_connection_string entry) (rl_max_connections entry) 2000 500 None None"

fun load_legacy ::
  "(bytes \<Rightarrow> bytes) \<Rightarrow> (string \<times> raw_legacy_token) list \<Rightarrow> (bytes, static_token_config) hash_map
    \<Rightarrow> (string, pool_config) hash_map
    \<Rightarrow> config_error + (bytes, static_token_config) hash_map \<times> (string, pool_config) hash_map" where
  "load_legacy sha256 [] tokens pools = Inr (tokens, pools)"
| "load_legacy sha256 ((token, entry) # es) tokens pools =
     (let digest = digest_token sha256 token;
          name = legacy_pool_name digest entry;
          candidate = legacy_candidate entry;
          tokens' = hm_insert digest (default_token name True) tokens in
      case hm_get pools name of
        Some existing \<Rightarrow>
          if \<not> same_legacy_pool existing candidate
          then Inl (CfgValidation (''legacy srh_id '' @ quote @ name @ quote @ '' has conflicting pool definitions''))
          else load_legacy sha256 es tokens' pools
      | None \<Rightarrow> load_legacy sha256 es tokens' (hm_insert name candidate pools))"

definition from_legacy_entries ::
  "(bytes \<Rightarrow> bytes) \<Rightarrow> (string \<times> raw_legacy_token) list \<Rightarrow> config_error + config" where
  "from_legacy_entries sha256 es =
     res_bind (load_legacy sha256 es [] []) (\<lambda>(tokens, pools).
       Inr \<lparr>cf_server = default_server_config,
            cf_auth = \<lparr>au_jwt = None, au_static_tokens = tokens\<rparr>, cf_pools = pools\<rparr>)"

definition static_token_of :: "raw_static_token_config \<Rightarrow> static_token_config" where
  "static_token_of entry =
     \<lparr>st_pool = rt_pool entry, st_read_only = rt_read_only entry, st_legacy = False,
      st_allowed_commands = map_option uppercase_set (rt_allowed_commands entry),
      st_blocked_commands = uppercase_set (rt_blocked_commands entry),
      st_allowed_script_sha256 = to_ascii_lowercase ` set (rt_allowed_script_sha256 entry),
      st_key_prefix = rt_key_prefix entry\<rparr>"

fun load_static_tokens ::
  "(bytes \<Rightarrow> bytes) \<Rightarrow> (string \<times> raw_static_token_config) list \<Rightarrow> (bytes, static_token_config) hash_map
    \<Rightarrow> config_error + (bytes, static_token_config) hash_map" where
  "load_static_tokens sha256 [] tokens = Inr tokens"
| "load_static_tokens sha256 ((token, entry) # es) tokens =
     res_bind (parse_configured_digest sha256 token) (\<lambda>digest.
       load_static_tokens sha256 es (hm_insert digest (static_token_of entry) tokens))"

definition pool_of :: "raw_pool_config \<Rightarrow> pool_config" where
  "pool_of p =
     (let waiters = (case rp_max_waiters p of Some n \<Rightarrow> Some n | None \<Rightarrow> checked_mul (rp_max_connections p) 4) in
      (pool_config_new (rp_connection_string p) (rp_max_connections p) (rp_command_timeout_ms p)
         (rp_acquire_timeout_ms p) waiters (Some (rp_breaker p)))
      \<lparr>pc_allowed_script_sha256 := to_ascii_lowercase ` set (rp_allowed_script_sha256 p)\<rparr>)"

definition widen_token :: "(string, pool_config) hash_map \<Rightarrow> static_token_config \<Rightarrow> static_token_config" where
  "widen_token pools token =
     (case hm_get pools (st_pool token) of
        Some p \<Rightarrow> token\<lparr>st_allowed_script_sha256 := st_allowed_script_sha256 token \<union> pc_allowed_script_sha256 p\<rparr>
      | None \<Rightarrow> token)"

definition from_raw_config :: "(bytes \<Rightarrow> bytes) \<Rightarrow> raw_config \<Rightarrow> config_error + config" where
  "from_raw_config sha256 raw =
     res_bind (load_static_tokens sha256 (ra_static_tokens (rc_auth raw)) []) (\<lambda>tokens.
       let pools = map (\<lambda>(name, p). (name, pool_of p)) (rc_pools raw) in
       Inr \<lparr>cf_server = server_config_from (rc_server raw),
            cf_auth = \<lparr>au_jwt = map_option jwt_config_from (ra_jwt (rc_auth raw)),
                       au_static_tokens = map (\<lambda>(digest, token). (digest, widen_token pools token)) tokens\<rparr>,
            cf_pools = pools\<rparr>)"

definition apply_server_overrides :: "(string \<Rightarrow> string option) \<Rightarrow> config \<Rightarrow> config_error + config" where
  "apply_server_overrides get c =
     (let sv1 = (case get ''SRH_BIND'' of Some b \<Rightarrow> (cf_server c)\<lparr>sv_bind := b\<rparr> | None \<Rightarrow> cf_server c) in
      res_bind (parse_env 65535 get ''SRH_PORT'') (\<lambda>port.
        let sv2 = (case port of Some p \<Rightarrow> sv1\<lparr>sv_port := p\<rparr> | None \<Rightarrow> sv1) in
        res_bind (parse_bool_env get ''SRH_IPV6'') (\<lambda>ipv6.
          let sv3 = (if ipv6 = Some True
                     then sv2\<lparr>sv_bind := (if sv_bind sv2 = ''0.0.0.0'' then ''::'' else ''::1'')\<rparr>
                     else sv2) in
          Inr (c\<lparr>cf_server := sv3\<rparr>))))"

section \<open>Validation\<close>

text \<open>
  \<open>parse_url\<close> gives the scheme of a URL or the parser's complaint, \<open>parse_addr\<close> the complaint
  about a socket address if it has one.
\<close>

definition http_scheme :: "string \<Rightarrow> bool" where
  "http_scheme scheme \<longleftrightarrow> scheme = ''http'' \<or> scheme = ''https''"

definition validate_server :: "(string \<Rightarrow> string option) \<Rightarrow> server_config \<Rightarrow> config_error + unit" where
  "validate_server parse_addr sv =
     res_bind (validate_nonzero ''server.port'' (sv_port sv)) (\<lambda>_.
     res_bind (validate_nonzero ''server.max_body_bytes'' (max_body_bytes sv)) (\<lambda>_.
     res_bind (validate_nonzero ''server.max_pipeline_commands'' (max_pipeline_commands sv)) (\<lambda>_.
     res_bind (validate_nonzero ''server.max_request_elements'' (max_request_elements sv)) (\<lambda>_.
     res_bind (validate_nonzero ''server.http_timeout_ms'' (http_timeout_ms sv)) (\<lambda>_.
     res_bind (validate_nonzero ''server.load.max_in_flight'' (max_in_flight (sv_load sv))) (\<lambda>_.
     res_bind (validate_nonzero ''server.load.max_response_bytes'' (max_response_bytes (sv_load sv))) (\<lambda>_.
     res_bind (validate_nonzero ''server.load.shed_retry_after_secs'' (shed_retry_after_secs (sv_load sv))) (\<lambda>_.
     res_bind (validate_nonzero ''server.load.body_read_timeout_ms'' (body_read_timeout_ms (sv_load sv))) (\<lambda>_.
     case parse_addr (metrics_bind sv) of
       Some complaint \<Rightarrow>
         Inl (CfgValidation (''server.metrics_bind is not a valid socket address: '' @ complaint))
     | None \<Rightarrow> Inr ())))))))))"

definition validate_introspection ::
  "(string \<Rightarrow> string + string) \<Rightarrow> introspection_config \<Rightarrow> config_error + unit" where
  "validate_introspection parse_url i =
     (if in_enabled i then
        (case parse_url (in_url i) of
           Inl complaint \<Rightarrow>
             Inl (CfgValidation (''auth.jwt.introspection.url is not a valid URL: '' @ complaint))
         | Inr scheme \<Rightarrow>
             res_bind (ensure (http_scheme scheme)
                 (CfgValidation ''auth.jwt.introspection.url must use http or https'')) (\<lambda>_.
             res_bind (ensure (in_client_id i \<noteq> [] \<and> expose (in_client_secret i) \<noteq> [])
                 (CfgValidation ''enabled JWT introspection requires client_id and client_secret'')) (\<lambda>_.
             validate_nonzero ''auth.jwt.introspection.cache_secs'' (in_cache_secs i))))
      else Inr ())"

definition validate_jwt :: "(string \<Rightarrow> string + string) \<Rightarrow> jwt_config \<Rightarrow> config_error + unit" where
  "validate_jwt parse_url j =
     (case parse_url (jw_issuer j) of
        Inl complaint \<Rightarrow> Inl (CfgValidation (''auth.jwt.issuer is not a valid URL: '' @ complaint))
      | Inr scheme \<Rightarrow>
          res_bind (ensure (http_scheme scheme) (CfgValidation ''auth.jwt.issuer must use http or https'')) (\<lambda>_.
          res_bind (ensure (jw_audience j \<noteq> [] \<and> jw_client_id j \<noteq> [])
              (CfgValidation ''auth.jwt.audience and auth.jwt.client_id must not be empty'')) (\<lambda>_.
          res_bind (validate_nonzero ''auth.jwt.jwks_refresh_secs'' (jwks_refresh_secs j)) (\<lambda>_.
          validate_introspection parse_url (jw_introspection j)))))"

fun validate_tokens :: "(string, pool_config) hash_map \<Rightarrow> static_token_config list \<Rightarrow> config_error + unit" where
  "validate_tokens pools [] = Inr ()"
| "validate_tokens pools (t # ts) =
     res_bind (ensure (hm_get pools (st_pool t) \<noteq> None)
         (CfgValidation (''static token references missing pool '' @ quote @ st_pool t @ quote))) (\<lambda>_.
     validate_tokens pools ts)"

definition validate_pool :: "nat \<Rightarrow> string \<Rightarrow> pool_config \<Rightarrow> config_error + unit" where
  "validate_pool http_ms name p =
     res_bind (ensure (expose (connection_string p) \<noteq> [])
         (CfgValidation (''pools.'' @ name @ ''.connection_string must not be empty''))) (\<lambda>_.
     res_bind (validate_nonzero (''pools.'' @ name @ ''.max_connections'') (max_connections p)) (\<lambda>_.
     res_bind (validate_nonzero (''pools.'' @ name @ ''.command_timeout_ms'') (command_timeout_ms p)) (\<lambda>_.
     res_bind (validate_nonzero (''pools.'' @ name @ ''.acquire_timeout_ms'') (acquire_timeout_ms p)) (\<lambda>_.
     res_bind (validate_nonzero (''pools.'' @ name @ ''.max_waiters'') (max_waiters p)) (\<lambda>_.
     res_bind (validate_nonzero (''pools.'' @ name @ ''.breaker.failure_threshold'')
         (bc_failure_threshold (pc_breaker p))) (\<lambda>_.
     res_bind (validate_nonzero (''pools.'' @ name @ ''.breaker.cooldown_ms'')
         (bc_cooldown_ms (pc_breaker p))) (\<lambda>_.
     case Option.bind (checked_mul (command_timeout_ms p) 2) (checked_add (acquire_timeout_ms p)) of
       None \<Rightarrow> Inl (CfgValidation (''timeouts overflow for pool '' @ quote @ name @ quote))
     | Some worst \<Rightarrow>
         ensure (worst < http_ms)
           (CfgValidation (''pool '' @ quote @ name @ quote
             @ '' requires acquire_timeout_ms + 2 * command_timeout_ms < http_timeout_ms'')))))))))"

fun validate_pools :: "nat \<Rightarrow> (string, pool_config) hash_map \<Rightarrow> config_error + unit" where
  "validate_pools http_ms [] = Inr ()"
| "validate_pools http_ms ((name, p) # ps) =
     res_bind (validate_pool http_ms name p) (\<lambda>_. validate_pools http_ms ps)"

definition validate ::
  "(string \<Rightarrow> string + string) \<Rightarrow> (string \<Rightarrow> string option) \<Rightarrow> config \<Rightarrow> config_error + unit" where
  "validate parse_url parse_addr c =
     res_bind (validate_server parse_addr (cf_server c)) (\<lambda>_.
     res_bind (case au_jwt (cf_auth c) of Some j \<Rightarrow> validate_jwt parse_url j | None \<Rightarrow> Inr ()) (\<lambda>_.
     res_bind (validate_tokens (cf_pools c) (map snd (au_static_tokens (cf_auth c)))) (\<lambda>_.
     validate_pools (http_timeout_ms (cf_server c)) (cf_pools c))))"

section \<open>Entry points\<close>

record 'f config_io =
  io_sha256 :: "bytes \<Rightarrow> bytes"
  io_read_file :: "string \<Rightarrow> string option"
  io_parse_json :: "string \<Rightarrow> 'f json option"
  io_parse_url :: "string \<Rightarrow> string + string"
  io_parse_addr :: "string \<Rightarrow> string option"

definition config_validate :: "'f config_io \<Rightarrow> config \<Rightarrow> config_error + config" where
  "config_validate cio c = res_bind (validate (io_parse_url cio) (io_parse_addr cio) c) (\<lambda>_. Inr c)"

definition is_legacy_document :: "'f json \<Rightarrow> bool" where
  "is_legacy_document v = (case v of JObject m \<Rightarrow> list_ex (\<lambda>(_, x). has_connection_string x) m | _ \<Rightarrow> False)"

definition from_legacy_value :: "(bytes \<Rightarrow> bytes) \<Rightarrow> 'f json \<Rightarrow> config_error + config" where
  "from_legacy_value sha256 v =
     (case legacy_entries_of v of None \<Rightarrow> Inl CfgJson | Some es \<Rightarrow> from_legacy_entries sha256 es)"

definition from_new_value :: "(bytes \<Rightarrow> bytes) \<Rightarrow> 'f json \<Rightarrow> config_error + config" where
  "from_new_value sha256 v = (case raw_config_of v of None \<Rightarrow> Inl CfgJson | Some raw \<Rightarrow> from_raw_config sha256 raw)"

definition from_json :: "'f config_io \<Rightarrow> string \<Rightarrow> config_error + config" where
  "from_json cio json =
     (case io_parse_json cio json of
        None \<Rightarrow> Inl CfgJson
      | Some v \<Rightarrow>
          res_bind
            (if is_legacy_document v then from_legacy_value (io_sha256 cio) v else from_new_value (io_sha256 cio) v)
            (config_validate cio))"

definition from_path :: "'f config_io \<Rightarrow> string \<Rightarrow> config_error + config" where
  "from_path cio path =
     (case io_read_file cio path of None \<Rightarrow> Inl (CfgRead path) | Some json \<Rightarrow> from_json cio json)"

definition DEFAULT_CONFIG_PATH :: string where
  "DEFAULT_CONFIG_PATH = ''./srh-config/tokens.json''"

definition from_environment :: "'f config_io \<Rightarrow> (string \<Rightarrow> string option) \<Rightarrow> config_error + config" where
  "from_environment cio get =
     (let mode = (case get ''SRH_MODE'' of Some m \<Rightarrow> m | None \<Rightarrow> ''file'') in
      res_bind
        (if mode = ''env'' then from_env_mode (io_sha256 cio) get
         else if mode = ''file''
         then from_path cio (case get ''SRH_CONFIG_PATH'' of Some p \<Rightarrow> p | None \<Rightarrow> DEFAULT_CONFIG_PATH)
         else Inl (CfgInvalidEnvironment ''SRH_MODE'' ''expected `file` or `env`''))
        (\<lambda>c. res_bind (apply_server_overrides get c) (config_validate cio)))"

section \<open>What validation guarantees\<close>

definition pool_sound :: "nat \<Rightarrow> pool_config \<Rightarrow> bool" where
  "pool_sound http_ms p \<longleftrightarrow>
     expose (connection_string p) \<noteq> [] \<and> 0 < max_connections p \<and> 0 < max_waiters p
     \<and> 0 < bc_failure_threshold (pc_breaker p) \<and> 0 < bc_cooldown_ms (pc_breaker p)
     \<and> 0 < command_timeout_ms p \<and> 0 < acquire_timeout_ms p
     \<and> acquire_timeout_ms p + 2 * command_timeout_ms p < http_ms"

definition server_sound :: "server_config \<Rightarrow> bool" where
  "server_sound sv \<longleftrightarrow>
     0 < sv_port sv \<and> 0 < max_body_bytes sv \<and> 0 < max_pipeline_commands sv \<and> 0 < max_request_elements sv
     \<and> 0 < http_timeout_ms sv \<and> 0 < max_in_flight (sv_load sv) \<and> 0 < max_response_bytes (sv_load sv)
     \<and> 0 < shed_retry_after_secs (sv_load sv) \<and> 0 < body_read_timeout_ms (sv_load sv)"

lemma validate_nonzero_Inr [simp]: "validate_nonzero name n = Inr u \<longleftrightarrow> 0 < n"
  by (simp add: validate_nonzero_def)

lemma validate_pool_sound: "validate_pool http_ms name p = Inr u \<Longrightarrow> pool_sound http_ms p"
  by (auto simp: validate_pool_def res_bind_Inr_iff pool_sound_def rust_arith split: option.splits
      bind_splits)

lemma validate_pools_sound:
  "validate_pools http_ms ps = Inr u \<Longrightarrow> (name, p) \<in> set ps \<Longrightarrow> pool_sound http_ms p"
  by (induction http_ms ps rule: validate_pools.induct) (auto simp: res_bind_Inr_iff intro: validate_pool_sound)

lemma validate_tokens_sound:
  "validate_tokens pools ts = Inr u \<Longrightarrow> t \<in> set ts \<Longrightarrow> \<exists>p. hm_get pools (st_pool t) = Some p"
  by (induction pools ts rule: validate_tokens.induct) (auto simp: res_bind_Inr_iff)

lemma validate_server_sound: "validate_server parse_addr sv = Inr u \<Longrightarrow> server_sound sv"
  by (auto simp: validate_server_def res_bind_Inr_iff server_sound_def)

lemma from_environment_validated:
  "from_environment cio get = Inr c \<Longrightarrow> validate (io_parse_url cio) (io_parse_addr cio) c = Inr ()"
  by (auto simp: from_environment_def config_validate_def res_bind_Inr_iff Let_def)

lemma validated_token_pool:
  assumes "validate parse_url parse_addr c = Inr ()" and "(digest, t) \<in> set (au_static_tokens (cf_auth c))"
  shows "\<exists>p. hm_get (cf_pools c) (st_pool t) = Some p"
  using assms image_eqI [of t snd "(digest, t)"]
  by (auto simp: validate_def res_bind_Inr_iff dest!: validate_tokens_sound)

text \<open>
  C23. A configuration that \<open>from_environment\<close> accepts, from either mode, has positive limits and
  a non-empty connection string for every pool, and for every pool the worst case of a request,
  one acquisition and a command with its reset, takes strictly less than the HTTP deadline; and
  every static token is routed to a pool that exists.
\<close>

theorem accepted_configuration_sound:
  assumes "from_environment cio get = Inr c"
  shows "server_sound (cf_server c)
    \<and> (\<forall>(name, p) \<in> set (cf_pools c). pool_sound (http_timeout_ms (cf_server c)) p)
    \<and> (\<forall>(digest, t) \<in> set (au_static_tokens (cf_auth c)). \<exists>p. hm_get (cf_pools c) (st_pool t) = Some p)"
proof -
  note v = from_environment_validated [OF assms]
  then have "server_sound (cf_server c)"
    by (auto simp: validate_def res_bind_Inr_iff intro: validate_server_sound)
  moreover from v have "pool_sound (http_timeout_ms (cf_server c)) p" if "(name, p) \<in> set (cf_pools c)" for name p
    using that by (auto simp: validate_def res_bind_Inr_iff intro: validate_pools_sound)
  moreover note validated_token_pool [OF v]
  ultimately show ?thesis by fast
qed

definition sample_env :: "string \<Rightarrow> string option" where
  "sample_env name =
     (if name = ''SRH_MODE'' then Some ''env'' else if name = ''SRH_TOKEN'' then Some ''t''
      else if name = ''SRH_CONNECTION_STRING'' then Some ''redis://h'' else None)"

definition sample_io :: "unit config_io" where
  "sample_io =
     \<lparr>io_sha256 = (\<lambda>s. s), io_read_file = (\<lambda>_. None), io_parse_json = (\<lambda>_. None), io_parse_url = (\<lambda>_. Inr ''https''), io_parse_addr = (\<lambda>_. None)\<rparr>"

lemma sample_config:
  "\<exists>c. from_environment sample_io sample_env = Inr c \<and> au_jwt (cf_auth c) = None \<and> sv_tls (cf_server c) = None
     \<and> au_static_tokens (cf_auth c) = [(''t'', default_token ''default'' True)]"
  by (simp add: from_environment_def sample_env_def sample_io_def from_env_mode_def required_def parse_env_def
      apply_server_overrides_def parse_bool_env_def config_validate_def validate_def validate_server_def
      validate_nonzero_def ensure_def default_server_config_def default_token_def
      validate_pool_def pool_config_new_def breaker_config_from_def default_raw_breaker_config_def saturating_mul_def u64_max_def
      checked_mul_def checked_add_def digest_token_def Let_def)

theorem accepted_configuration_sound_witness:
  "\<exists>c. from_environment sample_io sample_env = Inr c \<and> server_sound (cf_server c)"
  using sample_config accepted_configuration_sound by blast

section \<open>Documents and schemas\<close>

lemma res_bind_Inl_iff: "res_bind m k = Inl e \<longleftrightarrow> m = Inl e \<or> (\<exists>a. m = Inr a \<and> k a = Inl e)"
  by (cases m) auto

lemma ensure_Inl_iff: "ensure b e = Inl e' \<longleftrightarrow> \<not> b \<and> e = e'"
  by (simp add: ensure_def)

lemma validate_nonzero_not_json [simp]: "validate_nonzero name n \<noteq> Inl CfgJson"
  by (simp add: validate_nonzero_def ensure_Inl_iff)

lemma parse_hex_pairs_not_json [simp]: "parse_hex_pairs s \<noteq> Inl CfgJson"
  by (induction s rule: parse_hex_pairs.induct) (auto simp: invalid_digest_hex_def res_bind_Inl_iff split: option.splits)

lemma parse_configured_digest_not_json [simp]: "parse_configured_digest sha256 token \<noteq> Inl CfgJson"
  by (auto simp: parse_configured_digest_def split: option.splits)

lemma load_static_tokens_not_json [simp]: "load_static_tokens sha256 ts tokens \<noteq> Inl CfgJson"
  by (induction sha256 ts tokens rule: load_static_tokens.induct) (auto simp: res_bind_Inl_iff)

lemma load_legacy_not_json [simp]: "load_legacy sha256 es tokens pools \<noteq> Inl CfgJson"
  by (induction sha256 es tokens pools rule: load_legacy.induct) (auto simp: Let_def split: option.splits)

lemma validate_tokens_not_json [simp]: "validate_tokens pools ts \<noteq> Inl CfgJson"
  by (induction pools ts rule: validate_tokens.induct) (auto simp: res_bind_Inl_iff ensure_Inl_iff split: option.splits)

lemma validate_pools_not_json [simp]: "validate_pools http_ms ps \<noteq> Inl CfgJson"
proof -
  have "validate_pool http_ms name p \<noteq> Inl CfgJson" for name p
    by (auto simp: validate_pool_def res_bind_Inl_iff ensure_Inl_iff Let_def split: option.splits)
  then show ?thesis by (induction http_ms ps rule: validate_pools.induct) (auto simp: res_bind_Inl_iff)
qed

lemma validate_not_json [simp]: "validate parse_url parse_addr c \<noteq> Inl CfgJson"
  by (auto simp: validate_def validate_server_def validate_jwt_def validate_introspection_def res_bind_Inl_iff
      ensure_Inl_iff split: option.splits sum.splits if_splits)

text \<open>
  C33. A configuration text is refused as malformed exactly if it is not JSON or its value does not fit the schema of
  its kind: every field of the right type and within the range of its integer type, the required fields present, and, in the new
  form, no field that is not declared, at any level. So a misspelled setting is an error instead of a silent default.
  A text with a token entry that has a connection string is of the legacy form, whose entries may
  have further fields.
\<close>

theorem malformed_iff_misfit:
  "from_json cio json = Inl CfgJson \<longleftrightarrow>
     (case io_parse_json cio json of
        None \<Rightarrow> True
      | Some v \<Rightarrow> \<not> fits (if is_legacy_document v then SMap legacy_token_schema else config_schema) v)"
proof (cases "io_parse_json cio json")
  case None
  then show ?thesis by (simp add: from_json_def)
next
  case (Some v)
  have "from_legacy_value sha256 v = Inl CfgJson \<longleftrightarrow> \<not> fits (SMap legacy_token_schema) v" for sha256
    using decidesD [OF decides_map [OF decides_legacy_token], of v]
    by (auto simp: from_legacy_value_def legacy_entries_of_def from_legacy_entries_def res_bind_Inl_iff
        simp del: fits.simps split: option.splits)
  moreover have "from_new_value sha256 v = Inl CfgJson \<longleftrightarrow> \<not> fits config_schema v" for sha256
    using decidesD [OF decides_config, of v]
    by (auto simp: from_new_value_def from_raw_config_def res_bind_Inl_iff Let_def simp del: fits.simps split: option.splits)
  ultimately show ?thesis
    using Some by (auto simp: from_json_def config_validate_def res_bind_Inl_iff simp del: fits.simps)
qed

section \<open>Configured digests\<close>

lemma hex_nibble_digit: "n < 16 \<Longrightarrow> hex_nibble (hex_digit n) = Some n"
  by (auto simp: hex_nibble_def hex_digit_def)

lemma hex_nibble_upper: "n < 16 \<Longrightarrow> hex_nibble (ascii_upper_char (hex_digit n)) = Some n"
  by (auto simp: hex_nibble_def hex_digit_def ascii_upper_char_def)

lemma parse_hex_pairs_hex:
  "parse_hex_pairs (digest_hex d) = Inr d"
  "parse_hex_pairs (to_ascii_uppercase (digest_hex d)) = Inr d"
proof -
  have byte: "byte_of c div 16 < 16" "byte_of c mod 16 < 16" "byte_of c div 16 * 16 + byte_of c mod 16 = byte_of c" for c
    using byte_of_less [of c] by (simp_all add: less_mult_imp_div_less)
  show "parse_hex_pairs (digest_hex d) = Inr d"
    by (induction d) (simp_all add: digest_hex_def hex_byte_def hex_nibble_digit byte)
  show "parse_hex_pairs (to_ascii_uppercase (digest_hex d)) = Inr d"
    by (induction d) (simp_all add: digest_hex_def hex_byte_def hex_nibble_upper byte to_ascii_uppercase_def)
qed

lemma length_digest_hex: "length (digest_hex d) = 2 * length d"
  by (induction d) (simp_all add: digest_hex_def hex_byte_def)

text \<open>
  A token key \<open>sha256:\<close> followed by the hexadecimal digits of a 32-byte digest, in lower or
  upper case, is read back as exactly that digest, the form in which \<open>digest_hex\<close> prints it
  for bucket keys and legacy pool names.
\<close>

theorem configured_digest_roundtrip:
  assumes "length d = 32"
  shows "parse_configured_digest sha256 (''sha256:'' @ digest_hex d) = Inr d
    \<and> parse_configured_digest sha256 (''sha256:'' @ to_ascii_uppercase (digest_hex d)) = Inr d"
  using assms by (simp add: parse_configured_digest_def strip_prefix_def length_digest_hex parse_hex_pairs_hex)

theorem configured_digest_roundtrip_witness:
  "parse_configured_digest (\<lambda>s. s) (''sha256:'' @ digest_hex (replicate 32 (char_of (171::nat)))) =
     Inr (replicate 32 (char_of (171::nat)))"
  using configured_digest_roundtrip [of "replicate 32 (char_of (171::nat))" "\<lambda>s. s"] by simp

section \<open>Two keys for one token\<close>

text \<open>
  C39. A token can be configured in clear and by its digest. Both keys in one file are accepted, and which entry the token
  gets depends on the order in which the hash map is iterated: the one that comes last.
\<close>

theorem static_token_aliases_order_dependent:
  assumes "length (sha256 token) = 32" and "strip_prefix ''sha256:'' token = None"
  shows "load_static_tokens sha256 [(token, a), (''sha256:'' @ digest_hex (sha256 token), b)] [] =
      Inr [(sha256 token, static_token_of b)]
    \<and> load_static_tokens sha256 [(''sha256:'' @ digest_hex (sha256 token), b), (token, a)] [] =
      Inr [(sha256 token, static_token_of a)]"
proof -
  have "parse_configured_digest sha256 (''sha256:'' @ digest_hex (sha256 token)) = Inr (sha256 token)"
    using assms(1) by (simp add: parse_configured_digest_def strip_prefix_def length_digest_hex parse_hex_pairs_hex)
  moreover have "parse_configured_digest sha256 token = Inr (sha256 token)"
    using assms(2) by (simp add: parse_configured_digest_def digest_token_def)
  ultimately show ?thesis by simp
qed

definition reader_entry :: raw_static_token_config where
  "reader_entry = \<lparr>rt_pool = ''default'', rt_read_only = True, rt_allowed_commands = None, rt_blocked_commands = [],
     rt_allowed_script_sha256 = [], rt_key_prefix = None\<rparr>"

theorem static_token_aliases_order_dependent_witness:
  "load_static_tokens (\<lambda>_. replicate 32 CHR ''d'')
       [(''t'', reader_entry), (''sha256:'' @ digest_hex (replicate 32 CHR ''d''), reader_entry\<lparr>rt_read_only := False\<rparr>)] [] =
     Inr [(replicate 32 CHR ''d'', static_token_of (reader_entry\<lparr>rt_read_only := False\<rparr>))]"
  using static_token_aliases_order_dependent [of "\<lambda>_. replicate 32 CHR ''d''" "''t''" reader_entry] by (simp add: strip_prefix_def)

section \<open>Legacy files do not depend on the order of the map\<close>

definition legacy_token :: "(bytes \<Rightarrow> bytes) \<Rightarrow> string \<times> raw_legacy_token \<Rightarrow> bytes \<times> static_token_config" where
  "legacy_token sha256 = (\<lambda>(token, entry).
     (digest_token sha256 token, default_token (legacy_pool_name (digest_token sha256 token) entry) True))"

definition legacy_pool :: "(bytes \<Rightarrow> bytes) \<Rightarrow> string \<times> raw_legacy_token \<Rightarrow> string \<times> pool_config" where
  "legacy_pool sha256 = (\<lambda>(token, entry).
     (legacy_pool_name (digest_token sha256 token) entry, legacy_candidate entry))"

lemma same_legacy_pool_eq:
  "same_legacy_pool (legacy_candidate a) (legacy_candidate b) \<longleftrightarrow> legacy_candidate a = legacy_candidate b"
  by (auto simp: same_legacy_pool_def legacy_candidate_def pool_config_new_def)

lemma graph_insert: "hm_get P k = None \<Longrightarrow> Map.graph (hm_get (hm_insert k v P)) = insert (k, v) (Map.graph (hm_get P))"
  by (auto simp: Map.graph_def update_conv' split: if_splits)

text \<open>One entry of the loop in terms of the pair it stands for; only an entry with another definition for its pool is refused.\<close>

lemma load_legacy_entry:
  fixes T :: "(bytes, static_token_config) hash_map"
  assumes "legacy_pool sha256 te = (name, candidate)" and "ran (hm_get P) \<subseteq> range legacy_candidate"
  obtains T' err where "hm_get T' = (hm_get T)(fst (legacy_token sha256 te) \<mapsto> snd (legacy_token sha256 te))"
    and "load_legacy sha256 (te # es) T P =
      (case hm_get P name of
         None \<Rightarrow> load_legacy sha256 es T' (hm_insert name candidate P)
       | Some existing \<Rightarrow> if existing = candidate then load_legacy sha256 es T' P else Inl err)"
proof -
  obtain token entry where te: "te = (token, entry)" by (cases te)
  let ?T' = "hm_insert (digest_token sha256 token) (default_token name True) T"
  have name: "name = legacy_pool_name (digest_token sha256 token) entry" "candidate = legacy_candidate entry"
    using assms(1) by (simp_all add: legacy_pool_def te)
  have "\<exists>e'. existing = legacy_candidate e'" if "hm_get P name = Some existing" for existing
    using assms(2) that by (auto simp: ran_def)
  then have "load_legacy sha256 (te # es) T P =
      (case hm_get P name of
         None \<Rightarrow> load_legacy sha256 es ?T' (hm_insert name candidate P)
       | Some existing \<Rightarrow> if existing = candidate then load_legacy sha256 es ?T' P
           else Inl (CfgValidation (''legacy srh_id '' @ quote @ name @ quote @ '' has conflicting pool definitions'')))"
    by (auto simp: te name Let_def same_legacy_pool_eq split: option.splits)
  then show ?thesis by (intro that [of ?T']) (simp_all add: update_conv' legacy_token_def te name)
qed

lemma load_legacy_spec:
  assumes "ran (hm_get P) \<subseteq> range legacy_candidate"
  shows "case load_legacy sha256 es T P of
      Inl _ \<Rightarrow> \<not> single_valued (Map.graph (hm_get P) \<union> legacy_pool sha256 ` set es)
    | Inr (T', P') \<Rightarrow> single_valued (Map.graph (hm_get P) \<union> legacy_pool sha256 ` set es)
        \<and> Map.graph (hm_get P') = Map.graph (hm_get P) \<union> legacy_pool sha256 ` set es
        \<and> hm_get T' = hm_get T ++ map_of (rev (map (legacy_token sha256) es))"
  using assms
proof (induction es arbitrary: T P)
  case Nil
  have "single_valued (Map.graph (hm_get P))" by (auto simp: single_valued_def Map.graph_def)
  then show ?case by simp
next
  case (Cons te es)
  obtain name candidate where lp: "legacy_pool sha256 te = (name, candidate)" by fastforce
  then have range: "candidate \<in> range legacy_candidate" by (auto simp: legacy_pool_def split: prod.splits)
  obtain T' err where T': "hm_get T' = (hm_get T)(fst (legacy_token sha256 te) \<mapsto> snd (legacy_token sha256 te))"
    and step: "load_legacy sha256 (te # es) T P =
      (case hm_get P name of
         None \<Rightarrow> load_legacy sha256 es T' (hm_insert name candidate P)
       | Some existing \<Rightarrow> if existing = candidate then load_legacy sha256 es T' P else Inl err)"
    using load_legacy_entry [OF lp Cons.prems] by blast
  have upd: "hm_get T' ++ map_of (rev (map (legacy_token sha256) es)) =
      hm_get T ++ map_of (rev (map (legacy_token sha256) (te # es)))" by (simp add: T')
  consider (new) "hm_get P name = None" | (same) "hm_get P name = Some candidate"
    | (conflict) existing where "hm_get P name = Some existing" "existing \<noteq> candidate" by fastforce
  then show ?case
  proof cases
    case new
    then have "ran (hm_get (hm_insert name candidate P)) \<subseteq> range legacy_candidate"
      using Cons.prems range by (auto simp: update_conv' ran_def)
    note ih = Cons.IH [OF this, of T']
    have "Map.graph (hm_get (hm_insert name candidate P)) \<union> legacy_pool sha256 ` set es =
        Map.graph (hm_get P) \<union> legacy_pool sha256 ` set (te # es)"
      by (simp add: graph_insert [OF new] lp)
    with ih show ?thesis by (simp only: step new option.case upd)
  next
    case same
    then have "Map.graph (hm_get P) \<union> legacy_pool sha256 ` set (te # es) = Map.graph (hm_get P) \<union> legacy_pool sha256 ` set es"
      using lp by (auto simp: Map.graph_def)
    with Cons.IH [OF Cons.prems, of T'] same show ?thesis by (simp only: step option.case upd refl if_True)
  next
    case conflict
    then have "\<not> single_valued (Map.graph (hm_get P) \<union> legacy_pool sha256 ` set (te # es))"
      using lp by (auto simp: single_valued_def Map.graph_def)
    with conflict show ?thesis by (simp add: step)
  qed
qed

lemma graph_inject: "Map.graph m = Map.graph m' \<Longrightarrow> m = m'"
proof
  fix x
  assume "Map.graph m = Map.graph m'"
  then have "m x = Some y \<longleftrightarrow> m' x = Some y" for y by (auto simp: Map.graph_def set_eq_iff)
  then show "m x = m' x" by (metis not_Some_eq)
qed

lemma map_of_rev_perm:
  assumes "mset xs = mset ys" and "distinct (map fst xs)"
  shows "map_of (rev xs) = map_of (rev ys)"
proof -
  have "distinct (map fst ys)"
    using assms by (metis mset_eq_imp_distinct_iff mset_map)
  then have "map_of (rev xs) k = Some v \<longleftrightarrow> map_of (rev ys) k = Some v" for k v
    using assms mset_eq_setD [OF assms(1)] by (simp add: rev_map [symmetric])
  then show ?thesis by (metis ext not_Some_eq)
qed

definition loaded_alike :: "config_error + config \<Rightarrow> config_error + config \<Rightarrow> bool" where
  "loaded_alike r r' \<longleftrightarrow>
     (case (r, r') of
        (Inr c, Inr c') \<Rightarrow>
          cf_server c = cf_server c' \<and> hm_get (cf_pools c) = hm_get (cf_pools c')
          \<and> au_jwt (cf_auth c) = au_jwt (cf_auth c')
          \<and> hm_get (au_static_tokens (cf_auth c)) = hm_get (au_static_tokens (cf_auth c'))
      | (Inl _, Inl _) \<Rightarrow> True
      | _ \<Rightarrow> False)"

text \<open>
  C37. A legacy file is loaded into the same configuration, or refused, whatever the order in
  which the hash map of its tokens is iterated, provided no two of its tokens have the same
  digest: a pool named by several tokens is accepted exactly if all their definitions agree.
\<close>

theorem legacy_load_order_independent:
  assumes "mset es = mset es'" and "distinct (map (\<lambda>(token, _). sha256 token) es)"
  shows "loaded_alike (from_legacy_entries sha256 es) (from_legacy_entries sha256 es')"
proof -
  have sets: "legacy_pool sha256 ` set es = legacy_pool sha256 ` set es'"
    using mset_eq_setD [OF assms(1)] by simp
  have "mset (map (legacy_token sha256) es) = mset (map (legacy_token sha256) es')"
    using assms(1) by (metis mset_map)
  moreover have "map fst (map (legacy_token sha256) es) = map (\<lambda>(token, _). sha256 token) es"
    by (simp add: legacy_token_def digest_token_def case_prod_beta)
  ultimately have tokens: "map_of (rev (map (legacy_token sha256) es)) = map_of (rev (map (legacy_token sha256) es'))"
    using assms(2) map_of_rev_perm by metis
  have spec: "case load_legacy sha256 es [] [] of
      Inl _ \<Rightarrow> \<not> single_valued (legacy_pool sha256 ` set es)
    | Inr (T', P') \<Rightarrow> single_valued (legacy_pool sha256 ` set es)
        \<and> Map.graph (hm_get P') = legacy_pool sha256 ` set es
        \<and> hm_get T' = map_of (rev (map (legacy_token sha256) es))" for es
    using load_legacy_spec [of "[]" sha256 es "[]"] by (simp add: Map.graph_def cong: sum.case_cong)
  from spec [of es] spec [of es'] show ?thesis
    by (cases "load_legacy sha256 es [] []"; cases "load_legacy sha256 es' [] []")
      (auto simp: from_legacy_entries_def loaded_alike_def sets tokens
        intro!: graph_inject)
qed

definition legacy_sample :: "(string \<times> raw_legacy_token) list" where
  "legacy_sample =
     [(''a'', \<lparr>rl_srh_id = Some ''x'', rl_connection_string = ''redis://1'', rl_max_connections = 3\<rparr>),
      (''b'', \<lparr>rl_srh_id = Some ''x'', rl_connection_string = ''redis://1'', rl_max_connections = 3\<rparr>)]"

theorem legacy_load_order_independent_witness:
  "loaded_alike (from_legacy_entries (\<lambda>s. s) legacy_sample) (from_legacy_entries (\<lambda>s. s) (rev legacy_sample))"
  by (rule legacy_load_order_independent) (simp_all add: legacy_sample_def)

end
