(* ===== verification/Observability.thy ===== *)
theory Observability
  imports App_Error Config
begin

text \<open>
  The audit context and the request metrics of \<open>src/http/observability.rs\<close>. A request carries one
  audit context, which its handler fills and the \<open>Observe\<close> layer reads when the response is
  ready; the in-flight gauge is held by a guard of the request. Metrics are the list of counter
  increments; the audit log is the list of completion events; the measured latency is an argument.
  The properties show that metric labels do not follow what a client sends, that exactly the
  successful probes are left out of the log, and that the gauge returns to its value.
\<close>

section \<open>The audit context\<close>

definition COMMAND_LABEL_CAPACITY :: nat where
  "COMMAND_LABEL_CAPACITY = 32"

text \<open>\<open>CommandLabel\<close>: the used part of its array.\<close>

type_synonym command_label = bytes

definition label_uppercase :: "string \<Rightarrow> command_label" where
  "label_uppercase command = map ascii_upper_char (take COMMAND_LABEL_CAPACITY command)"

definition label_as_str :: "command_label \<Rightarrow> string" where
  "label_as_str label = (case from_utf8 label of Some s \<Rightarrow> s | None \<Rightarrow> ''-'')"

record audit_fields =
  au_identity :: "identity option"
  au_command :: "command_label option"
  au_pipeline_len :: nat

definition audit_default :: audit_fields where
  "audit_default = \<lparr>au_identity = None, au_command = None, au_pipeline_len = 0\<rparr>"

definition audit_identity :: "identity \<Rightarrow> audit_fields \<Rightarrow> audit_fields" where
  "audit_identity ident a = a\<lparr>au_identity := Some ident\<rparr>"

definition audit_command :: "string option \<Rightarrow> nat \<Rightarrow> audit_fields \<Rightarrow> audit_fields" where
  "audit_command command len a = a\<lparr>au_command := map_option label_uppercase command, au_pipeline_len := len\<rparr>"

section \<open>Recording a completed request\<close>

definition status_label :: "nat \<Rightarrow> string" where
  "status_label status =
     (if status \<in> {200, 400, 401, 403, 404, 405, 408, 413, 429, 500, 502, 503} then nat_text status else ''other'')"

definition is_probe :: "string \<Rightarrow> bool" where
  "is_probe endpoint \<longleftrightarrow> endpoint \<in> {''/health'', ''/ready''}"

definition endpoint_label :: "string \<Rightarrow> string" where
  "endpoint_label path =
     (if path \<in> {''/'', ''/pipeline'', ''/multi-exec'', ''/health'', ''/ready''} then path else ''other'')"

record audit_event =
  ev_subject :: string
  ev_pool :: string
  ev_command :: string
  ev_status :: nat
  ev_latency_ms :: nat
  ev_pipeline_len :: nat
  ev_endpoint :: string

text \<open>The registry: per endpoint and status label the completed requests and their durations, the in-flight gauge, the log.\<close>

record registry =
  rg_completed :: "(string \<times> string \<times> duration) list"
  rg_in_flight :: int
  rg_log :: "audit_event list"

definition record_request :: "duration \<Rightarrow> string \<Rightarrow> audit_fields \<Rightarrow> nat \<Rightarrow> registry \<Rightarrow> registry" where
  "record_request elapsed endpoint audit status rg =
     (let rg1 = rg\<lparr>rg_completed := (endpoint, status_label status, elapsed) # rg_completed rg\<rparr> in
      if is_probe endpoint \<and> 200 \<le> status \<and> status < 300 then rg1
      else rg1\<lparr>rg_log :=
        \<lparr>ev_subject = (case au_identity audit of None \<Rightarrow> ''-'' | Some i \<Rightarrow> subject i),
         ev_pool = (case au_identity audit of None \<Rightarrow> ''-'' | Some i \<Rightarrow> pool i),
         ev_command = (case au_command audit of None \<Rightarrow> ''-'' | Some l \<Rightarrow> label_as_str l),
         ev_status = status, ev_latency_ms = elapsed div 1000000,
         ev_pipeline_len = au_pipeline_len audit, ev_endpoint = endpoint\<rparr> # rg_log rg1\<rparr>)"

definition in_flight_enter :: "registry \<Rightarrow> registry" where
  "in_flight_enter rg = rg\<lparr>rg_in_flight := rg_in_flight rg + 1\<rparr>"

definition in_flight_drop :: "registry \<Rightarrow> registry" where
  "in_flight_drop rg = rg\<lparr>rg_in_flight := rg_in_flight rg - 1\<rparr>"

text \<open>
  The life of one observed request: \<open>call\<close> makes the context and enters the gauge; \<open>poll\<close> records
  when the inner future is ready; dropping the future, ready or not, releases the gauge. The
  outcome is the audit context and status the inner service ends with, or \<open>None\<close> when the
  future is dropped before.
\<close>

definition observe :: "duration \<Rightarrow> string \<Rightarrow> (audit_fields \<Rightarrow> (audit_fields \<times> nat) option) \<Rightarrow> registry \<Rightarrow> registry" where
  "observe elapsed path inner rg =
     (let endpoint = endpoint_label path; rg1 = in_flight_enter rg in
      in_flight_drop
        (case inner audit_default of
           None \<Rightarrow> rg1
         | Some (audit, status) \<Rightarrow> record_request elapsed endpoint audit status rg1))"

section \<open>Registered metrics\<close>

text \<open>\<open>register_metrics\<close>: the counters with their labels and the gauges set to zero at start.\<close>

definition auth_failure_kinds :: "string list" where
  "auth_failure_kinds = [''missing_or_malformed'', ''rejected'', ''forbidden'', ''unavailable'']"

definition shed_causes :: "string list" where
  "shed_causes = [''global_limit'', ''pool_queue_full'', ''acquire_timeout'', ''breaker_open'',
     ''response_too_large'', ''debt_forgiven_by_eviction'']"

definition pool_series :: "string list" where
  "pool_series = [''srh_pool_builds_total'', ''srh_pool_evictions_total'', ''srh_pool_active_connections'',
     ''srh_pool_permits_in_use'', ''srh_pool_waiter_depth'', ''srh_pool_breaker_state'']"

definition register_metrics :: "config \<Rightarrow> (string \<times> string) list" where
  "register_metrics cfg =
     [(''srh_http_requests_total'', ''-''), (''srh_http_request_duration_seconds'', ''-''),
      (''srh_http_in_flight'', ''''), (''srh_rate_limit_rejections_total'', '''')]
     @ map (Pair ''srh_auth_failures_total'') auth_failure_kinds
     @ map (Pair ''srh_shed_total'') shed_causes
     @ concat (map (\<lambda>p. map (\<lambda>name. (name, fst p)) pool_series) (cf_pools cfg))"

section \<open>Labels and log\<close>

definition endpoint_labels :: "string list" where
  "endpoint_labels = [''/'', ''/pipeline'', ''/multi-exec'', ''/health'', ''/ready'', ''other'']"

definition status_labels :: "string list" where
  "status_labels = map nat_text [200, 400, 401, 403, 404, 405, 408, 413, 429, 500, 502, 503] @ [''other'']"

text \<open>
  Observing a request keeps the in-flight gauge as it was, whether the request completes or is
  dropped. A dropped request records nothing. A completed one adds one sample, under one of six
  endpoint labels and thirteen status labels whatever path the client asked for, and one log
  line unless it is a successful probe.
\<close>

theorem observe_accounts_once:
  "rg_in_flight (observe elapsed path inner rg) = rg_in_flight rg
   \<and> (case inner audit_default of
        None \<Rightarrow> observe elapsed path inner rg = rg
      | Some (audit, status) \<Rightarrow>
          (\<exists>e \<in> set endpoint_labels. \<exists>l \<in> set status_labels.
             rg_completed (observe elapsed path inner rg) = (e, l, elapsed) # rg_completed rg)
          \<and> length (rg_log (observe elapsed path inner rg)) = length (rg_log rg)
             + (if path \<in> {''/health'', ''/ready''} \<and> 200 \<le> status \<and> status < 300 then 0 else 1))"
proof (cases "inner audit_default")
  case None
  then show ?thesis by (simp add: observe_def in_flight_enter_def in_flight_drop_def)
next
  case (Some r)
  obtain audit status where r: "r = (audit, status)" by fastforce
  have e: "endpoint_label path \<in> set endpoint_labels" by (simp add: endpoint_label_def endpoint_labels_def)
  have l: "status_label status \<in> set status_labels" by (auto simp: status_label_def status_labels_def)
  have p: "is_probe (endpoint_label path) \<longleftrightarrow> path \<in> {''/health'', ''/ready''}"
    by (simp add: is_probe_def endpoint_label_def)
  show ?thesis
    using e l p by (auto simp: Some r observe_def record_request_def Let_def in_flight_enter_def in_flight_drop_def)
qed

end
