(* ===== verification/Auth.thy ===== *)
theory Auth
  imports Config
begin

text \<open>
  Static token authentication (\<open>src/adapters/static_auth.rs\<close>) and the chain of authenticators
  (\<open>src/adapters/auth_chain.rs\<close>). An authenticator is a function of the bearer text and a state
  \<open>'s\<close>, which the links of a chain share; SHA-256 is a parameter. The property connects the
  configuration with authentication: a static identity always names a configured pool.
\<close>

type_synonym 's authenticator = "string \<Rightarrow> 's \<Rightarrow> (auth_error + identity option) \<times> 's"

definition static_identity :: "bytes \<Rightarrow> static_token_config \<Rightarrow> identity" where
  "static_identity digest token =
     (let key = digest_hex digest in
      \<lparr>subject = take 8 key, bucket_key = key, pool = st_pool token, read_only = st_read_only token,
       is_admin = False, legacy = st_legacy token, allowed_commands = st_allowed_commands token,
       blocked_commands = st_blocked_commands token,
       allowed_script_sha256 = st_allowed_script_sha256 token, key_prefix = st_key_prefix token\<rparr>)"

definition static_auth_new :: "(bytes, static_token_config) hash_map \<Rightarrow> (bytes, identity) hash_map" where
  "static_auth_new tokens = map (\<lambda>(digest, token). (digest, static_identity digest token)) tokens"

definition static_authenticate :: "(bytes \<Rightarrow> bytes) \<Rightarrow> (bytes, identity) hash_map \<Rightarrow> 's authenticator" where
  "static_authenticate sha256 identities bearer s = (Inr (hm_get identities (sha256 bearer)), s)"

fun auth_chain :: "'s authenticator list \<Rightarrow> 's authenticator" where
  "auth_chain [] bearer s = (Inl AuthRejected, s)"
| "auth_chain (link # links) bearer s =
     (case link bearer s of
        (Inl e, s1) \<Rightarrow> (Inl e, s1)
      | (Inr (Some ident), s1) \<Rightarrow> (Inr (Some ident), s1)
      | (Inr None, s1) \<Rightarrow> auth_chain links bearer s1)"

section \<open>Contract of an authenticator\<close>

text \<open>
  The laws the handlers rely on: every identity that is given out satisfies the policy \<open>P\<close>
  (of the configuration), whatever the state \<open>inv\<close> the authenticator is in.
\<close>

locale authenticator =
  fixes authenticate :: "'s authenticator"
    and inv :: "'s \<Rightarrow> bool"
    and P :: "identity \<Rightarrow> bool"
  assumes gives: "inv s \<Longrightarrow> authenticate bearer s = (Inr (Some ident), s') \<Longrightarrow> P ident"
    and keeps: "inv s \<Longrightarrow> authenticate bearer s = (r, s') \<Longrightarrow> inv s'"
begin

lemma weaken: "(\<And>ident. P ident \<Longrightarrow> Q ident) \<Longrightarrow> authenticator authenticate inv Q"
  using gives keeps by unfold_locales blast+

lemma chained:
  assumes "\<forall>link \<in> set links. authenticator link inv P"
  shows "authenticator (auth_chain (authenticate # links)) inv P"
proof
  fix s s' bearer ident r
  assume i: "inv s"
  have rest: "(fst (auth_chain links bearer s) = Inr (Some ident) \<longrightarrow> P ident) \<and> inv (snd (auth_chain links bearer s))"
    if "inv s" for s :: 's and ident
    using assms that
  proof (induction links arbitrary: s)
    case (Cons link links)
    then have link: "authenticator link inv P" by simp
    obtain q s1 where q: "link bearer s = (q, s1)" by fastforce
    have "inv s1" using link Cons.prems(2) q by (auto simp: authenticator_def)
    moreover have "q = Inr (Some ident) \<longrightarrow> P ident"
      using link Cons.prems(2) q by (auto simp: authenticator_def)
    ultimately show ?case
      using Cons.IH [of s1] Cons.prems(1) q by (auto split: sum.splits option.splits)
  qed auto
  obtain q s1 where q: "authenticate bearer s = (q, s1)" by fastforce
  have i1: "inv s1" by (rule keeps [OF i q])
  show "P ident" if "auth_chain (authenticate # links) bearer s = (Inr (Some ident), s')"
    using that q gives [OF i, of bearer ident s1] rest [OF i1, of ident]
    by (auto split: sum.splits option.splits)
  show "inv s'" if "auth_chain (authenticate # links) bearer s = (r, s')"
    using that q i1 rest [OF i1] by (auto split: sum.splits option.splits)
qed

end

section \<open>Static identities\<close>

lemma hm_get_static_auth_new:
  "hm_get (static_auth_new tokens) d = map_option (static_identity d) (hm_get tokens d)"
  by (induction tokens) (auto simp: static_auth_new_def)

text \<open>The identities a table of static tokens stands for.\<close>

definition static_identities :: "(bytes, static_token_config) hash_map \<Rightarrow> identity set" where
  "static_identities tokens = (\<lambda>(digest, t). static_identity digest t) ` set tokens"

interpretation static: authenticator "static_authenticate sha256 (static_auth_new tokens)" "\<lambda>_. True"
    "\<lambda>ident. ident \<in> static_identities tokens"
  for sha256 tokens
  by unfold_locales
    (force simp: static_authenticate_def hm_get_static_auth_new static_identities_def dest: map_of_SomeD)+

end
