(* ===== verification/Parse.thy ===== *)
theory Parse
  imports Convert
begin

text \<open>
  The request parser of \<open>src/http/parse.rs\<close>. The JSON deserializer of \<open>serde_json\<close> is a
  parameter: for a body it delivers a \<open>doc\<close>, the values it will hand to the visitors in the
  order they ask, with the places where it will report a syntax error, and whether only white
  space follows. The visitors of the source walk that document and share two cells, the
  remaining element budget and the limit that was exceeded; a deserializer error has no
  content the source looks at, so a visitor returns an \<open>option\<close> and the cells.

  Properties: arguments are converted as \<open>json_value_to_bytes\<close> converts the value the
  document denotes, whatever it nests; a well-formed request succeeds exactly if it fits the
  limits, with the right error otherwise; and no request, well-formed or not, yields more
  commands or elements than allowed.
\<close>

section \<open>What the deserializer delivers\<close>

text \<open>
  A sequence and a map end properly or with a syntax error (the flag). A map entry whose key is
  not followed by a colon is a \<open>KeyOnly\<close>; one whose key string is malformed is \<open>KeyBad\<close>.
\<close>

datatype 'f doc =
    DErr
  | DNull
  | DBool bool
  | DU64 nat
  | DI64 int
  | DF64 'f
  | DStr bytes
  | DSeq "'f doc list" bool
  | DMap "'f entry list" bool
and 'f entry = KeyBad | KeyOnly bytes | Entry bytes "'f doc"

section \<open>Budget\<close>

datatype parse_error = ParseInvalid | ParsePipelineTooLarge | ParseRequestTooComplex

datatype limit_exceeded = PipelineCommands | RequestElements

record cells =
  remaining :: nat
  exceeded_limit :: "limit_exceeded option"

definition classify :: "limit_exceeded option \<Rightarrow> parse_error" where
  "classify ex =
     (case ex of
        Some PipelineCommands \<Rightarrow> ParsePipelineTooLarge
      | Some RequestElements \<Rightarrow> ParseRequestTooComplex
      | None \<Rightarrow> ParseInvalid)"

definition parse_charge :: "cells \<Rightarrow> unit option \<times> cells" where
  "parse_charge c =
     (case checked_sub (remaining c) 1 of
        None \<Rightarrow> (None, c\<lparr>exceeded_limit := Some RequestElements\<rparr>)
      | Some n \<Rightarrow> (Some (), c\<lparr>remaining := n\<rparr>))"

text \<open>Run a step that may fail and continue with its value: the \<open>?\<close> operator.\<close>

definition try_step :: "'a option \<times> cells \<Rightarrow> ('a \<Rightarrow> cells \<Rightarrow> 'b option \<times> cells) \<Rightarrow> 'b option \<times> cells" where
  "try_step r k = (case r of (None, c) \<Rightarrow> (None, c) | (Some a, c) \<Rightarrow> k a c)"

lemma try_step_simps [simp]:
  "try_step (None, c) k = (None, c)"
  "try_step (Some a, c) k = k a c"
  by (simp_all add: try_step_def)

lemma try_step_cong [fundef_cong]:
  assumes "r = r'" and "\<And>a c. r' = (Some a, c) \<Longrightarrow> k a c = k' a c"
  shows "try_step r k = try_step r' k'"
  using assms by (auto simp: try_step_def split: prod.splits option.splits)

section \<open>Values\<close>

text \<open>A key is charged before it is read; \<open>None\<close> is a malformed one.\<close>

definition key_seed :: "bytes option \<Rightarrow> cells \<Rightarrow> bytes option \<times> cells" where
  "key_seed key c = try_step (parse_charge c) (\<lambda>_ c. (key, c))"

lemma key_seed_bind [simp]:
  "try_step (key_seed None c) f = try_step (parse_charge c) (\<lambda>_ c. (None, c))"
  "try_step (key_seed (Some k) c) f = try_step (parse_charge c) (\<lambda>_. f k)"
  by (simp_all add: key_seed_def try_step_def split: prod.splits option.splits)

fun value_visitor :: "'f serde \<Rightarrow> 'f doc \<Rightarrow> cells \<Rightarrow> 'f json option \<times> cells"
  and value_visit_seq :: "'f serde \<Rightarrow> 'f doc list \<Rightarrow> bool \<Rightarrow> cells \<Rightarrow> 'f json list option \<times> cells"
  and value_visit_map ::
    "'f serde \<Rightarrow> 'f entry list \<Rightarrow> bool \<Rightarrow> (bytes, 'f json) btree_map \<Rightarrow> cells
      \<Rightarrow> (bytes, 'f json) btree_map option \<times> cells"
where
  "value_visitor sj DErr c = (None, c)"
| "value_visitor sj DNull c = (Some JNull, c)"
| "value_visitor sj (DBool b) c = (Some (JBool b), c)"
| "value_visitor sj (DU64 n) c = (Some (JNumber (NumU64 n)), c)"
| "value_visitor sj (DI64 i) c = (Some (JNumber (number_from_i64 i)), c)"
| "value_visitor sj (DF64 x) c = (map_option JNumber (number_from_f64 sj x), c)"
| "value_visitor sj (DStr s) c = (Some (JString s), c)"
| "value_visitor sj (DSeq ds closed) c =
     try_step (value_visit_seq sj ds closed c) (\<lambda>vs c. (Some (JArray vs), c))"
| "value_visitor sj (DMap es closed) c =
     try_step (value_visit_map sj es closed [] c) (\<lambda>m c. (Some (JObject m), c))"
| "value_visit_seq sj [] closed c = (if closed then Some [] else None, c)"
| "value_visit_seq sj (d # ds) closed c =
     try_step (parse_charge c) (\<lambda>_ c.
     try_step (value_visitor sj d c) (\<lambda>v c.
     try_step (value_visit_seq sj ds closed c) (\<lambda>vs c. (Some (v # vs), c))))"
| "value_visit_map sj [] closed m c = (if closed then Some m else None, c)"
| "value_visit_map sj (KeyBad # es) closed m c = try_step (key_seed None c) (\<lambda>_ c. (None, c))"
| "value_visit_map sj (KeyOnly k # es) closed m c = try_step (key_seed (Some k) c) (\<lambda>_ c. (None, c))"
| "value_visit_map sj (Entry k d # es) closed m c =
     try_step (key_seed (Some k) c) (\<lambda>k c.
     try_step (parse_charge c) (\<lambda>_ c.
     try_step (value_visitor sj d c) (\<lambda>v c.
     value_visit_map sj es closed (bt_insert k v m) c)))"

section \<open>Arguments, commands and pipelines\<close>

definition nested :: "'f serde \<Rightarrow> 'f json \<Rightarrow> bytes option" where
  "nested sj v = (case json_value_to_bytes sj v of Inr b \<Rightarrow> Some b | Inl _ \<Rightarrow> None)"

fun argument_visitor :: "'f serde \<Rightarrow> 'f doc \<Rightarrow> cells \<Rightarrow> bytes option \<times> cells" where
  "argument_visitor sj DErr c = (None, c)"
| "argument_visitor sj DNull c = (Some ''null'', c)"
| "argument_visitor sj (DBool b) c = (Some (if b then ''true'' else ''false''), c)"
| "argument_visitor sj (DU64 n) c = (Some (number_to_string sj (NumU64 n)), c)"
| "argument_visitor sj (DI64 i) c = (Some (number_to_string sj (number_from_i64 i)), c)"
| "argument_visitor sj (DF64 x) c = (map_option (number_to_string sj) (number_from_f64 sj x), c)"
| "argument_visitor sj (DStr s) c = (Some s, c)"
| "argument_visitor sj (DSeq ds closed) c =
     try_step (value_visit_seq sj ds closed c) (\<lambda>vs c. (nested sj (JArray vs), c))"
| "argument_visitor sj (DMap es closed) c =
     try_step (value_visit_map sj es closed [] c) (\<lambda>m c. (nested sj (JObject m), c))"

definition argument_seed :: "'f serde \<Rightarrow> 'f doc \<Rightarrow> cells \<Rightarrow> bytes option \<times> cells" where
  "argument_seed sj d c = try_step (parse_charge c) (\<lambda>_ c. argument_visitor sj d c)"

definition name_seed :: "'f doc \<Rightarrow> cells \<Rightarrow> string option \<times> cells" where
  "name_seed d c =
     try_step (parse_charge c) (\<lambda>_ c. (case d of DStr s \<Rightarrow> Some s | _ \<Rightarrow> None, c))"

fun collect_arguments :: "'f serde \<Rightarrow> 'f doc list \<Rightarrow> bool \<Rightarrow> cells \<Rightarrow> bytes list option \<times> cells" where
  "collect_arguments sj [] closed c = (if closed then Some [] else None, c)"
| "collect_arguments sj (d # ds) closed c =
     try_step (argument_seed sj d c) (\<lambda>a c.
     try_step (collect_arguments sj ds closed c) (\<lambda>args c. (Some (a # args), c)))"

fun command_visitor :: "'f serde \<Rightarrow> 'f doc list \<Rightarrow> bool \<Rightarrow> cells \<Rightarrow> redis_command option \<times> cells" where
  "command_visitor sj [] closed c = (None, c)"
| "command_visitor sj (d # ds) closed c =
     try_step (name_seed d c) (\<lambda>name c.
     try_step (collect_arguments sj ds closed c) (\<lambda>args c.
     (Some \<lparr>cmd_name = name, cmd_args = args\<rparr>, c)))"

definition command_seed :: "'f serde \<Rightarrow> 'f doc \<Rightarrow> cells \<Rightarrow> redis_command option \<times> cells" where
  "command_seed sj d c =
     try_step (parse_charge c) (\<lambda>_ c.
       case d of DSeq ds closed \<Rightarrow> command_visitor sj ds closed c | _ \<Rightarrow> (None, c))"

text \<open>
  The loop over the commands of a pipeline: \<open>room\<close> is how many more may be pushed. After the last
  one the element that should not be there is skipped without materializing it; \<open>skips\<close> says
  whether the deserializer gets over it.
\<close>

fun pipeline_visitor ::
  "'f serde \<Rightarrow> ('f doc \<Rightarrow> bool) \<Rightarrow> nat \<Rightarrow> 'f doc list \<Rightarrow> bool \<Rightarrow> cells \<Rightarrow> redis_command list option \<times> cells"
where
  "pipeline_visitor sj skips room [] closed c = (if closed then Some [] else None, c)"
| "pipeline_visitor sj skips 0 (d # ds) closed c =
     (if skips d then (None, c\<lparr>exceeded_limit := Some PipelineCommands\<rparr>) else (None, c))"
| "pipeline_visitor sj skips (Suc room) (d # ds) closed c =
     try_step (command_seed sj d c) (\<lambda>command c.
     try_step (pipeline_visitor sj skips room ds closed c) (\<lambda>commands c. (Some (command # commands), c)))"

definition pipeline_seed ::
  "'f serde \<Rightarrow> ('f doc \<Rightarrow> bool) \<Rightarrow> nat \<Rightarrow> 'f doc \<Rightarrow> cells \<Rightarrow> redis_command list option \<times> cells" where
  "pipeline_seed sj skips max_commands d c =
     try_step (parse_charge c) (\<lambda>_ c.
       case d of DSeq ds closed \<Rightarrow> pipeline_visitor sj skips max_commands ds closed c | _ \<Rightarrow> (None, c))"

text \<open>The end of both entry points: classify an error by the cells, then require the end of the input.\<close>

definition finish :: "bool \<Rightarrow> 'a option \<times> cells \<Rightarrow> parse_error + 'a" where
  "finish at_end r =
     (case r of
        (None, c) \<Rightarrow> Inl (classify (exceeded_limit c))
      | (Some a, c) \<Rightarrow> if at_end then Inr a else Inl ParseInvalid)"

definition new_cells :: "nat \<Rightarrow> cells" where
  "new_cells n = \<lparr>remaining = n, exceeded_limit = None\<rparr>"

definition parse_command ::
  "'f serde \<Rightarrow> (bytes \<Rightarrow> 'f doc \<times> bool) \<Rightarrow> bytes \<Rightarrow> nat \<Rightarrow> parse_error + redis_command" where
  "parse_command sj deserializer body max_request_elements =
     (case deserializer body of (d, at_end) \<Rightarrow>
        finish at_end (command_seed sj d (new_cells max_request_elements)))"

definition parse_pipeline ::
  "'f serde \<Rightarrow> ('f doc \<Rightarrow> bool) \<Rightarrow> (bytes \<Rightarrow> 'f doc \<times> bool) \<Rightarrow> bytes \<Rightarrow> nat \<Rightarrow> nat
    \<Rightarrow> parse_error + redis_command list" where
  "parse_pipeline sj skips deserializer body max_commands max_request_elements =
     (case deserializer body of (d, at_end) \<Rightarrow>
        finish at_end (pipeline_seed sj skips max_commands d (new_cells max_request_elements)))"

section \<open>Arguments and the shared conversion\<close>

lemma argument_visitor_value:
  "argument_visitor sj d c =
     (case value_visitor sj d c of
        (None, c') \<Rightarrow> (None, c')
      | (Some v, c') \<Rightarrow> (case json_value_to_bytes sj v of Inr b \<Rightarrow> (Some b, c') | Inl _ \<Rightarrow> (None, c')))"
  by (cases d) (auto simp: nested_def try_step_def number_from_f64_def split: prod.splits option.splits sum.splits)

text \<open>
  C32. An argument is converted to the bytes \<open>json_value_to_bytes\<close> gives for the JSON value at
  that place, and spends the same budget as building that value would: the direct path for
  scalars and the fallback for nested values agree on every document, malformed ones included.
\<close>

theorem argument_matches_shared_conversion:
  "argument_visitor sj d c =
     (case value_visitor sj d c of
        (None, c') \<Rightarrow> (None, c')
      | (Some v, c') \<Rightarrow> (case json_value_to_bytes sj v of Inr b \<Rightarrow> (Some b, c') | Inl _ \<Rightarrow> (None, c')))"
  by (rule argument_visitor_value)

section \<open>Well-formed requests\<close>

text \<open>The number of elements below a document, the value it denotes, and what well-formed means.\<close>

fun doc_nodes :: "'f doc \<Rightarrow> nat" and entry_nodes :: "'f entry \<Rightarrow> nat" where
  "doc_nodes (DSeq ds closed) = sum_list (map (\<lambda>d. Suc (doc_nodes d)) ds)"
| "doc_nodes (DMap es closed) = sum_list (map entry_nodes es)"
| "doc_nodes _ = 0"
| "entry_nodes (Entry k d) = 2 + doc_nodes d"
| "entry_nodes _ = 1"

fun doc_ok :: "'f serde \<Rightarrow> 'f doc \<Rightarrow> bool" and entry_ok :: "'f serde \<Rightarrow> 'f entry \<Rightarrow> bool" where
  "doc_ok sj DErr = False"
| "doc_ok sj (DF64 x) = sj_finite sj x"
| "doc_ok sj (DSeq ds closed) = (closed \<and> list_all (doc_ok sj) ds)"
| "doc_ok sj (DMap es closed) = (closed \<and> list_all (entry_ok sj) es)"
| "doc_ok sj _ = True"
| "entry_ok sj (Entry k d) = doc_ok sj d"
| "entry_ok sj _ = False"

fun doc_value :: "'f doc \<Rightarrow> 'f json" and entry_value :: "'f entry \<Rightarrow> bytes \<times> 'f json" where
  "doc_value (DBool b) = JBool b"
| "doc_value (DU64 n) = JNumber (NumU64 n)"
| "doc_value (DI64 i) = JNumber (number_from_i64 i)"
| "doc_value (DF64 x) = JNumber (NumF64 x)"
| "doc_value (DStr s) = JString s"
| "doc_value (DSeq ds closed) = JArray (map doc_value ds)"
| "doc_value (DMap es closed) = JObject (fold (\<lambda>(k, v). bt_insert k v) (map entry_value es) [])"
| "doc_value _ = JNull"
| "entry_value (Entry k d) = (k, doc_value d)"
| "entry_value _ = ([], JNull)"

text \<open>A step that succeeds with \<open>a\<close> at the price of \<open>n\<close> elements, or runs out of budget.\<close>

definition budgeted :: "nat \<Rightarrow> 'a \<Rightarrow> cells \<Rightarrow> 'a option \<times> cells" where
  "budgeted n a c =
     (if n \<le> remaining c then (Some a, c\<lparr>remaining := remaining c - n\<rparr>)
      else (None, c\<lparr>remaining := 0, exceeded_limit := Some RequestElements\<rparr>))"

lemma budgeted_charge: "parse_charge c = budgeted 1 () c"
  by (cases "remaining c") (auto simp: parse_charge_def budgeted_def)

lemma budgeted_0: "(Some a, c) = budgeted 0 a c"
  by (simp add: budgeted_def)

lemma budgeted_bind:
  assumes "\<And>c. k a c = budgeted m b c"
  shows "try_step (budgeted n a c) k = budgeted (n + m) b c"
  by (auto simp: budgeted_def assms)

lemma charge_then:
  assumes "\<And>c. k c = budgeted m b c"
  shows "try_step (parse_charge c) (\<lambda>_. k) = budgeted (Suc m) b c"
  using budgeted_bind [where n = 1 and a = "()" and k = "\<lambda>_. k", OF assms] by (simp add: budgeted_charge)

lemma try_step_ret: "try_step (budgeted n a c) (\<lambda>x c. (Some (f x), c)) = budgeted n (f a) c"
  by (simp add: budgeted_def)

lemma value_visit_seq_budgeted:
  assumes "\<And>d c. d \<in> set ds \<Longrightarrow> value_visitor sj d c = budgeted (doc_nodes d) (doc_value d) c"
  shows "value_visit_seq sj ds True c
    = budgeted (sum_list (map (\<lambda>d. Suc (doc_nodes d)) ds)) (map doc_value ds) c"
  using assms
proof (induction ds arbitrary: c)
  case (Cons d ds)
  let ?n = "sum_list (map (\<lambda>d. Suc (doc_nodes d)) ds)"
  have d: "value_visitor sj d c = budgeted (doc_nodes d) (doc_value d) c" for c using Cons.prems by simp
  have ds: "value_visit_seq sj ds True c = budgeted ?n (map doc_value ds) c" for c
    using Cons by simp
  have "value_visit_seq sj (d # ds) True c = budgeted (1 + (doc_nodes d + ?n)) (doc_value d # map doc_value ds) c"
    unfolding value_visit_seq.simps budgeted_charge d ds try_step_ret
    by (intro budgeted_bind refl)
  then show ?case by simp
qed (simp add: budgeted_0 [symmetric])

lemma value_visit_map_budgeted:
  assumes "\<And>k d c. Entry k d \<in> set es \<Longrightarrow> value_visitor sj d c = budgeted (doc_nodes d) (doc_value d) c"
    and "list_all (entry_ok sj) es"
  shows "value_visit_map sj es True m c = budgeted (sum_list (map entry_nodes es))
       (fold (\<lambda>(k, v). bt_insert k v) (map entry_value es) m) c"
  using assms
proof (induction es arbitrary: m c)
  case (Cons e es)
  then obtain k d where e: "e = Entry k d" by (cases e) auto
  have d: "value_visitor sj d c = budgeted (doc_nodes d) (doc_value d) c" for c
    using Cons.prems(1) [of k d] e by simp
  let ?r = "\<lambda>m. fold (\<lambda>(k, v). bt_insert k v) (map entry_value es) m"
  have es: "value_visit_map sj es True m c = budgeted (sum_list (map entry_nodes es)) (?r m) c" for m c
  proof (rule Cons.IH)
    show "value_visitor sj d c = budgeted (doc_nodes d) (doc_value d) c" if "Entry k d \<in> set es" for k d c
      by (rule Cons.prems(1) [of k]) (use that in simp)
    show "list_all (entry_ok sj) es" using Cons.prems(2) by simp
  qed
  have "value_visit_map sj (e # es) True m c =
      budgeted (1 + (1 + (doc_nodes d + sum_list (map entry_nodes es)))) (?r (bt_insert k (doc_value d) m)) c"
    unfolding e value_visit_map.simps key_seed_bind budgeted_charge d es by (intro budgeted_bind refl)
  then show ?case by (simp add: e)
qed (simp add: budgeted_0 [symmetric])

lemma value_visitor_budgeted_aux:
  "doc_ok sj d \<Longrightarrow> value_visitor sj d c = budgeted (doc_nodes d) (doc_value d) c"
  "e = Entry k d' \<Longrightarrow> doc_ok sj d' \<Longrightarrow> value_visitor sj d' c = budgeted (doc_nodes d') (doc_value d') c"
proof (induction d and e arbitrary: c and k d' c rule: doc.induct entry.induct)
  case (DSeq ds closed)
  then show ?case by (simp add: list_all_iff value_visit_seq_budgeted try_step_ret)
next
  case (DMap es closed)
  have "value_visit_map sj es True [] c = budgeted (sum_list (map entry_nodes es))
       (fold (\<lambda>(k, v). bt_insert k v) (map entry_value es) []) c" for c
  proof (rule value_visit_map_budgeted)
    show "list_all (entry_ok sj) es" using DMap.prems by simp
    show "value_visitor sj d c = budgeted (doc_nodes d) (doc_value d) c" if "Entry k d \<in> set es" for k d c
      using DMap.IH [OF that refl] DMap.prems that by (auto simp: list_all_iff)
  qed
  with DMap.prems show ?case by (simp add: try_step_ret)
qed (auto simp: budgeted_0 [symmetric] number_from_f64_def)

lemmas value_visitor_budgeted = value_visitor_budgeted_aux(1)

text \<open>\<open>serde_json::to_string\<close> does not fail on a \<open>Value\<close>: its maps have string keys and its floats are finite.\<close>

definition renders_values :: "'f serde \<Rightarrow> bool" where
  "renders_values sj \<longleftrightarrow> (\<forall>v. sj_to_string sj v \<noteq> None)"

definition argument_bytes :: "'f serde \<Rightarrow> 'f doc \<Rightarrow> bytes" where
  "argument_bytes sj d = (case json_value_to_bytes sj (doc_value d) of Inr b \<Rightarrow> b | Inl _ \<Rightarrow> [])"

lemma json_value_to_bytes_total:
  assumes "renders_values sj"
  shows "\<exists>b. json_value_to_bytes sj v = Inr b"
  using assms by (cases v) (auto simp: renders_values_def split: option.splits)

lemma argument_seed_budgeted:
  assumes "renders_values sj" and "doc_ok sj d"
  shows "argument_seed sj d c = budgeted (Suc (doc_nodes d)) (argument_bytes sj d) c"
proof -
  obtain b where b: "json_value_to_bytes sj (doc_value d) = Inr b"
    using json_value_to_bytes_total [OF assms(1)] by blast
  have "argument_visitor sj d c = budgeted (doc_nodes d) (argument_bytes sj d) c" for c
    using argument_visitor_value [of sj d c]
    by (simp add: value_visitor_budgeted [OF assms(2)] budgeted_def b argument_bytes_def)
  then show ?thesis unfolding argument_seed_def by (rule charge_then)
qed

lemma collect_arguments_budgeted:
  assumes "renders_values sj" and "list_all (doc_ok sj) ds"
  shows "collect_arguments sj ds True c =
    budgeted (sum_list (map (\<lambda>d. Suc (doc_nodes d)) ds)) (map (argument_bytes sj) ds) c"
  using assms(2)
proof (induction ds arbitrary: c)
  case (Cons d ds)
  then have d: "argument_seed sj d c = budgeted (Suc (doc_nodes d)) (argument_bytes sj d) c"
    and ds: "collect_arguments sj ds True c =
      budgeted (sum_list (map (\<lambda>d. Suc (doc_nodes d)) ds)) (map (argument_bytes sj) ds) c" for c
    using argument_seed_budgeted [OF assms(1)] by simp_all
  have "collect_arguments sj (d # ds) True c = budgeted (Suc (doc_nodes d) + sum_list (map (\<lambda>d. Suc (doc_nodes d)) ds))
      (argument_bytes sj d # map (argument_bytes sj) ds) c"
    unfolding collect_arguments.simps d ds try_step_ret by (intro budgeted_bind refl)
  then show ?case by simp
qed (simp add: budgeted_0 [symmetric])

text \<open>A command is an array of a string and arguments.\<close>

fun command_doc :: "string \<times> 'f doc list \<Rightarrow> 'f doc" where
  "command_doc (name, ds) = DSeq (DStr name # ds) True"

definition command_of :: "'f serde \<Rightarrow> string \<times> 'f doc list \<Rightarrow> redis_command" where
  "command_of sj = (\<lambda>(name, ds). \<lparr>cmd_name = name, cmd_args = map (argument_bytes sj) ds\<rparr>)"

definition command_elements :: "string \<times> 'f doc list \<Rightarrow> nat" where
  "command_elements nd = Suc (doc_nodes (command_doc nd))"

lemma command_seed_budgeted:
  assumes "renders_values sj" and "list_all (doc_ok sj) (snd nd)"
  shows "command_seed sj (command_doc nd) c = budgeted (command_elements nd) (command_of sj nd) c"
proof -
  obtain name ds where nd: "nd = (name, ds)" by (cases nd)
  have name: "name_seed (DStr name) c = budgeted 1 name c" for c
    by (simp add: name_seed_def budgeted_charge budgeted_def)
  have "command_visitor sj (DStr name # ds) True c =
      budgeted (1 + sum_list (map (\<lambda>d. Suc (doc_nodes d)) ds)) (command_of sj nd) c" for c
    unfolding command_visitor.simps name collect_arguments_budgeted [OF assms(1) assms(2) [unfolded nd snd_conv]]
      try_step_ret
    by (intro budgeted_bind) (simp add: command_of_def nd)
  then have "try_step (parse_charge c) (\<lambda>_. command_visitor sj (DStr name # ds) True) =
      budgeted (Suc (1 + sum_list (map (\<lambda>d. Suc (doc_nodes d)) ds))) (command_of sj nd) c"
    by (rule charge_then)
  then show ?thesis by (simp add: command_seed_def command_elements_def nd del: command_visitor.simps)
qed

text \<open>
  A well-formed single command, followed by nothing, is parsed into its name and its
  converted arguments exactly if its JSON elements (the array, the name, and every value and key
  below) are within the budget, and is otherwise refused as too complex.
\<close>

theorem parse_command_exact:
  assumes "renders_values sj" and "list_all (doc_ok sj) ds"
    and "deserializer body = (command_doc (name, ds), True)"
  shows "parse_command sj deserializer body max_elements =
    (if command_elements (name, ds) \<le> max_elements
     then Inr \<lparr>cmd_name = name, cmd_args = map (argument_bytes sj) ds\<rparr>
     else Inl ParseRequestTooComplex)"
  using command_seed_budgeted [OF assms(1), of "(name, ds)" "new_cells max_elements"] assms(2)
  by (simp add: parse_command_def assms(3) finish_def budgeted_def classify_def new_cells_def command_of_def
      del: command_doc.simps)

definition plain_serde :: "unit serde" where
  "plain_serde = \<lparr>sj_finite = (\<lambda>_. True), sj_f64_text = (\<lambda>_. ''0.5''), sj_to_string = (\<lambda>_. Some ''[]'')\<rparr>"

theorem parse_command_exact_witness:
  "parse_command plain_serde (\<lambda>_. (command_doc (''SET'', [DStr ''k'', DU64 1]), True)) ''x'' 4
     = Inr \<lparr>cmd_name = ''SET'', cmd_args = [''k'', ''1'']\<rparr>"
proof -
  have "renders_values plain_serde" by (simp add: renders_values_def plain_serde_def)
  from parse_command_exact [OF this, of "[DStr ''k'', DU64 1]" "\<lambda>_. (command_doc (''SET'', [DStr ''k'', DU64 1]), True)"
      "''x''" "''SET''" 4]
  show ?thesis by (simp add: command_elements_def argument_bytes_def nat_text.simps char_of_eq_iff)
qed

lemma pipeline_visitor_exact:
  assumes "renders_values sj" and "\<forall>(_, ds) \<in> set cmds. list_all (doc_ok sj) ds"
    and "\<And>nd. nd \<in> set cmds \<Longrightarrow> skips (command_doc nd)"
  shows "pipeline_visitor sj skips room (map command_doc cmds) True c =
    (let n = sum_list (map command_elements (take room cmds)) in
     if length cmds \<le> room then budgeted n (map (command_of sj) cmds) c
     else if n \<le> remaining c
     then (None, c\<lparr>remaining := remaining c - n, exceeded_limit := Some PipelineCommands\<rparr>)
     else (None, c\<lparr>remaining := 0, exceeded_limit := Some RequestElements\<rparr>))"
  using assms(2,3)
proof (induction cmds arbitrary: room c)
  case Nil
  then show ?case by (simp add: budgeted_0 [symmetric])
next
  case (Cons nd cmds)
  show ?case
  proof (cases room)
    case 0
    then show ?thesis using Cons.prems(2) [of nd] by simp
  next
    case (Suc room')
    have cmd: "command_seed sj (command_doc nd) c = budgeted (command_elements nd) (command_of sj nd) c" for c
      using Cons.prems(1) by (intro command_seed_budgeted [OF assms(1)]) auto
    have ih: "pipeline_visitor sj skips room' (map command_doc cmds) True c =
      (let n = sum_list (map command_elements (take room' cmds)) in
       if length cmds \<le> room' then budgeted n (map (command_of sj) cmds) c
       else if n \<le> remaining c
       then (None, c\<lparr>remaining := remaining c - n, exceeded_limit := Some PipelineCommands\<rparr>)
       else (None, c\<lparr>remaining := 0, exceeded_limit := Some RequestElements\<rparr>))" for c
      using Cons by auto
    show ?thesis
      by (auto simp: Suc cmd ih Let_def budgeted_def)
  qed
qed

text \<open>
  C31. A pipeline of well-formed commands is parsed exactly if it has at most \<open>max_commands\<close>
  commands and at most \<open>max_request_elements\<close> JSON elements. A request that breaks a limit is
  refused with the error of the limit it breaks first in document order: too complex if the
  elements run out within the first \<open>max_commands\<close> commands, otherwise too many commands.
\<close>

theorem parse_pipeline_exact:
  assumes "renders_values sj" and "\<forall>(_, ds) \<in> set cmds. list_all (doc_ok sj) ds"
    and "\<forall>nd \<in> set cmds. skips (command_doc nd)"
    and "deserializer body = (DSeq (map command_doc cmds) True, True)"
  shows "parse_pipeline sj skips deserializer body max_commands max_elements =
    (if max_elements < Suc (sum_list (map command_elements (take max_commands cmds)))
     then Inl ParseRequestTooComplex
     else if max_commands < length cmds then Inl ParsePipelineTooLarge
     else Inr (map (command_of sj) cmds))"
proof (cases max_elements)
  case 0
  then show ?thesis
    by (simp add: parse_pipeline_def assms(4) pipeline_seed_def parse_charge_def new_cells_def finish_def classify_def)
next
  case (Suc n)
  have "parse_charge (new_cells max_elements) = (Some (), new_cells n)"
    by (simp add: Suc parse_charge_def new_cells_def)
  then show ?thesis
    using pipeline_visitor_exact [OF assms(1,2), of skips max_commands "new_cells n"] assms(3)
    by (auto simp: parse_pipeline_def assms(4) pipeline_seed_def Let_def finish_def classify_def
        budgeted_def new_cells_def Suc)
qed

definition sample_pipeline :: "(string \<times> unit doc list) list" where
  "sample_pipeline = [(''GET'', [DStr ''a'']), (''DEL'', [DStr ''b'']), (''PING'', [])]"

theorem parse_pipeline_exact_witness:
  "parse_pipeline plain_serde (\<lambda>_. True) (\<lambda>_. (DSeq (map command_doc sample_pipeline) True, True)) ''x'' 2 100
     = Inl ParsePipelineTooLarge"
proof -
  have "renders_values plain_serde" by (simp add: renders_values_def plain_serde_def)
  from parse_pipeline_exact [OF this, of sample_pipeline "\<lambda>_. True"
      "\<lambda>_. (DSeq (map command_doc sample_pipeline) True, True)" "''x''" 2 100]
  show ?thesis by (simp add: sample_pipeline_def command_elements_def numeral_2_eq_2 del: map_map)
qed

section \<open>Limits on every request\<close>

lemma try_step_Some:
  "try_step r k = (Some b, c') \<longleftrightarrow> (\<exists>a c. r = (Some a, c) \<and> k a c = (Some b, c'))"
  by (auto simp: try_step_def split: prod.splits option.splits)

lemma parse_charge_Some: "parse_charge c = (Some u, c') \<Longrightarrow> Suc (remaining c') = remaining c"
  by (cases "remaining c") (auto simp: parse_charge_def)

lemma key_seed_Some: "key_seed key c = (Some k, c') \<Longrightarrow> Suc (remaining c') = remaining c"
  by (auto simp: key_seed_def try_step_Some dest: parse_charge_Some)

lemma value_visitor_remaining:
  "value_visitor sj d c = (Some v, c') \<Longrightarrow> remaining c' \<le> remaining c"
  "value_visit_seq sj ds closed c = (Some vs, c') \<Longrightarrow> remaining c' \<le> remaining c"
  "value_visit_map sj es closed m c = (Some m', c') \<Longrightarrow> remaining c' \<le> remaining c"
proof (induction sj d c and sj ds closed c and sj es closed m c arbitrary: v c' and vs c' and m' c'
    rule: value_visitor_value_visit_seq_value_visit_map.induct)
  case (11 sj d ds closed c)
  then show ?case by (fastforce simp: try_step_Some dest: parse_charge_Some)
next
  case (15 sj k d es closed m c)
  from "15.prems" obtain k1 c1 u c2 v c3 where s: "key_seed (Some k) c = (Some k1, c1)" "parse_charge c1 = (Some u, c2)"
      "value_visitor sj d c2 = (Some v, c3)" "value_visit_map sj es closed (bt_insert k1 v m) c3 = (Some m', c')"
    by (auto simp: try_step_Some simp del: key_seed_bind)
  from "15.IH"(1) [OF s(1,2,3)] "15.IH"(2) [OF s(1,2,3,4)] key_seed_Some [OF s(1)] parse_charge_Some [OF s(2)]
  show ?case by linarith
qed (auto simp: try_step_Some split: if_splits)

lemma argument_seed_remaining:
  assumes "argument_seed sj d c = (Some a, c')"
  shows "Suc (remaining c') \<le> remaining c"
proof -
  obtain u c1 where c1: "parse_charge c = (Some u, c1)" "argument_visitor sj d c1 = (Some a, c')"
    using assms by (auto simp: argument_seed_def try_step_Some)
  have "remaining c' \<le> remaining c1"
    using c1(2) value_visitor_remaining(1)
    by (auto simp: argument_visitor_value split: prod.splits option.splits sum.splits)
  with parse_charge_Some [OF c1(1)] show ?thesis by simp
qed

lemma collect_arguments_remaining:
  "collect_arguments sj ds closed c = (Some args, c') \<Longrightarrow> remaining c' + length args \<le> remaining c"
proof (induction ds arbitrary: c args)
  case (Cons d ds)
  then obtain a c1 args1 where "argument_seed sj d c = (Some a, c1)"
      "collect_arguments sj ds closed c1 = (Some args1, c')" "args = a # args1"
    by (auto simp: try_step_Some)
  with argument_seed_remaining Cons.IH show ?case by fastforce
qed (auto split: if_splits)

lemma command_seed_remaining:
  assumes "command_seed sj d c = (Some cmd, c')"
  shows "remaining c' + (2 + length (cmd_args cmd)) \<le> remaining c"
proof -
  obtain u c1 ds closed where c1: "parse_charge c = (Some u, c1)" "command_visitor sj ds closed c1 = (Some cmd, c')"
    using assms by (cases d) (auto simp: command_seed_def try_step_Some)
  then obtain n c2 where c2: "Suc (remaining c2) = remaining c1"
      "collect_arguments sj (tl ds) closed c2 = (Some (cmd_args cmd), c')"
    by (cases ds) (auto simp: try_step_Some name_seed_def dest!: parse_charge_Some)
  from collect_arguments_remaining [OF c2(2)] c2(1) parse_charge_Some [OF c1(1)] show ?thesis by simp
qed

lemma pipeline_visitor_remaining:
  "pipeline_visitor sj skips room ds closed c = (Some cmds, c') \<Longrightarrow>
     length cmds \<le> room \<and> remaining c' + sum_list (map (\<lambda>cmd. 2 + length (cmd_args cmd)) cmds) \<le> remaining c"
proof (induction sj skips room ds closed c arbitrary: cmds c' rule: pipeline_visitor.induct)
  case (3 sj skips room d ds closed c)
  then obtain cmd c1 cmds1 where s: "command_seed sj d c = (Some cmd, c1)"
      "pipeline_visitor sj skips room ds closed c1 = (Some cmds1, c')" "cmds = cmd # cmds1"
    by (auto simp: try_step_Some)
  from 3 (1) [OF _ s(2)] s(1) command_seed_remaining [OF s(1)] show ?case by (simp add: s(3))
qed (auto split: if_splits)

text \<open>
  Whatever the body and whatever the deserializer makes of it, a pipeline that is accepted
  has at most \<open>max_commands\<close> commands, and its commands, names and arguments together are fewer
  than \<open>max_request_elements\<close>.
\<close>

theorem parse_pipeline_bounded:
  assumes "parse_pipeline sj skips deserializer body max_commands max_elements = Inr cmds"
  shows "length cmds \<le> max_commands
    \<and> Suc (sum_list (map (\<lambda>cmd. 2 + length (cmd_args cmd)) cmds)) \<le> max_elements"
proof -
  obtain d at_end c' where d: "pipeline_seed sj skips max_commands d (new_cells max_elements) = (Some cmds, c')"
    using assms by (auto simp: parse_pipeline_def finish_def split: prod.splits option.splits if_splits)
  then obtain u c1 ds closed where "parse_charge (new_cells max_elements) = (Some u, c1)"
      "pipeline_visitor sj skips max_commands ds closed c1 = (Some cmds, c')"
    by (cases d) (auto simp: pipeline_seed_def try_step_Some)
  with pipeline_visitor_remaining parse_charge_Some show ?thesis
    by (fastforce simp: new_cells_def)
qed

theorem parse_pipeline_bounded_witness:
  "length [command_of plain_serde (''PING'', [])] \<le> 1"
  using parse_pipeline_bounded [of plain_serde "\<lambda>_. True" "\<lambda>_. (DSeq [command_doc (''PING'', [])] True, True)" "''x''" 1 4
      "[command_of plain_serde (''PING'', [])]"]
  by (simp add: parse_pipeline_def pipeline_seed_def parse_charge_def new_cells_def command_seed_def name_seed_def
      finish_def command_of_def)

end
