(* ===== verification/Breaker.thy ===== *)
theory Breaker
  imports Rust_Prelude "HOL-Library.Sublist"
begin

text \<open>
  The circuit breaker of \<open>src/domain/breaker.rs\<close>. Each operation runs under the mutex of
  \<open>Inner\<close>, so it is one atomic function of the breaker; the clock reading is an argument.
  The generation is a \<open>u64\<close> that wraps, the failure count a \<open>usize\<close>.

  \<open>breaker_step\<close> lets any number of callers admit, record and cancel in any order with
  permits they were given. The properties: at most one half-open probe is live at a time;
  the breaker refines a three-state specification with no generations; it opens exactly at the
  threshold; and the retry delay it reports is the least whole number of seconds after which a
  request is admitted.
\<close>

section \<open>State and operations\<close>

datatype breaker_state = Closed | HalfOpen | Open

record breaker_permit =
  pm_generation :: u64
  pm_probe :: bool

datatype breaker_transition = TrOpened | TrProbeStarted | TrClosed

record breaker_admission =
  ad_permit :: breaker_permit
  ad_transition :: "breaker_transition option"

record breaker_inner =
  br_state :: breaker_state
  consecutive_failures :: u64
  opened_at :: "instant option"
  br_generation :: u64

record breaker =
  failure_threshold :: nat
  cooldown :: duration
  br_inner :: breaker_inner

definition seconds_ceil :: "duration \<Rightarrow> nat" where
  "seconds_ceil d = saturating_add (as_secs d) (if subsec_nanos d > 0 then 1 else 0)"

definition breaker_new :: "nat \<Rightarrow> duration \<Rightarrow> breaker" where
  "breaker_new threshold cool =
     \<lparr>failure_threshold = threshold, cooldown = cool,
      br_inner = \<lparr>br_state = Closed, consecutive_failures = 0, opened_at = None, br_generation = 0\<rparr>\<rparr>"

definition breaker_admit :: "instant \<Rightarrow> breaker \<Rightarrow> (nat + breaker_admission) \<times> breaker" where
  "breaker_admit now b =
     (let inner = br_inner b in
      case br_state inner of
        Closed \<Rightarrow>
          (Inr \<lparr>ad_permit = \<lparr>pm_generation = br_generation inner, pm_probe = False\<rparr>,
                ad_transition = None\<rparr>, b)
      | HalfOpen \<Rightarrow> (Inl (seconds_ceil (cooldown b)), b)
      | Open \<Rightarrow>
          (let elapsed = (case opened_at inner of None \<Rightarrow> 0 | Some opened \<Rightarrow> now - opened) in
           if cooldown b \<le> elapsed
           then (let inner' = inner\<lparr>br_state := HalfOpen, br_generation := br_generation inner + 1\<rparr> in
                 (Inr \<lparr>ad_permit = \<lparr>pm_generation = br_generation inner', pm_probe = True\<rparr>,
                       ad_transition = Some TrProbeStarted\<rparr>, b\<lparr>br_inner := inner'\<rparr>))
           else (Inl (seconds_ceil (cooldown b - elapsed)), b)))"

definition breaker_record ::
  "instant \<Rightarrow> breaker_permit \<Rightarrow> bool \<Rightarrow> breaker \<Rightarrow> breaker_transition option \<times> breaker" where
  "breaker_record now permit failed b =
     (let inner = br_inner b in
      if pm_generation permit \<noteq> br_generation inner then (None, b)
      else if pm_probe permit then
        (if br_state inner \<noteq> HalfOpen then (None, b)
         else
          (let inner1 = inner\<lparr>br_generation := br_generation inner + 1\<rparr> in
           if failed
           then (Some TrOpened, b\<lparr>br_inner := inner1\<lparr>br_state := Open, opened_at := Some now\<rparr>\<rparr>)
           else (Some TrClosed,
             b\<lparr>br_inner := inner1\<lparr>br_state := Closed, consecutive_failures := 0, opened_at := None\<rparr>\<rparr>)))
      else if br_state inner \<noteq> Closed then (None, b)
      else if failed then
        (let inner1 = inner\<lparr>consecutive_failures := consecutive_failures inner + 1\<rparr> in
         if failure_threshold b \<le> unat (consecutive_failures inner1)
         then (Some TrOpened,
           b\<lparr>br_inner := inner1\<lparr>br_state := Open, opened_at := Some now,
                                 br_generation := br_generation inner1 + 1\<rparr>\<rparr>)
         else (None, b\<lparr>br_inner := inner1\<rparr>))
      else (None, b\<lparr>br_inner := inner\<lparr>consecutive_failures := 0\<rparr>\<rparr>))"

definition breaker_cancel :: "breaker_permit \<Rightarrow> breaker \<Rightarrow> breaker" where
  "breaker_cancel permit b =
     (if \<not> pm_probe permit then b
      else
       (let inner = br_inner b in
        if br_state inner = HalfOpen \<and> pm_generation permit = br_generation inner
        then b\<lparr>br_inner := inner\<lparr>br_state := Open, br_generation := br_generation inner + 1\<rparr>\<rparr>
        else b))"

abbreviation breaker_state_of :: "breaker \<Rightarrow> breaker_state" where
  "breaker_state_of b \<equiv> br_state (br_inner b)"

abbreviation breaker_generation :: "breaker \<Rightarrow> u64" where
  "breaker_generation b \<equiv> br_generation (br_inner b)"

lemmas breaker_ops = breaker_admit_def breaker_record_def breaker_cancel_def Let_def

section \<open>Interleaved callers\<close>

text \<open>
  The breaker with the clock, the permits handed out so far and the number of generation
  changes. A permit stays usable after it was recorded or cancelled: nothing below relies on
  callers using it once.
\<close>

record breaker_sys =
  sys_breaker :: breaker
  sys_now :: instant
  sys_issued :: "breaker_permit list"
  sys_bumps :: nat

definition count_bump :: "breaker \<Rightarrow> breaker \<Rightarrow> nat" where
  "count_bump b b' = (if breaker_generation b' = breaker_generation b then 0 else 1)"

inductive breaker_step :: "breaker_sys \<Rightarrow> breaker_sys \<Rightarrow> bool" where
  tick: "sys_now s \<le> now \<Longrightarrow> breaker_step s (s\<lparr>sys_now := now\<rparr>)"
| admitted: "breaker_admit (sys_now s) (sys_breaker s) = (Inr adm, b) \<Longrightarrow>
    breaker_step s (s\<lparr>sys_breaker := b, sys_issued := ad_permit adm # sys_issued s,
                     sys_bumps := sys_bumps s + count_bump (sys_breaker s) b\<rparr>)"
| refused: "breaker_admit (sys_now s) (sys_breaker s) = (Inl retry, b) \<Longrightarrow>
    breaker_step s (s\<lparr>sys_breaker := b, sys_bumps := sys_bumps s + count_bump (sys_breaker s) b\<rparr>)"
| recorded: "permit \<in> set (sys_issued s) \<Longrightarrow>
    breaker_record (sys_now s) permit failed (sys_breaker s) = (tr, b) \<Longrightarrow>
    breaker_step s (s\<lparr>sys_breaker := b, sys_bumps := sys_bumps s + count_bump (sys_breaker s) b\<rparr>)"
| cancelled: "permit \<in> set (sys_issued s) \<Longrightarrow> breaker_cancel permit (sys_breaker s) = b \<Longrightarrow>
    breaker_step s (s\<lparr>sys_breaker := b, sys_bumps := sys_bumps s + count_bump (sys_breaker s) b\<rparr>)"

definition breaker_start :: "breaker_sys \<Rightarrow> bool" where
  "breaker_start s \<longleftrightarrow>
     (\<exists>threshold cool now. threshold \<le> u64_max \<and>
        s = \<lparr>sys_breaker = breaker_new threshold cool, sys_now = now, sys_issued = [], sys_bumps = 0\<rparr>)"

text \<open>A permit that \<open>record\<close> would still act on.\<close>

definition live :: "breaker \<Rightarrow> breaker_permit \<Rightarrow> bool" where
  "live b permit \<longleftrightarrow>
     pm_generation permit = breaker_generation b
     \<and> (if pm_probe permit then breaker_state_of b = HalfOpen else breaker_state_of b = Closed)"

definition live_probes :: "breaker_sys \<Rightarrow> breaker_permit list" where
  "live_probes s = filter (\<lambda>p. pm_probe p \<and> live (sys_breaker s) p) (sys_issued s)"

text \<open>
  What holds before the generation counter has gone round once: it counts the changes, no
  permit is from the future, the probes of the current generation are the one of the half-open
  state, the failure count stays below the threshold while closed, and the opening time is
  recorded outside the closed state.
\<close>

definition breaker_good :: "breaker_sys \<Rightarrow> bool" where
  "breaker_good s \<longleftrightarrow>
     (let b = sys_breaker s in
      unat (breaker_generation b) = sys_bumps s
      \<and> (\<forall>p \<in> set (sys_issued s). unat (pm_generation p) \<le> sys_bumps s)
      \<and> length (filter (\<lambda>p. pm_probe p \<and> pm_generation p = breaker_generation b) (sys_issued s))
          = (if breaker_state_of b = HalfOpen then 1 else 0)
      \<and> failure_threshold b \<le> u64_max
      \<and> (breaker_state_of b = Closed \<longrightarrow>
           unat (consecutive_failures (br_inner b)) < max 1 (failure_threshold b)
           \<and> opened_at (br_inner b) = None)
      \<and> (breaker_state_of b \<noteq> Closed \<longrightarrow> (\<exists>t \<le> sys_now s. opened_at (br_inner b) = Some t)))"

definition breaker_inv :: "breaker_sys \<Rightarrow> bool" where
  "breaker_inv s \<longleftrightarrow> (sys_bumps s < 2 ^ 64 \<longrightarrow> breaker_good s)"

lemma unat_succ:
  fixes w :: u64
  assumes "Suc (unat w) < 2 ^ 64"
  shows "unat (w + 1) = Suc (unat w)"
proof -
  have "w \<noteq> - 1"
    using assms by (auto simp: unsigned_minus_1_eq_mask mask_eq_exp_minus_1)
  then have "1 + w \<noteq> 0" by (simp add: add_eq_0_iff)
  then show ?thesis by (simp add: unatSuc add.commute)
qed

lemma no_probe_of_next_generation:
  assumes "\<forall>p \<in> set ps. unat (pm_generation p) \<le> n" and "unat g = Suc n"
  shows "filter (\<lambda>p. pm_probe p \<and> pm_generation p = g) ps = []"
  using assms by (auto simp: filter_empty_conv)

lemma breaker_good_bumpI:
  assumes good: "breaker_good s" and room: "Suc (sys_bumps s) < 2 ^ 64"
    and gen: "breaker_generation b = breaker_generation (sys_breaker s) + 1"
    and thr: "failure_threshold b = failure_threshold (sys_breaker s)"
    and new: "new = (if breaker_state_of b = HalfOpen
                     then [\<lparr>pm_generation = breaker_generation b, pm_probe = True\<rparr>] else [])"
    and closed: "breaker_state_of b = Closed \<Longrightarrow>
           unat (consecutive_failures (br_inner b)) < max 1 (failure_threshold b)
           \<and> opened_at (br_inner b) = None"
    and opened: "breaker_state_of b \<noteq> Closed \<Longrightarrow> \<exists>t \<le> sys_now s. opened_at (br_inner b) = Some t"
  shows "breaker_good (s\<lparr>sys_breaker := b, sys_issued := new @ sys_issued s, sys_bumps := Suc (sys_bumps s)\<rparr>)"
proof -
  from good have old: "unat (breaker_generation (sys_breaker s)) = sys_bumps s"
    "\<forall>p \<in> set (sys_issued s). unat (pm_generation p) \<le> sys_bumps s"
    by (simp_all add: breaker_good_def Let_def)
  have next_gen: "unat (breaker_generation b) = Suc (sys_bumps s)"
    unfolding gen using room old(1) by (simp add: unat_succ)
  have none: "filter (\<lambda>p. pm_probe p \<and> pm_generation p = breaker_generation b) (sys_issued s) = []"
    by (rule no_probe_of_next_generation [OF old(2) next_gen])
  show ?thesis
    using good next_gen none old closed opened
    by (auto simp: breaker_good_def Let_def thr new le_Suc_eq)
qed

text \<open>Every operation either changes nothing the invariant reads, or starts a new generation.\<close>

lemma breaker_admit_cases:
  assumes "breaker_admit now b = (r, b')"
  obtains (same) "b' = b" "\<And>adm. r = Inr adm \<Longrightarrow> \<not> pm_probe (ad_permit adm)
        \<and> pm_generation (ad_permit adm) = breaker_generation b \<and> breaker_state_of b = Closed"
    | (probe) "breaker_state_of b = Open"
        "b' = b\<lparr>br_inner := (br_inner b)\<lparr>br_state := HalfOpen, br_generation := breaker_generation b + 1\<rparr>\<rparr>"
        "r = Inr \<lparr>ad_permit = \<lparr>pm_generation = breaker_generation b', pm_probe = True\<rparr>,
                  ad_transition = Some TrProbeStarted\<rparr>"
  using assms by (auto simp: breaker_admit_def Let_def split: breaker_state.splits option.splits if_splits)

lemma word_plus_1_neq [simp]: "(w::u64) + 1 \<noteq> w"
  by simp

lemma breaker_good_admit:
  assumes good: "breaker_good s" and adm: "breaker_admit (sys_now s) (sys_breaker s) = (Inr adm, b)"
    and room: "sys_bumps s + count_bump (sys_breaker s) b < 2 ^ 64"
  shows "breaker_good (s\<lparr>sys_breaker := b, sys_issued := ad_permit adm # sys_issued s,
           sys_bumps := sys_bumps s + count_bump (sys_breaker s) b\<rparr>)"
  using adm
proof (cases rule: breaker_admit_cases)
  case same
  with good show ?thesis
    by (simp add: breaker_good_def Let_def count_bump_def)
next
  case probe
  have "breaker_good (s\<lparr>sys_breaker := b,
      sys_issued := [\<lparr>pm_generation = breaker_generation b, pm_probe = True\<rparr>] @ sys_issued s,
      sys_bumps := Suc (sys_bumps s)\<rparr>)"
    using probe room good
    by (intro breaker_good_bumpI) (auto simp: count_bump_def breaker_good_def Let_def)
  with probe show ?thesis by (simp add: count_bump_def)
qed

lemma breaker_good_record:
  assumes good: "breaker_good s" and mem: "permit \<in> set (sys_issued s)"
    and rcd: "breaker_record (sys_now s) permit failed (sys_breaker s) = (tr, b)"
    and room: "sys_bumps s + count_bump (sys_breaker s) b < 2 ^ 64"
  shows "breaker_good (s\<lparr>sys_breaker := b, sys_bumps := sys_bumps s + count_bump (sys_breaker s) b\<rparr>)"
proof (cases "breaker_generation b = breaker_generation (sys_breaker s)")
  case True
  have small: "unat (consecutive_failures (br_inner (sys_breaker s)) + 1)
      = Suc (unat (consecutive_failures (br_inner (sys_breaker s))))"
    if "breaker_state_of (sys_breaker s) = Closed"
    using good that by (intro unat_succ) (auto simp: breaker_good_def Let_def u64_max_def)
  from True good rcd small show ?thesis
    by (auto simp: breaker_record_def breaker_good_def Let_def count_bump_def split: if_splits)
next
  case False
  have "breaker_good (s\<lparr>sys_breaker := b, sys_issued := [] @ sys_issued s, sys_bumps := Suc (sys_bumps s)\<rparr>)"
    using False room good rcd
    by (intro breaker_good_bumpI)
      (auto simp: breaker_record_def count_bump_def Let_def breaker_good_def split: if_splits)
  with False show ?thesis by (simp add: count_bump_def)
qed

lemma breaker_good_cancel:
  assumes good: "breaker_good s" and b: "b = breaker_cancel permit (sys_breaker s)"
    and room: "sys_bumps s + count_bump (sys_breaker s) b < 2 ^ 64"
  shows "breaker_good (s\<lparr>sys_breaker := b, sys_bumps := sys_bumps s + count_bump (sys_breaker s) b\<rparr>)"
proof (cases "b = sys_breaker s")
  case True
  with good show ?thesis by (simp add: breaker_good_def Let_def count_bump_def)
next
  case False
  then have gen: "breaker_generation b = breaker_generation (sys_breaker s) + 1"
    by (auto simp: b breaker_cancel_def Let_def split: if_splits)
  have "breaker_good (s\<lparr>sys_breaker := b, sys_issued := [] @ sys_issued s, sys_bumps := Suc (sys_bumps s)\<rparr>)"
    using False gen room good
    by (intro breaker_good_bumpI)
      (auto simp: b breaker_cancel_def count_bump_def Let_def breaker_good_def split: if_splits)
  with gen show ?thesis by (simp add: count_bump_def)
qed

lemma breaker_good_tick: "breaker_good s \<Longrightarrow> sys_now s \<le> now \<Longrightarrow> breaker_good (s\<lparr>sys_now := now\<rparr>)"
  by (auto simp: breaker_good_def Let_def)

interpretation breaker_run: step_system breaker_start breaker_step breaker_inv
proof
  fix s
  assume "breaker_start s"
  then show "breaker_inv s"
    by (auto simp: breaker_start_def breaker_inv_def breaker_good_def breaker_new_def Let_def)
next
  fix s t
  assume inv: "breaker_inv s" and "breaker_step s t"
  from this(2) show "breaker_inv t"
  proof cases
    case (tick now)
    with inv show ?thesis by (auto simp: breaker_inv_def breaker_good_tick)
  next
    case (admitted adm b)
    with inv show ?thesis by (auto simp: breaker_inv_def intro: breaker_good_admit)
  next
    case (refused retry b)
    then have "b = sys_breaker s" by (auto elim: breaker_admit_cases)
    with inv refused show ?thesis
      by (auto simp: breaker_inv_def breaker_good_def Let_def count_bump_def)
  next
    case (recorded permit failed tr b)
    with inv show ?thesis by (auto simp: breaker_inv_def intro: breaker_good_record)
  next
    case (cancelled permit b)
    with inv show ?thesis by (auto simp: breaker_inv_def intro: breaker_good_cancel)
  qed
qed

lemma reachable_good:
  assumes "breaker_start s" and "breaker_step\<^sup>*\<^sup>* s t" and "sys_bumps t < 2 ^ 64"
  shows "breaker_good t"
  using breaker_run.inv_reachable [OF assms(1,2)] assms(3) by (simp add: breaker_inv_def)

section \<open>At most one live probe\<close>

text \<open>Runs for concrete callers, built from the step rules.\<close>

definition sys_new :: "nat \<Rightarrow> duration \<Rightarrow> breaker_sys" where
  "sys_new threshold cool =
     \<lparr>sys_breaker = breaker_new threshold cool, sys_now = 0, sys_issued = [], sys_bumps = 0\<rparr>"

definition sys_admit :: "breaker_sys \<Rightarrow> breaker_sys" where
  "sys_admit s =
     (case breaker_admit (sys_now s) (sys_breaker s) of
        (Inr adm, b) \<Rightarrow> s\<lparr>sys_breaker := b, sys_issued := ad_permit adm # sys_issued s,
                         sys_bumps := sys_bumps s + count_bump (sys_breaker s) b\<rparr>
      | (Inl _, b) \<Rightarrow> s\<lparr>sys_breaker := b, sys_bumps := sys_bumps s + count_bump (sys_breaker s) b\<rparr>)"

definition sys_record_last :: "bool \<Rightarrow> breaker_sys \<Rightarrow> breaker_sys" where
  "sys_record_last failed s =
     (case sys_issued s of
        [] \<Rightarrow> s
      | p # _ \<Rightarrow>
          (let b = snd (breaker_record (sys_now s) p failed (sys_breaker s)) in
           s\<lparr>sys_breaker := b, sys_bumps := sys_bumps s + count_bump (sys_breaker s) b\<rparr>))"

lemma sys_new_start: "threshold \<le> u64_max \<Longrightarrow> breaker_start (sys_new threshold cool)"
  by (auto simp: breaker_start_def sys_new_def)

lemma sys_admit_step: "breaker_step s (sys_admit s)"
  by (auto simp: sys_admit_def intro: breaker_step.intros split: prod.splits sum.splits)

lemma sys_record_last_step:
  assumes "sys_issued s = p # ps"
  shows "breaker_step s (sys_record_last failed s)"
  using assms breaker_step.recorded [of p s failed] unfolding sys_record_last_def
  by (auto simp: Let_def intro!: breaker_step.recorded [of p s failed] intro: surjective_pairing)

text \<open>
  C6. However callers interleave, and as long as the generation counter has not gone round,
  there is exactly one permit on which a probe result would be taken while the breaker is
  half open, and none otherwise.
\<close>

theorem breaker_single_live_probe:
  assumes "breaker_start s" and "breaker_step\<^sup>*\<^sup>* s t" and "sys_bumps t < 2 ^ 64"
  shows "length (live_probes t) = (if breaker_state_of (sys_breaker t) = HalfOpen then 1 else 0)"
proof -
  have "live_probes t = (if breaker_state_of (sys_breaker t) = HalfOpen
      then filter (\<lambda>p. pm_probe p \<and> pm_generation p = breaker_generation (sys_breaker t)) (sys_issued t)
      else [])"
    by (auto simp: live_probes_def live_def intro: filter_cong)
  with reachable_good [OF assms] show ?thesis
    by (simp add: breaker_good_def Let_def)
qed

lemmas breaker_eval = sys_new_def sys_admit_def sys_record_last_def breaker_new_def breaker_ops
  count_bump_def live_probes_def live_def

theorem breaker_single_live_probe_witness:
  "length (live_probes (sys_admit (sys_record_last True (sys_admit (sys_new 1 0))))) = 1"
proof -
  let ?s = "sys_new 1 0"
  let ?t = "sys_admit (sys_record_last True (sys_admit ?s))"
  have start: "breaker_start ?s" by (rule sys_new_start) (simp add: u64_max_def)
  have "sys_issued (sys_admit ?s) = [\<lparr>pm_generation = 0, pm_probe = False\<rparr>]"
    by (simp add: breaker_eval)
  then have "breaker_step (sys_admit ?s) (sys_record_last True (sys_admit ?s))"
    by (rule sys_record_last_step)
  then have run: "breaker_step\<^sup>*\<^sup>* ?s ?t"
    using sys_admit_step by (meson converse_rtranclp_into_rtranclp rtranclp.rtrancl_refl)
  have "sys_bumps ?t < 2 ^ 64" and half: "breaker_state_of (sys_breaker ?t) = HalfOpen"
    by (simp_all add: breaker_eval)
  from breaker_single_live_probe [OF start run this(1)] half show ?thesis by simp
qed

section \<open>Refinement of the three-state specification\<close>

datatype breaker_spec = SpecClosed nat | SpecHalfOpen instant | SpecOpen instant

fun spec_admit :: "duration \<Rightarrow> instant \<Rightarrow> breaker_spec \<Rightarrow> bool \<times> breaker_spec" where
  "spec_admit cool now (SpecClosed n) = (True, SpecClosed n)"
| "spec_admit cool now (SpecHalfOpen t) = (False, SpecHalfOpen t)"
| "spec_admit cool now (SpecOpen t) =
     (if t + cool \<le> now then (True, SpecHalfOpen t) else (False, SpecOpen t))"

fun spec_record :: "nat \<Rightarrow> instant \<Rightarrow> bool \<Rightarrow> breaker_spec \<Rightarrow> breaker_spec" where
  "spec_record threshold now failed (SpecClosed n) =
     (if \<not> failed then SpecClosed 0
      else if threshold \<le> Suc n then SpecOpen now else SpecClosed (Suc n))"
| "spec_record threshold now failed (SpecHalfOpen t) = (if failed then SpecOpen now else SpecClosed 0)"
| "spec_record threshold now failed (SpecOpen t) = SpecOpen t"

fun spec_cancel :: "breaker_spec \<Rightarrow> breaker_spec" where
  "spec_cancel (SpecHalfOpen t) = SpecOpen t"
| "spec_cancel sp = sp"

definition breaker_abs :: "breaker \<Rightarrow> breaker_spec" where
  "breaker_abs b =
     (let t = (case opened_at (br_inner b) of None \<Rightarrow> 0 | Some t \<Rightarrow> t) in
      case breaker_state_of b of
        Closed \<Rightarrow> SpecClosed (unat (consecutive_failures (br_inner b)))
      | HalfOpen \<Rightarrow> SpecHalfOpen t
      | Open \<Rightarrow> SpecOpen t)"

definition breaker_ok :: "instant \<Rightarrow> breaker \<Rightarrow> bool" where
  "breaker_ok now b \<longleftrightarrow>
     failure_threshold b \<le> u64_max
     \<and> (breaker_state_of b = Closed \<longrightarrow>
          unat (consecutive_failures (br_inner b)) < max 1 (failure_threshold b))
     \<and> (breaker_state_of b \<noteq> Closed \<longrightarrow> (\<exists>t \<le> now. opened_at (br_inner b) = Some t))"

lemma breaker_good_ok: "breaker_good s \<Longrightarrow> breaker_ok (sys_now s) (sys_breaker s)"
  by (simp add: breaker_good_def breaker_ok_def Let_def)

lemma breaker_ok_failures_succ:
  assumes "breaker_ok now b" and "breaker_state_of b = Closed"
  shows "unat (consecutive_failures (br_inner b) + 1) = Suc (unat (consecutive_failures (br_inner b)))"
  using assms by (intro unat_succ) (auto simp: breaker_ok_def u64_max_def)

lemma breaker_admit_refines:
  assumes "breaker_ok now b"
  shows "spec_admit (cooldown b) now (breaker_abs b)
     = (\<not> isl (fst (breaker_admit now b)), breaker_abs (snd (breaker_admit now b)))"
proof (cases "breaker_state_of b")
  case Open
  with assms obtain t where "t \<le> now" "opened_at (br_inner b) = Some t"
    by (auto simp: breaker_ok_def)
  with Open show ?thesis
    by (auto simp: breaker_abs_def breaker_admit_def Let_def)
qed (auto simp: breaker_abs_def breaker_admit_def Let_def)

lemma breaker_record_refines:
  assumes "breaker_ok now b"
  shows "breaker_abs (snd (breaker_record now permit failed b)) =
     (if live b permit then spec_record (failure_threshold b) now failed (breaker_abs b)
      else breaker_abs b)"
proof (cases "breaker_state_of b")
  case Closed
  with breaker_ok_failures_succ [OF assms this] show ?thesis
    by (auto simp: breaker_abs_def breaker_record_def live_def Let_def)
qed (auto simp: breaker_abs_def breaker_record_def live_def Let_def)

lemma breaker_cancel_refines:
  "breaker_abs (breaker_cancel permit b) =
     (if live b permit \<and> pm_probe permit then spec_cancel (breaker_abs b) else breaker_abs b)"
  by (cases "breaker_state_of b") (auto simp: breaker_abs_def breaker_cancel_def live_def Let_def)

text \<open>
  C13. In every reachable state the three operations act on the specification's state as the
  specification says: generations and permits only decide whether a result is still live, and a
  stale or spent permit never moves the breaker.
\<close>

theorem breaker_refines_spec:
  assumes "breaker_start s" and "breaker_step\<^sup>*\<^sup>* s t" and "sys_bumps t < 2 ^ 64"
  shows "spec_admit (cooldown (sys_breaker t)) (sys_now t) (breaker_abs (sys_breaker t))
      = (\<not> isl (fst (breaker_admit (sys_now t) (sys_breaker t))),
         breaker_abs (snd (breaker_admit (sys_now t) (sys_breaker t))))
    \<and> breaker_abs (snd (breaker_record (sys_now t) permit failed (sys_breaker t))) =
      (if live (sys_breaker t) permit
       then spec_record (failure_threshold (sys_breaker t)) (sys_now t) failed (breaker_abs (sys_breaker t))
       else breaker_abs (sys_breaker t))
    \<and> breaker_abs (breaker_cancel permit (sys_breaker t)) =
      (if live (sys_breaker t) permit \<and> pm_probe permit
       then spec_cancel (breaker_abs (sys_breaker t)) else breaker_abs (sys_breaker t))"
  using breaker_good_ok [OF reachable_good [OF assms]]
  by (simp add: breaker_admit_refines breaker_record_refines breaker_cancel_refines)

theorem breaker_refines_spec_witness:
  "breaker_abs (snd (breaker_record 0 \<lparr>pm_generation = 0, pm_probe = False\<rparr> True
      (sys_breaker (sys_new 1 5)))) = SpecOpen 0"
proof -
  let ?s = "sys_new 1 5"
  have start: "breaker_start ?s" by (rule sys_new_start) (simp add: u64_max_def)
  have "sys_bumps ?s < 2 ^ 64" by (simp add: sys_new_def)
  from breaker_refines_spec [OF start rtranclp.rtrancl_refl this, of "\<lparr>pm_generation = 0, pm_probe = False\<rparr>" True]
  show ?thesis
    by (simp add: sys_new_def breaker_new_def live_def breaker_abs_def Let_def)
qed

section \<open>The reported delay\<close>

lemma seconds_ceil_bounds:
  assumes "d \<le> from_millis u64_max"
  shows "d \<le> from_secs (seconds_ceil d)" and "k < seconds_ceil d \<Longrightarrow> from_secs k < d"
proof -
  have "as_secs d < u64_max"
    using assms by (simp add: as_secs_def from_millis_def u64_max_def)
  then have "seconds_ceil d = as_secs d + (if subsec_nanos d > 0 then 1 else 0)"
    by (simp add: seconds_ceil_def saturating_add_def)
  moreover have d: "d = as_secs d * nanos_per_sec + subsec_nanos d" "subsec_nanos d < nanos_per_sec"
    by (simp_all add: as_secs_def subsec_nanos_def)
  ultimately show "d \<le> from_secs (seconds_ceil d)" and "k < seconds_ceil d \<Longrightarrow> from_secs k < d"
    using d by (auto simp: from_secs_def split: if_splits)
qed

lemma breaker_admit_open:
  assumes "breaker_state_of b = Open" and "opened_at (br_inner b) = Some opened"
  shows "isl (fst (breaker_admit now b)) \<longleftrightarrow> now - opened < cooldown b"
    and "now - opened < cooldown b \<Longrightarrow>
         breaker_admit now b = (Inl (seconds_ceil (cooldown b - (now - opened))), b)"
  using assms by (auto simp: breaker_admit_def Let_def)

text \<open>
  The delay an open breaker reports (the \<open>Retry-After\<close> of the 503 answer) is the least whole
  number of seconds that is enough: nothing is changed by the refusal, a request after that many
  seconds is admitted as the probe, and one after any smaller number is still refused. The
  cooldown is any number of milliseconds the configuration can hold.
\<close>

theorem breaker_retry_after_exact:
  assumes "breaker_state_of b = Open" and "opened_at (br_inner b) = Some opened" and "opened \<le> now"
    and "cooldown b \<le> from_millis u64_max"
    and "breaker_admit now b = (Inl retry, b')"
  shows "b' = b \<and> 1 \<le> retry
    \<and> (\<exists>adm b''. breaker_admit (now + from_secs retry) b = (Inr adm, b'') \<and> pm_probe (ad_permit adm))
    \<and> (\<forall>k < retry. \<exists>r. breaker_admit (now + from_secs k) b = (Inl r, b))"
proof -
  define wait where "wait = cooldown b - (now - opened)"
  from assms have early: "now - opened < cooldown b"
    using breaker_admit_open(1) [OF assms(1,2), of now] by simp
  then have b': "b' = b" "retry = seconds_ceil wait"
    using assms breaker_admit_open(2) [OF assms(1,2) early] by (auto simp: wait_def)
  have "wait \<le> from_millis u64_max" "0 < wait" using assms(4) early by (simp_all add: wait_def)
  note ceil = seconds_ceil_bounds [OF this(1)]
  have pos: "1 \<le> retry"
    using ceil(1) \<open>0 < wait\<close> by (cases "seconds_ceil wait") (auto simp: b' from_secs_def)
  have refused: "\<exists>r. breaker_admit (now + from_secs k) b = (Inl r, b)" if "k < retry" for k
    using ceil(2) [of k] that assms(3) early breaker_admit_open(2) [OF assms(1,2), of "now + from_secs k"]
    by (auto simp: b' wait_def)
  have "cooldown b \<le> now + from_secs retry - opened"
    using ceil(1) assms(3) by (simp add: b' wait_def)
  with assms(1,2) have "\<exists>adm b''. breaker_admit (now + from_secs retry) b = (Inr adm, b'')
      \<and> pm_probe (ad_permit adm)"
    by (simp add: breaker_admit_def Let_def)
  with b' pos refused show ?thesis by blast
qed

text \<open>A breaker that opened at second 1 with a cooldown of 2.5 seconds, half a second later.\<close>

definition sample_open_breaker :: breaker where
  "sample_open_breaker =
     \<lparr>failure_threshold = 1, cooldown = from_millis 2500,
      br_inner = \<lparr>br_state = Open, consecutive_failures = 1, opened_at = Some (from_secs 1),
                  br_generation = 1\<rparr>\<rparr>"

theorem breaker_retry_after_exact_witness:
  "breaker_admit (from_millis 1400) sample_open_breaker = (Inl 3, sample_open_breaker)
   \<and> (\<exists>adm b''. breaker_admit (from_millis 1400 + from_secs 3) sample_open_breaker = (Inr adm, b'')
        \<and> pm_probe (ad_permit adm))"
proof -
  have refusal: "breaker_admit (from_millis 1400) sample_open_breaker = (Inl 3, sample_open_breaker)"
    by (simp add: sample_open_breaker_def breaker_admit_def from_millis_def from_secs_def seconds_ceil_def
        as_secs_def subsec_nanos_def saturating_add_def u64_max_def)
  moreover have "\<exists>adm b''. breaker_admit (from_millis 1400 + from_secs 3) sample_open_breaker = (Inr adm, b'')
      \<and> pm_probe (ad_permit adm)"
    using breaker_retry_after_exact [OF _ _ _ _ refusal, of "from_secs 1"]
    by (simp add: sample_open_breaker_def from_millis_def from_secs_def u64_max_def)
  ultimately show ?thesis ..
qed

section \<open>The threshold\<close>

text \<open>The outcomes of requests admitted while the breaker was closed, in the order they are recorded.\<close>

fun record_outcomes :: "breaker_permit \<Rightarrow> (instant \<times> bool) list \<Rightarrow> breaker \<Rightarrow> breaker" where
  "record_outcomes permit [] b = b"
| "record_outcomes permit ((now, failed) # rest) b =
     record_outcomes permit rest (snd (breaker_record now permit failed b))"

lemma record_outcomes_dead:
  assumes "breaker_state_of b \<noteq> Closed" and "\<not> pm_probe permit"
  shows "record_outcomes permit outs b = b"
  using assms
  by (induction outs) (auto simp: breaker_record_def Let_def)

definition failure_run :: "nat \<Rightarrow> bool list \<Rightarrow> bool" where
  "failure_run n fs \<longleftrightarrow> sublist (replicate n True) fs"

lemma failure_run_success:
  assumes "m < n"
  shows "failure_run n (replicate m True @ False # fs) \<longleftrightarrow> failure_run n fs"
proof -
  have only_nil: "xs = []" if "prefix xs (False # zs)" and "set xs \<subseteq> {True}" for xs zs
    using that by (cases xs) auto
  have parts: "set xs2 \<subseteq> {True}" if "replicate n True = xs1 @ xs2" for xs1 xs2
    by (metis in_set_replicate insertCI set_append subsetI Un_iff that)
  have long: "\<not> sublist (replicate n True) (replicate m True)"
    using assms sublist_length_le by fastforce
  have "\<not> prefix (replicate n True) (False # fs)"
    using assms by (cases n) auto
  then show ?thesis
    unfolding failure_run_def sublist_append sublist_Cons_right using long
    by (metis append_Nil2 only_nil parts suffix_imp_sublist)
qed

lemma record_outcomes_failure_run:
  assumes "breaker_state_of b = Closed" and "\<not> pm_probe permit"
    and "pm_generation permit = breaker_generation b"
    and "unat (consecutive_failures (br_inner b)) < failure_threshold b" and "failure_threshold b \<le> u64_max"
  shows "breaker_state_of (record_outcomes permit outs b) =
    (if failure_run (failure_threshold b)
          (replicate (unat (consecutive_failures (br_inner b))) True @ map snd outs)
     then Open else Closed)"
  using assms
proof (induction outs arbitrary: b)
  case Nil
  then show ?case by (auto simp: failure_run_def dest: sublist_length_le)
next
  case (Cons out outs)
  obtain now failed where out: "out = (now, failed)" by (cases out)
  define m where "m = unat (consecutive_failures (br_inner b))"
  have succ: "unat (consecutive_failures (br_inner b) + 1) = Suc m"
    unfolding m_def using Cons.prems by (intro unat_succ) (simp add: u64_max_def)
  show ?case
  proof (cases failed)
    case False
    with Cons.prems Cons.IH [of "snd (breaker_record now permit failed b)"] show ?thesis
      by (simp add: out breaker_record_def Let_def failure_run_success)
  next
    case True
    have shift: "replicate m True @ True # fs = replicate (Suc m) True @ fs" for fs
      by (simp add: replicate_app_Cons_same)
    show ?thesis
    proof (cases "failure_threshold b \<le> Suc m")
      case True
      with Cons.prems have "failure_threshold b = Suc m" by (simp add: m_def)
      with \<open>failed\<close> Cons.prems succ show ?thesis
        by (simp add: out breaker_record_def Let_def record_outcomes_dead failure_run_def
            shift [unfolded m_def] m_def)
    next
      case False
      with \<open>failed\<close> Cons.prems succ Cons.IH [of "snd (breaker_record now permit failed b)"]
      show ?thesis
        by (simp add: out breaker_record_def Let_def shift [unfolded m_def] m_def)
    qed
  qed
qed

text \<open>
  A new breaker is open after a series of recorded outcomes exactly if the series contains
  as many consecutive failures as the threshold says: one success in between starts the count
  anew, and no number of separated failures opens it.
\<close>

theorem breaker_opens_at_threshold:
  assumes "1 \<le> threshold" and "threshold \<le> u64_max"
    and "breaker_admit now (breaker_new threshold cool) = (Inr adm, b)"
  shows "breaker_state_of (record_outcomes (ad_permit adm) outs b) =
    (if sublist (replicate threshold True) (map snd outs) then Open else Closed)"
  using assms record_outcomes_failure_run [of b "ad_permit adm" outs]
  by (auto simp: breaker_admit_def breaker_new_def Let_def failure_run_def)

theorem breaker_opens_at_threshold_witness:
  "breaker_state_of (record_outcomes \<lparr>pm_generation = 0, pm_probe = False\<rparr>
     [(0, True), (1, False), (2, True), (3, True)] (breaker_new 2 5)) = Open"
proof -
  have "breaker_admit 0 (breaker_new 2 5) =
      (Inr \<lparr>ad_permit = \<lparr>pm_generation = 0, pm_probe = False\<rparr>, ad_transition = None\<rparr>, breaker_new 2 5)"
    by (simp add: breaker_admit_def breaker_new_def)
  from breaker_opens_at_threshold [OF _ _ this, of "[(0, True), (1, False), (2, True), (3, True)]"]
  have "breaker_state_of (record_outcomes \<lparr>pm_generation = 0, pm_probe = False\<rparr>
       [(0, True), (1, False), (2, True), (3, True)] (breaker_new 2 5)) =
     (if sublist (replicate 2 True) [True, False, True, True] then Open else Closed)"
    by (simp add: u64_max_def)
  moreover have "sublist (replicate 2 True) [True, False, True, True]"
    by (simp add: numeral_2_eq_2 sublist_Cons_right)
  ultimately show ?thesis by (simp only: if_True)
qed

end
