(* ===== verification/Executor.thy ===== *)
theory Executor
  imports Breaker Convert
begin

text \<open>
  The command executors: the port (\<open>src/ports/mod.rs\<close>), the Redis client adapter
  (\<open>src/adapters/fred_executor.rs\<close>) and the wrapper that reports outcomes to the circuit
  breaker (\<open>src/adapters/breaker_executor.rs\<close>).

  The Redis client library is a parameter, \<open>fred_ops\<close>: one round trip of a raw command, the
  connection test, the forced reconnection and the key slot function, over an opaque client
  state. An executor runs one operation at a time (its operation lock), and the commands of a
  pipeline are polled in order on one task, so an operation is a function of the client state.
  The locale \<open>command_executor\<close> states what the HTTP handlers rely on: one result per pipeline
  command and no reply nested deeper than the converter accepts. It is interpreted on the
  client adapter and on the breaker wrapper around it.
\<close>

section \<open>The port\<close>

text \<open>What the handlers rely on of an executor; \<open>'p\<close> is the state it works on.\<close>

locale command_executor =
  fixes execute :: "redis_command \<Rightarrow> 'p \<Rightarrow> exec_result \<times> 'p"
    and pipeline :: "redis_command list \<Rightarrow> 'p \<Rightarrow> exec_result list \<times> 'p"
    and transaction :: "redis_command list \<Rightarrow> 'p \<Rightarrow> (exec_error + exec_result list) \<times> 'p"
  assumes execute_depth: "fst (execute cmd p) = Inr v \<Longrightarrow> resp_depth v \<le> MAX_DEPTH"
    and pipeline_length: "length (fst (pipeline cmds p)) = length cmds"
    and pipeline_depth: "Inr v \<in> set (fst (pipeline cmds p)) \<Longrightarrow> resp_depth v \<le> MAX_DEPTH"
    and transaction_depth: "fst (transaction cmds p) = Inr rs \<Longrightarrow> Inr v \<in> set rs \<Longrightarrow> resp_depth v \<le> MAX_DEPTH"

section \<open>Frames and errors of the client library\<close>

datatype frame =
    SimpleString bytes
  | BlobString bytes
  | Number int
  | Null
  | ArrayFrame "frame list"
  | SimpleError string
  | BlobError bytes
  | Boolean | Double | BigNumber | VerbatimString | MapFrame | SetFrame | Push | Hello | ChunkedString

record fred_error =
  fe_timeout :: bool
  fe_details :: string
  fe_text :: string

definition protocol_violation :: "string \<Rightarrow> exec_error" where
  "protocol_violation message = ExecTransport (''Redis protocol violation: '' @ message)"

text \<open>The length of the white space character a string starts with, 0 if it starts with none.\<close>

definition whitespace_len :: "string \<Rightarrow> nat" where
  "whitespace_len s =
     (let b = safe_get s in
      if s \<noteq> [] \<and> (9 \<le> b 0 \<and> b 0 \<le> 13 \<or> b 0 = 32) then 1
      else if b 0 = 194 \<and> (b 1 = 133 \<or> b 1 = 160) then 2
      else if b 0 = 225 \<and> b 1 = 154 \<and> b 2 = 128 then 3
      else if b 0 = 226 \<and> b 1 = 128 \<and> (128 \<le> b 2 \<and> b 2 \<le> 138 \<or> b 2 = 168 \<or> b 2 = 169 \<or> b 2 = 175) then 3
      else if b 0 = 226 \<and> b 1 = 129 \<and> b 2 = 159 then 3
      else if b 0 = 227 \<and> b 1 = 128 \<and> b 2 = 128 then 3
      else 0)"

function skip_whitespace :: "string \<Rightarrow> string" where
  "skip_whitespace s =
     (if whitespace_len s = 0 \<or> s = [] then s else skip_whitespace (drop (whitespace_len s) s))"
  by auto
termination by (relation "measure length") auto

declare skip_whitespace.simps [simp del]

fun take_word :: "string \<Rightarrow> string" where
  "take_word [] = []"
| "take_word (c # s) = (if whitespace_len (c # s) \<noteq> 0 then [] else c # take_word s)"

definition is_redis_error :: "string \<Rightarrow> bool" where
  "is_redis_error details =
     (let prefix = take_word (skip_whitespace details) in
      prefix \<noteq> []
      \<and> list_all (\<lambda>c. 65 \<le> byte_of c \<and> byte_of c \<le> 90 \<or> 48 \<le> byte_of c \<and> byte_of c \<le> 57 \<or> byte_of c = 95) prefix)"

definition map_fred_error :: "fred_error \<Rightarrow> exec_error" where
  "map_fred_error e =
     (if is_redis_error (fe_details e) then ExecRedis (fe_details e)
      else if fe_timeout e then ExecTimeout
      else ExecTransport (fe_text e))"

fun frame_within_depth :: "nat \<Rightarrow> frame \<Rightarrow> exec_error + resp_value"
  and frames_within_depth :: "nat \<Rightarrow> frame list \<Rightarrow> exec_error + resp_value list"
where
  "frame_within_depth depth f =
     (case checked_sub depth 1 of
        None \<Rightarrow> Inl ExecResponseTooLarge
      | Some depth_remaining \<Rightarrow>
          (case f of
             SimpleString b \<Rightarrow>
               (case from_utf8 b of
                  Some s \<Rightarrow> Inr (RespSimple s)
                | None \<Rightarrow> Inl (protocol_violation ''non-UTF-8 RESP2 simple string''))
           | BlobString b \<Rightarrow> Inr (RespBulk b)
           | Number i \<Rightarrow> Inr (RespInt i)
           | Null \<Rightarrow> Inr RespNil
           | ArrayFrame fs \<Rightarrow> res_bind (frames_within_depth depth_remaining fs) (\<lambda>vs. Inr (RespArray vs))
           | SimpleError s \<Rightarrow> Inl (ExecRedis s)
           | BlobError b \<Rightarrow> Inl (ExecRedis (from_utf8_lossy b))
           | Boolean \<Rightarrow> Inl (protocol_violation ''unexpected RESP3 boolean'')
           | Double \<Rightarrow> Inl (protocol_violation ''unexpected RESP3 double'')
           | BigNumber \<Rightarrow> Inl (protocol_violation ''unexpected RESP3 big number'')
           | VerbatimString \<Rightarrow> Inl (protocol_violation ''unexpected RESP3 verbatim string'')
           | MapFrame \<Rightarrow> Inl (protocol_violation ''unexpected RESP3 map'')
           | SetFrame \<Rightarrow> Inl (protocol_violation ''unexpected RESP3 set'')
           | Push \<Rightarrow> Inl (protocol_violation ''unexpected RESP3 push'')
           | Hello \<Rightarrow> Inl (protocol_violation ''unexpected RESP3 hello'')
           | ChunkedString \<Rightarrow> Inl (protocol_violation ''unexpected RESP3 chunked string'')))"
| "frames_within_depth depth [] = Inr []"
| "frames_within_depth depth (f # fs) =
     res_bind (frame_within_depth depth f) (\<lambda>v.
     res_bind (frames_within_depth depth fs) (\<lambda>vs. Inr (v # vs)))"

declare frame_within_depth.simps [simp del]

definition fred_frame_to_resp :: "frame \<Rightarrow> exec_error + resp_value" where
  "fred_frame_to_resp f = frame_within_depth MAX_DEPTH f"

section \<open>The client adapter\<close>

datatype cluster_hash = FirstKey | CustomSlot nat

record 'c fred_ops =
  fc_custom_raw :: "string \<Rightarrow> cluster_hash \<Rightarrow> bytes list \<Rightarrow> 'c \<Rightarrow> (fred_error + frame) \<times> 'c"
  fc_is_connected :: "'c \<Rightarrow> bool"
  fc_force_reconnection :: "'c \<Rightarrow> 'c"
  fc_keyslot :: "bytes \<Rightarrow> nat"
  fc_debug :: "resp_value \<Rightarrow> string"

record 'c fred =
  fr_client :: 'c
  fr_reset_started :: bool

definition fred_from_pooled_client :: "'c \<Rightarrow> 'c fred" where
  "fred_from_pooled_client client = \<lparr>fr_client = client, fr_reset_started = False\<rparr>"

definition fred_map_error :: "'c fred_ops \<Rightarrow> fred_error \<Rightarrow> 'c fred \<Rightarrow> exec_error \<times> 'c fred" where
  "fred_map_error ops e x =
     (let mapped = map_fred_error e in
      if mapped = ExecTimeout \<and> fc_is_connected ops (fr_client x) \<and> \<not> fr_reset_started x
      then (mapped, x\<lparr>fr_reset_started := True, fr_client := fc_force_reconnection ops (fr_client x)\<rparr>)
      else (mapped, x))"

definition fred_raw ::
  "'c fred_ops \<Rightarrow> string \<Rightarrow> cluster_hash \<Rightarrow> bytes list \<Rightarrow> 'c fred \<Rightarrow> (exec_error + frame) \<times> 'c fred" where
  "fred_raw ops name hash args x =
     (case fc_custom_raw ops name hash args (fr_client x) of
        (Inr f, c) \<Rightarrow> (Inr f, x\<lparr>fr_client := c\<rparr>)
      | (Inl e, c) \<Rightarrow>
          (case fred_map_error ops e (x\<lparr>fr_client := c\<rparr>) of (mapped, x') \<Rightarrow> (Inl mapped, x')))"

definition fred_execute :: "'c fred_ops \<Rightarrow> redis_command \<Rightarrow> 'c fred \<Rightarrow> exec_result \<times> 'c fred" where
  "fred_execute ops cmd x =
     (case fred_raw ops (cmd_name cmd) FirstKey (cmd_args cmd) x of
        (r, x') \<Rightarrow> (res_bind r fred_frame_to_resp, x'))"

fun fred_pipeline :: "'c fred_ops \<Rightarrow> redis_command list \<Rightarrow> 'c fred \<Rightarrow> exec_result list \<times> 'c fred" where
  "fred_pipeline ops [] x = ([], x)"
| "fred_pipeline ops (cmd # cmds) x =
     (let (r, x1) = fred_execute ops cmd x; (rs, x2) = fred_pipeline ops cmds x1 in (r # rs, x2))"

definition fred_reply ::
  "'c fred_ops \<Rightarrow> string \<Rightarrow> cluster_hash \<Rightarrow> bytes list \<Rightarrow> 'c fred \<Rightarrow> exec_result \<times> 'c fred" where
  "fred_reply ops name hash args x =
     (case fred_raw ops name hash args x of (r, x') \<Rightarrow> (res_bind r fred_frame_to_resp, x'))"

fun fred_queue ::
  "'c fred_ops \<Rightarrow> cluster_hash \<Rightarrow> redis_command list \<Rightarrow> 'c fred \<Rightarrow> (exec_error + unit) \<times> 'c fred" where
  "fred_queue ops hash [] x = (Inr (), x)"
| "fred_queue ops hash (cmd # cmds) x =
     (case fred_reply ops (cmd_name cmd) hash (cmd_args cmd) x of
        (Inr response, x1) \<Rightarrow>
          if response = RespSimple ''QUEUED'' then fred_queue ops hash cmds x1
          else (Inl (protocol_violation (''transaction command returned '' @ fc_debug ops response
                       @ '' instead of QUEUED'')),
                snd (fred_raw ops ''DISCARD'' hash [] x1))
      | (Inl e, x1) \<Rightarrow> (Inl e, snd (fred_raw ops ''DISCARD'' hash [] x1)))"

definition fred_exec_reply :: "frame \<Rightarrow> exec_error + exec_result list" where
  "fred_exec_reply f =
     (case f of
        ArrayFrame fs \<Rightarrow> Inr (map (frame_within_depth MAX_DEPTH) fs)
      | Null \<Rightarrow> Inl (ExecRedis ''EXECABORT Transaction discarded because of previous errors.'')
      | _ \<Rightarrow> (case fred_frame_to_resp f of
                Inl e \<Rightarrow> Inl e
              | Inr _ \<Rightarrow> Inl (protocol_violation ''EXEC returned a non-array response'')))"

fun first_key :: "redis_command list \<Rightarrow> bytes option" where
  "first_key [] = None"
| "first_key (cmd # cmds) = (case cmd_args cmd of a # _ \<Rightarrow> Some a | [] \<Rightarrow> first_key cmds)"

definition transaction_hash :: "'c fred_ops \<Rightarrow> redis_command list \<Rightarrow> cluster_hash" where
  "transaction_hash ops cmds =
     (case first_key cmds of Some key \<Rightarrow> CustomSlot (fc_keyslot ops key) | None \<Rightarrow> FirstKey)"

definition fred_transaction ::
  "'c fred_ops \<Rightarrow> redis_command list \<Rightarrow> 'c fred \<Rightarrow> (exec_error + exec_result list) \<times> 'c fred" where
  "fred_transaction ops cmds x =
     (if cmds = [] then (Inr [], x)
      else
       (let hash = transaction_hash ops cmds in
        case fred_reply ops ''MULTI'' hash [] x of
          (Inl e, x1) \<Rightarrow> (Inl e, x1)
        | (Inr response, x1) \<Rightarrow>
            if response \<noteq> RespSimple ''OK''
            then (Inl (protocol_violation (''MULTI returned '' @ fc_debug ops response)), x1)
            else (case fred_queue ops hash cmds x1 of
                    (Inl e, x2) \<Rightarrow> (Inl e, x2)
                  | (Inr _, x2) \<Rightarrow>
                      (case fred_raw ops ''EXEC'' hash [] x2 of
                         (r, x3) \<Rightarrow> (res_bind r fred_exec_reply, x3)))))"

section \<open>Reporting to the breaker\<close>

definition counts_as_failure :: "exec_error \<Rightarrow> bool" where
  "counts_as_failure e = (case e of ExecTransport _ \<Rightarrow> True | ExecTimeout \<Rightarrow> True | _ \<Rightarrow> False)"

text \<open>
  The wrapper around an inner executor: the state the inner one works on, the breaker it shares
  with the pool, and whether an outcome was recorded. The gauge it sets on a transition is the
  list of transitions.
\<close>

record 'p breaker_executor =
  be_inner :: 'p
  be_breaker :: breaker
  be_permit :: breaker_permit
  be_recorded :: bool
  be_transitions :: "breaker_transition list"

definition be_new :: "'p \<Rightarrow> breaker \<Rightarrow> breaker_permit \<Rightarrow> 'p breaker_executor" where
  "be_new inner b permit =
     \<lparr>be_inner = inner, be_breaker = b, be_permit = permit, be_recorded = False, be_transitions = []\<rparr>"

definition emit_transition :: "breaker_transition option \<Rightarrow> 'p breaker_executor \<Rightarrow> 'p breaker_executor" where
  "emit_transition t x = (case t of Some tr \<Rightarrow> x\<lparr>be_transitions := tr # be_transitions x\<rparr> | None \<Rightarrow> x)"

definition be_record :: "instant \<Rightarrow> exec_error list \<Rightarrow> 'p breaker_executor \<Rightarrow> 'p breaker_executor" where
  "be_record now errors x =
     (case breaker_record now (be_permit x) (list_ex counts_as_failure errors) (be_breaker x) of
        (t, b) \<Rightarrow> emit_transition t (x\<lparr>be_recorded := True, be_breaker := b\<rparr>))"

definition be_drop :: "'p breaker_executor \<Rightarrow> 'p breaker_executor" where
  "be_drop x =
     (if be_recorded x then x else x\<lparr>be_breaker := breaker_cancel (be_permit x) (be_breaker x)\<rparr>)"

fun err_of :: "exec_result \<Rightarrow> exec_error list" where
  "err_of (Inl e) = [e]"
| "err_of (Inr _) = []"

definition be_execute ::
  "instant \<Rightarrow> (redis_command \<Rightarrow> 'p \<Rightarrow> exec_result \<times> 'p) \<Rightarrow> redis_command \<Rightarrow> 'p breaker_executor
    \<Rightarrow> exec_result \<times> 'p breaker_executor" where
  "be_execute now execute cmd x =
     (case execute cmd (be_inner x) of (r, p) \<Rightarrow> (r, be_record now (err_of r) (x\<lparr>be_inner := p\<rparr>)))"

definition be_pipeline ::
  "instant \<Rightarrow> (redis_command list \<Rightarrow> 'p \<Rightarrow> exec_result list \<times> 'p) \<Rightarrow> redis_command list
    \<Rightarrow> 'p breaker_executor \<Rightarrow> exec_result list \<times> 'p breaker_executor" where
  "be_pipeline now pipeline cmds x =
     (case pipeline cmds (be_inner x) of
        (rs, p) \<Rightarrow> (rs, be_record now (concat (map err_of rs)) (x\<lparr>be_inner := p\<rparr>)))"

definition be_transaction ::
  "instant \<Rightarrow> (redis_command list \<Rightarrow> 'p \<Rightarrow> (exec_error + exec_result list) \<times> 'p) \<Rightarrow> redis_command list
    \<Rightarrow> 'p breaker_executor \<Rightarrow> (exec_error + exec_result list) \<times> 'p breaker_executor" where
  "be_transaction now transaction cmds x =
     (case transaction cmds (be_inner x) of
        (r, p) \<Rightarrow>
          (r, be_record now (case r of Inr slots \<Rightarrow> concat (map err_of slots) | Inl e \<Rightarrow> [e]) (x\<lparr>be_inner := p\<rparr>)))"

section \<open>The contract holds\<close>

lemma frame_within_depth_depth:
  "frame_within_depth depth f = Inr v \<Longrightarrow> resp_depth v \<le> depth"
  "frames_within_depth depth fs = Inr vs \<Longrightarrow> v \<in> set vs \<Longrightarrow> resp_depth v \<le> depth"
proof (induction depth f and depth fs arbitrary: v and vs v rule: frame_within_depth_frames_within_depth.induct)
  case (1 depth f)
  then obtain d where d: "depth = Suc d"
    by (cases depth) (auto simp: frame_within_depth.simps)
  show ?case
  proof (cases f)
    case (ArrayFrame fs)
    then obtain vs where vs: "frames_within_depth d fs = Inr vs" "v = RespArray vs"
      using "1.prems" d by (auto simp: frame_within_depth.simps res_bind_Inr_iff)
    have "resp_depth w \<le> d" if "w \<in> set vs" for w
      using 1 (1) [of d fs] d ArrayFrame vs(1) that by auto
    then show ?thesis
      using resp_depth_Array_le_iff [of vs d] by (simp add: vs(2) d del: resp_depth.simps)
  qed (use "1.prems" d in \<open>auto simp: frame_within_depth.simps split: option.splits\<close>)
qed (auto simp: res_bind_Inr_iff)

lemma fred_execute_depth: "fst (fred_execute ops cmd x) = Inr v \<Longrightarrow> resp_depth v \<le> MAX_DEPTH"
  by (auto simp: fred_execute_def fred_frame_to_resp_def res_bind_Inr_iff split: prod.splits
      intro: frame_within_depth_depth)

lemma fred_pipeline_results:
  "length (fst (fred_pipeline ops cmds x)) = length cmds
   \<and> (\<forall>v. Inr v \<in> set (fst (fred_pipeline ops cmds x)) \<longrightarrow> resp_depth v \<le> MAX_DEPTH)"
proof (induction ops cmds x rule: fred_pipeline.induct)
  case (2 ops cmd cmds x)
  obtain r x1 where r: "fred_execute ops cmd x = (r, x1)" by fastforce
  obtain rs x2 where rs: "fred_pipeline ops cmds x1 = (rs, x2)" by fastforce
  from 2 r rs fred_execute_depth [of ops cmd x] show ?case by auto
qed simp

lemma fred_transaction_depth:
  assumes "fst (fred_transaction ops cmds x) = Inr rs" and "Inr v \<in> set rs"
  shows "resp_depth v \<le> MAX_DEPTH"
proof (cases "rs = []")
  case False
  define hash where "hash = transaction_hash ops cmds"
  obtain r1 x1 where m: "fred_reply ops ''MULTI'' hash [] x = (r1, x1)" by fastforce
  obtain r2 x2 where q: "fred_queue ops hash cmds x1 = (r2, x2)" by fastforce
  obtain r3 x3 where e: "fred_raw ops ''EXEC'' hash [] x2 = (r3, x3)" by fastforce
  have "\<exists>f. fred_exec_reply f = Inr rs"
    using assms(1) False
    by (cases r1; cases r2; cases r3)
      (auto simp: fred_transaction_def Let_def m q e simp flip: hash_def split: if_splits)
  then obtain f where f: "fred_exec_reply f = Inr rs" ..
  then have "\<exists>fs. rs = map (frame_within_depth MAX_DEPTH) fs"
    by (cases f) (auto simp: fred_exec_reply_def split: sum.splits)
  with assms(2) obtain g where "frame_within_depth MAX_DEPTH g = Inr v" by (metis imageE list.set_map)
  then show ?thesis by (rule frame_within_depth_depth(1))
qed (use assms in simp)

interpretation fred: command_executor "fred_execute ops" "fred_pipeline ops" "fred_transaction ops"
  for ops :: "'c fred_ops"
  using fred_execute_depth fred_pipeline_results fred_transaction_depth
  by unfold_locales blast+

context command_executor
begin

text \<open>The breaker wrapper passes the results of its inner executor on, so it keeps the contract.\<close>

lemma wrapped:
  "command_executor (be_execute now execute) (be_pipeline now pipeline) (be_transaction now transaction)"
proof
  show "resp_depth v \<le> MAX_DEPTH" if "fst (be_execute now execute cmd p) = Inr v" for cmd p v
    using that execute_depth [of cmd "be_inner p"] by (auto simp: be_execute_def split: prod.splits)
  show "length (fst (be_pipeline now pipeline cmds p)) = length cmds" for cmds p
    using pipeline_length [of cmds "be_inner p"] by (auto simp: be_pipeline_def split: prod.splits)
  show "resp_depth v \<le> MAX_DEPTH" if "Inr v \<in> set (fst (be_pipeline now pipeline cmds p))" for v cmds p
    using that pipeline_depth [of v cmds "be_inner p"] by (auto simp: be_pipeline_def split: prod.splits)
  show "resp_depth v \<le> MAX_DEPTH"
    if "fst (be_transaction now transaction cmds p) = Inr rs" "Inr v \<in> set rs" for cmds p rs v
    using that transaction_depth [of cmds "be_inner p" rs v] by (auto simp: be_transaction_def split: prod.splits)
qed

end

interpretation pooled: command_executor "be_execute now (fred_execute ops)" "be_pipeline now (fred_pipeline ops)"
    "be_transaction now (fred_transaction ops)"
  for now :: instant and ops :: "'c fred_ops"
  by (rule fred.wrapped)

section \<open>Transactions on the connection\<close>

text \<open>A client that keeps the names of the raw commands it was given, latest first.\<close>

definition logging :: "'c fred_ops \<Rightarrow> ('c \<times> string list) fred_ops" where
  "logging ops =
     \<lparr>fc_custom_raw = (\<lambda>name hash args (c, log).
        (case fc_custom_raw ops name hash args c of (r, c') \<Rightarrow> (r, (c', name # log)))),
      fc_is_connected = (\<lambda>(c, log). fc_is_connected ops c),
      fc_force_reconnection = (\<lambda>(c, log). (fc_force_reconnection ops c, log)),
      fc_keyslot = fc_keyslot ops,
      fc_debug = fc_debug ops\<rparr>"

abbreviation sent :: "('c \<times> string list) fred \<Rightarrow> string list" where
  "sent x \<equiv> snd (fr_client x)"

lemma fred_raw_sent: "fred_raw (logging ops) name hash args x = (r, x') \<Longrightarrow> sent x' = name # sent x"
  by (cases "fr_client x")
    (auto simp: fred_raw_def logging_def fred_map_error_def Let_def split: prod.splits sum.splits if_splits)

lemma fred_reply_sent: "fred_reply (logging ops) name hash args x = (r, x') \<Longrightarrow> sent x' = name # sent x"
  using fred_raw_sent by (auto simp: fred_reply_def split: prod.splits)

lemma fred_queue_sent:
  assumes "fred_queue (logging ops) hash cmds x = (r, x')"
  shows "case r of
      Inr _ \<Rightarrow> sent x' = rev (map cmd_name cmds) @ sent x
    | Inl _ \<Rightarrow> \<exists>k. 1 \<le> k \<and> k \<le> length cmds \<and> sent x' = ''DISCARD'' # rev (map cmd_name (take k cmds)) @ sent x"
  using assms
proof (induction cmds arbitrary: x)
  case (Cons cmd cmds)
  obtain r1 x1 where r1: "fred_reply (logging ops) (cmd_name cmd) hash (cmd_args cmd) x = (r1, x1)" by fastforce
  have s1: "sent x1 = cmd_name cmd # sent x" by (rule fred_reply_sent [OF r1])
  obtain r2 x2 where r2: "fred_raw (logging ops) ''DISCARD'' hash [] x1 = (r2, x2)" by fastforce
  have s2: "sent x2 = ''DISCARD'' # cmd_name cmd # sent x" using fred_raw_sent [OF r2] s1 by simp
  show ?case
  proof (cases "r1 = Inr (RespSimple ''QUEUED'')")
    case True
    then have "fred_queue (logging ops) hash cmds x1 = (r, x')"
      using Cons.prems r1 by simp
    from Cons.IH [OF this] s1 show ?thesis
      by (auto split: sum.splits intro: exI [of _ "Suc k" for k])
  next
    case False
    then have "isl r" "x' = x2"
      using Cons.prems r1 r2 by (auto split: sum.splits if_splits)
    with s2 show ?thesis by (auto simp: isl_def intro!: exI [of _ 1])
  qed
qed (auto split: sum.splits)

lemma transaction_protocol_cases:
  assumes "fred_transaction (logging ops) cmds x = (r, x')"
  shows "(cmds = [] \<and> r = Inr [] \<and> sent x' = sent x)
    \<or> (isl r \<and> sent x' = ''MULTI'' # sent x)
    \<or> (isl r \<and> (\<exists>k. 1 \<le> k \<and> k \<le> length cmds \<and>
          sent x' = ''DISCARD'' # rev (map cmd_name (take k cmds)) @ ''MULTI'' # sent x))
    \<or> sent x' = ''EXEC'' # rev (map cmd_name cmds) @ ''MULTI'' # sent x"
proof (cases "cmds = []")
  case True
  with assms show ?thesis by (auto simp: fred_transaction_def)
next
  case False
  define hash where "hash = transaction_hash (logging ops) cmds"
  obtain r1 x1 where m: "fred_reply (logging ops) ''MULTI'' hash [] x = (r1, x1)" by fastforce
  obtain r2 x2 where q: "fred_queue (logging ops) hash cmds x1 = (r2, x2)" by fastforce
  obtain r3 x3 where e: "fred_raw (logging ops) ''EXEC'' hash [] x2 = (r3, x3)" by fastforce
  note logs = fred_reply_sent [OF m] fred_queue_sent [OF q] fred_raw_sent [OF e]
  show ?thesis
  proof (cases "r1 = Inr (RespSimple ''OK'')")
    case True
    with assms False m q e have run: "(r, x') = (case r2 of Inl err \<Rightarrow> (Inl err, x2) | Inr _ \<Rightarrow> (res_bind r3 fred_exec_reply, x3))"
      by (simp add: fred_transaction_def Let_def flip: hash_def split: sum.splits)
    show ?thesis using run logs by (cases r2) auto
  next
    case no_multi: False
    with assms False m logs(1) show ?thesis
      by (cases r1) (auto simp: fred_transaction_def Let_def simp flip: hash_def split: if_splits)
  qed
qed

lemma transaction_sent:
  "fred_transaction (logging ops) cmds x = (Inr rs, x') \<Longrightarrow> cmds \<noteq> [] \<Longrightarrow>
     sent x' = ''EXEC'' # rev (map cmd_name cmds) @ ''MULTI'' # sent x"
  using transaction_protocol_cases [of ops cmds x "Inr rs" x'] by auto


text \<open>A client that answers every raw command as a healthy server does.\<close>

definition healthy_ops :: "unit fred_ops" where
  "healthy_ops =
     \<lparr>fc_custom_raw = (\<lambda>name hash args c.
        (Inr (if name = ''MULTI'' then SimpleString ''OK''
              else if name = ''EXEC'' then ArrayFrame [Number 1] else SimpleString ''QUEUED''), c)),
      fc_is_connected = (\<lambda>_. True), fc_force_reconnection = (\<lambda>c. c), fc_keyslot = length,
      fc_debug = (\<lambda>_. [])\<rparr>"

definition healthy_run :: "(exec_error + exec_result list) \<times> (unit \<times> string list) fred" where
  "healthy_run = fred_transaction (logging healthy_ops) [\<lparr>cmd_name = ''INCR'', cmd_args = [''k'']\<rparr>]
     \<lparr>fr_client = ((), []), fr_reset_started = False\<rparr>"

lemma ascii_reply: "from_utf8 ''OK'' = Some ''OK''" "from_utf8 ''QUEUED'' = Some ''QUEUED''"
  by (simp_all add: from_utf8_def valid_utf8_ascii byte_of_def)

lemmas healthy_eval = healthy_run_def healthy_ops_def logging_def fred_transaction_def transaction_hash_def
  fred_reply_def fred_raw_def fred_frame_to_resp_def frame_within_depth.simps MAX_DEPTH_def ascii_reply
  fred_exec_reply_def checked_sub_def Let_def

lemma healthy_run_eq:
  "healthy_run = (Inr [Inr (RespInt 1)],
     \<lparr>fr_client = ((), [''EXEC'', ''INCR'', ''MULTI'']), fr_reset_started = False\<rparr>)"
  by (simp add: healthy_eval)


text \<open>Whether a connection that was sent these commands, in this order, is inside a transaction.\<close>

fun open_multi :: "bool \<Rightarrow> string list \<Rightarrow> bool" where
  "open_multi b [] = b"
| "open_multi b (name # names) =
     open_multi (if to_ascii_uppercase name = ''MULTI'' then True
                 else if to_ascii_uppercase name \<in> {''EXEC'', ''DISCARD'', ''RESET''} then False else b) names"

lemma open_multi_keeps:
  "\<forall>n \<in> set names. to_ascii_uppercase n \<notin> {''MULTI'', ''EXEC'', ''DISCARD'', ''RESET''} \<Longrightarrow> open_multi b names = b"
  by (induction names arbitrary: b) auto



section \<open>The probe of a half-open breaker\<close>

text \<open>The breaker state an operation of the probe leads to, by the errors it reports.\<close>

definition probe_verdict :: "exec_error list \<Rightarrow> breaker_state" where
  "probe_verdict errors = (if list_ex counts_as_failure errors then Open else Closed)"

lemma emit_transition_fields [simp]:
  "be_breaker (emit_transition t x) = be_breaker x"
  "be_recorded (emit_transition t x) = be_recorded x"
  by (simp_all add: emit_transition_def split: option.splits)

lemma be_record_probe:
  assumes "breaker_state_of (be_breaker x) = HalfOpen" and "pm_probe (be_permit x)"
    and "pm_generation (be_permit x) = breaker_generation (be_breaker x)"
  shows "be_recorded (be_record now errors x)"
    and "breaker_state_of (be_breaker (be_record now errors x)) = probe_verdict errors"
  using assms by (auto simp: be_record_def breaker_record_def probe_verdict_def Let_def split: prod.splits)

text \<open>
  C19. Every end of the request that holds the half-open probe takes the breaker out of the half-open state. If
  the request is dropped before its operation finished, the breaker is open again and the next
  request may probe. If the operation finished, the breaker is closed unless one of its results
  is a transport error or a timeout; an error reply of Redis counts as success. Dropping the
  wrapper after that changes nothing.
\<close>

theorem probe_always_resolved:
  assumes "breaker_state_of b = HalfOpen" and "pm_probe permit" and "pm_generation permit = breaker_generation b"
  shows "breaker_state_of (be_breaker (be_drop (be_new p b permit))) = Open
    \<and> (case be_execute now execute cmd (be_new p b permit) of
         (r, x) \<Rightarrow> breaker_state_of (be_breaker (be_drop x)) = probe_verdict (err_of r))
    \<and> (case be_pipeline now pipeline cmds (be_new p b permit) of
         (rs, x) \<Rightarrow> breaker_state_of (be_breaker (be_drop x)) = probe_verdict (concat (map err_of rs)))
    \<and> (case be_transaction now transaction cmds (be_new p b permit) of
         (r, x) \<Rightarrow> breaker_state_of (be_breaker (be_drop x)) =
           (case r of Inr rs \<Rightarrow> probe_verdict (concat (map err_of rs)) | Inl e \<Rightarrow> probe_verdict [e]))"
proof -
  have live: "breaker_state_of (be_breaker (be_drop (be_record now errors ((be_new p b permit)\<lparr>be_inner := q\<rparr>))))
      = probe_verdict errors" for errors q
    using assms be_record_probe [of "(be_new p b permit)\<lparr>be_inner := q\<rparr>" now errors]
    by (simp add: be_drop_def be_new_def)
  have "breaker_state_of (be_breaker (be_drop (be_new p b permit))) = Open"
    using assms by (simp add: be_drop_def be_new_def breaker_cancel_def Let_def)
  then show ?thesis
    by (auto simp: be_execute_def be_pipeline_def be_transaction_def live split: prod.splits sum.splits)
qed

text \<open>A breaker half way through a probe, with the permit of the probe.\<close>

definition sample_probing :: "breaker \<times> breaker_permit" where
  "sample_probing =
     (\<lparr>failure_threshold = 1, cooldown = 5, br_inner = \<lparr>br_state = HalfOpen, consecutive_failures = 1,
        opened_at = Some 0, br_generation = 2\<rparr>\<rparr>, \<lparr>pm_generation = 2, pm_probe = True\<rparr>)"

theorem probe_always_resolved_witness:
  "case be_execute 9 (\<lambda>_ c. (Inl (ExecRedis ''ERR''), c)) \<lparr>cmd_name = ''GET'', cmd_args = []\<rparr>
      (be_new () (fst sample_probing) (snd sample_probing)) of
     (r, x) \<Rightarrow> breaker_state_of (be_breaker (be_drop x)) = Closed"
  using probe_always_resolved [of "fst sample_probing" "snd sample_probing" "()" 9
      "\<lambda>_ c. (Inl (ExecRedis ''ERR''), c)" "\<lparr>cmd_name = ''GET'', cmd_args = []\<rparr>"]
  by (auto simp: sample_probing_def probe_verdict_def counts_as_failure_def be_execute_def)

section \<open>Replies are text\<close>

text \<open>What the type \<open>String\<close> promises: every string of a JSON value is valid UTF-8.\<close>

fun json_utf8 :: "'f json \<Rightarrow> bool" where
  "json_utf8 (JString s) = valid_utf8 s"
| "json_utf8 (JArray vs) = list_all json_utf8 vs"
| "json_utf8 (JObject m) = list_all (\<lambda>(k, v). valid_utf8 k \<and> json_utf8 v) m"
| "json_utf8 _ = True"

fun resp_utf8 :: "resp_value \<Rightarrow> bool" where
  "resp_utf8 (RespSimple s) = valid_utf8 s"
| "resp_utf8 (RespArray vs) = list_all resp_utf8 vs"
| "resp_utf8 _ = True"

lemma frame_within_depth_utf8:
  "frame_within_depth depth f = Inr v \<Longrightarrow> resp_utf8 v"
  "frames_within_depth depth fs = Inr vs \<Longrightarrow> list_all resp_utf8 vs"
proof (induction depth f and depth fs arbitrary: v and vs rule: frame_within_depth_frames_within_depth.induct)
  case (1 depth f)
  then obtain d where d: "depth = Suc d" by (cases depth) (auto simp: frame_within_depth.simps)
  with 1 show ?case
    by (cases f) (auto simp: frame_within_depth.simps res_bind_Inr_iff from_utf8_def split: option.splits if_splits)
qed (auto simp: res_bind_Inr_iff)

lemma response_json_utf8:
  assumes "\<And>b. valid_utf8 (encode b)"
  shows "resp_utf8 v \<Longrightarrow> json_utf8 (response_json encode enc v :: 'f json)"
  by (induction v) (auto simp: assms valid_from_utf8_lossy list_all_iff)

text \<open>
  C36. The text type of a reply is kept from the wire to the response: whatever frame the backend sends, if it is accepted as a
  reply, every string of the JSON written for it is valid UTF-8, although bulk strings are arbitrary bytes and
  simple strings are checked only once, on the way in.
\<close>

theorem reply_text_is_utf8:
  assumes "\<forall>b. valid_utf8 (encode b)" and "fred_frame_to_resp f = Inr v"
  shows "json_utf8 (response_json encode enc v :: 'f json)"
  using assms response_json_utf8 [of encode v enc] frame_within_depth_utf8(1) [of MAX_DEPTH f v]
  by (simp add: fred_frame_to_resp_def)

theorem reply_text_is_utf8_witness:
  "json_utf8 (response_json (\<lambda>_. ''AA=='') EncNone (RespBulk [char_of (255::nat)]) :: unit json)"
proof -
  have "\<forall>b::bytes. valid_utf8 ''AA==''" by (simp add: valid_utf8_ascii byte_of_def)
  then show ?thesis
    by (rule reply_text_is_utf8 [of _ "BlobString [char_of (255::nat)]"])
      (simp add: fred_frame_to_resp_def frame_within_depth.simps MAX_DEPTH_def checked_sub_def)
qed

end
