(* ===== verification/App_State.thy ===== *)
theory App_State
  imports Rate_Limit Observability Auth Parse Executor "HOL-Library.Stream"
begin

text \<open>
  What the HTTP handlers share: the application state of \<open>src/lib.rs\<close>, the executor handle and
  the provider port of \<open>src/ports/mod.rs\<close>, and the calls of \<open>src/http/command.rs\<close> and
  \<open>src/http/extractors.rs\<close> that change the state.

  A call is a function from the state to a result and the next state; an error leaves the
  effects that came before it, as in the code. The clock is the stream of its readings, one for every access of the limiter. The
  provider and the authenticator are ports: records of functions on their own state. The third-party
  code (SHA-256, base64, \<open>serde_json\<close>, header values) is the record \<open>libs\<close>.
\<close>

section \<open>Calls\<close>

type_synonym ('s, 'e, 'a) call = "'s \<Rightarrow> ('e + 'a) \<times> 's"

definition try_call :: "('s, 'e, 'a) call \<Rightarrow> ('a \<Rightarrow> ('s, 'e, 'b) call) \<Rightarrow> ('s, 'e, 'b) call" where
  "try_call m k s = (case m s of (Inl e, s1) \<Rightarrow> (Inl e, s1) | (Inr a, s1) \<Rightarrow> k a s1)"

definition return :: "'e + 'a \<Rightarrow> ('s, 'e, 'a) call" where
  "return r s = (r, s)"

lemma try_call_return [simp]: "try_call (return (Inr a)) k = k a" "try_call (return (Inl e)) k = return (Inl e)"
  by (simp_all add: try_call_def return_def fun_eq_iff)

section \<open>Ports and state\<close>

text \<open>
  An executor works on its handle \<open>'h\<close> and on the state \<open>'p\<close> of its provider; dropping the
  handle drops the executor and the lease.
\<close>

record ('p, 'h) provider =
  pv_acquire :: "string \<Rightarrow> 'p \<Rightarrow> (acquire_error + 'h) \<times> 'p"
  pv_execute :: "redis_command \<Rightarrow> 'h \<times> 'p \<Rightarrow> exec_result \<times> 'h \<times> 'p"
  pv_pipeline :: "redis_command list \<Rightarrow> 'h \<times> 'p \<Rightarrow> exec_result list \<times> 'h \<times> 'p"
  pv_transaction :: "redis_command list \<Rightarrow> 'h \<times> 'p \<Rightarrow> (exec_error + exec_result list) \<times> 'h \<times> 'p"
  pv_drop :: "'h \<Rightarrow> 'p \<Rightarrow> 'p"
  pv_readiness :: "'p \<Rightarrow> pool_readiness list \<times> 'p"

definition execute_and_release :: "('p, 'h) provider \<Rightarrow> 'h \<Rightarrow> redis_command \<Rightarrow> 'p \<Rightarrow> exec_result \<times> 'p" where
  "execute_and_release pv h command p =
     (case pv_execute pv command (h, p) of (r, h1, p1) \<Rightarrow> (r, pv_drop pv h1 p1))"

definition pipeline_and_release ::
  "('p, 'h) provider \<Rightarrow> 'h \<Rightarrow> redis_command list \<Rightarrow> 'p \<Rightarrow> exec_result list \<times> 'p" where
  "pipeline_and_release pv h commands p =
     (case pv_pipeline pv commands (h, p) of (rs, h1, p1) \<Rightarrow> (rs, pv_drop pv h1 p1))"

definition transaction_and_release ::
  "('p, 'h) provider \<Rightarrow> 'h \<Rightarrow> redis_command list \<Rightarrow> 'p \<Rightarrow> (exec_error + exec_result list) \<times> 'p" where
  "transaction_and_release pv h commands p =
     (case pv_transaction pv commands (h, p) of (r, h1, p1) \<Rightarrow> (r, pv_drop pv h1 p1))"

record 'f libs =
  lib_sha256 :: "bytes \<Rightarrow> bytes"
  lib_base64 :: "bytes \<Rightarrow> bytes"
  lib_serde :: "'f serde"
  lib_deserializer :: "bytes \<Rightarrow> 'f doc \<times> bool"
  lib_skips :: "'f doc \<Rightarrow> bool"
  lib_to_str :: "bytes \<Rightarrow> string option"
  lib_header_value :: "string \<Rightarrow> bytes option"

record ('p, 's) app_state =
  as_provider :: 'p
  as_authenticator :: 's
  as_clock :: "instant stream"
  as_rate_limiter :: rate_limiter
  as_metrics :: "metric list"
  as_audit :: audit_fields

text \<open>What reading the body came to, for a time limit in milliseconds and a size limit.\<close>

datatype body_outcome = BodyTimedOut | BodyFailed | BodyRead bytes

record request =
  rq_authorization :: "bytes option"
  rq_upstash_encoding :: "bytes option"
  rq_body :: "nat \<Rightarrow> nat \<Rightarrow> body_outcome"

section \<open>Rate limiting\<close>

definition count_metric :: "metric \<Rightarrow> ('p, 's) app_state \<Rightarrow> ('p, 's) app_state" where
  "count_metric mt s = s\<lparr>as_metrics := mt # as_metrics s\<rparr>"

definition record_debt_forgiveness :: "('p, 's) app_state \<Rightarrow> ('p, 's) app_state" where
  "record_debt_forgiveness s =
     (case take_debt_forgiven_evictions (as_rate_limiter s) of
        (forgiven, l) \<Rightarrow>
          (let s1 = s\<lparr>as_rate_limiter := l\<rparr> in
           if 0 < forgiven then count_metric (''srh_shed_total'', ''debt_forgiven_by_eviction'', unat forgiven) s1 else s1))"

text \<open>One access of the limiter, counted when it is refused; the debt counter is reported either way.\<close>

definition limited_access ::
  "(instant \<Rightarrow> rate_limiter \<Rightarrow> (rate_limit_exceeded + unit) \<times> rate_limiter)
    \<Rightarrow> (('p, 's) app_state, app_error, unit) call" where
  "limited_access access s =
     (case access (shd (as_clock s)) (as_rate_limiter s) of
        (r, l) \<Rightarrow>
          (let s1 = s\<lparr>as_rate_limiter := l, as_clock := stl (as_clock s)\<rparr> in
           case r of
             Inr _ \<Rightarrow> (Inr (), record_debt_forgiveness s1)
           | Inl e \<Rightarrow> (Inl (RateLimited (retry_after_secs e)),
                record_debt_forgiveness (count_metric (''srh_rate_limit_rejections_total'', '''', 1) s1))))"

definition charge_rate_limit :: "string \<Rightarrow> nat \<Rightarrow> (('p, 's) app_state, app_error, unit) call" where
  "charge_rate_limit key command_count = limited_access (rl_charge key command_count)"

section \<open>Authentication of a request\<close>

definition unauthorized :: "string \<Rightarrow> (('p, 's) app_state, app_error, 'a) call" where
  "unauthorized kind s = (Inl Unauthorized, count_metric (''srh_auth_failures_total'', kind, 1) s)"

text \<open>\<open>split_once\<close> at a space: the parts before and after the first one.\<close>

definition split_once_space :: "string \<Rightarrow> (string \<times> string) option" where
  "split_once_space s =
     (case dropWhile (\<lambda>c. c \<noteq> CHR '' '') s of [] \<Rightarrow> None
      | _ # rest \<Rightarrow> Some (takeWhile (\<lambda>c. c \<noteq> CHR '' '') s, rest))"

definition bearer_of :: "'f libs \<Rightarrow> request \<Rightarrow> string option" where
  "bearer_of lib rq =
     (case Option.bind (Option.bind (rq_authorization rq) (lib_to_str lib)) split_once_space of
        None \<Rightarrow> None
      | Some (scheme, bearer) \<Rightarrow>
          if \<not> eq_ignore_ascii_case scheme ''Bearer'' \<or> bearer = [] then None else Some bearer)"

definition run_authenticator :: "'s authenticator \<Rightarrow> string \<Rightarrow> (('p, 's) app_state, app_error, identity) call" where
  "run_authenticator authenticate bearer s =
     (case authenticate bearer (as_authenticator s) of
        (r, a) \<Rightarrow>
          (let s1 = s\<lparr>as_authenticator := a\<rparr> in
           case r of
             Inl AuthRejected \<Rightarrow> unauthorized ''rejected'' s1
           | Inl (AuthForbidden reason) \<Rightarrow>
               (Inl (Forbidden reason), count_metric (''srh_auth_failures_total'', ''forbidden'', 1) s1)
           | Inl (AuthServiceUnavailable reason) \<Rightarrow>
               (Inl AuthServiceDown, count_metric (''srh_auth_failures_total'', ''unavailable'', 1) s1)
           | Inr None \<Rightarrow> unauthorized ''rejected'' s1
           | Inr (Some ident) \<Rightarrow> (Inr ident, s1)))"

definition authed_identity ::
  "'f libs \<Rightarrow> 's authenticator \<Rightarrow> request \<Rightarrow> (('p, 's) app_state, app_error, identity) call" where
  "authed_identity lib authenticate rq =
     (case bearer_of lib rq of
        None \<Rightarrow> unauthorized ''missing_or_malformed''
      | Some bearer \<Rightarrow>
          try_call (run_authenticator authenticate bearer) (\<lambda>ident.
          try_call (limited_access (rl_probe (bucket_key ident))) (\<lambda>_.
          return (Inr ident))))"

section \<open>Bodies, headers and errors\<close>

definition read_body :: "config \<Rightarrow> request \<Rightarrow> (('p, 's) app_state, app_error, bytes) call" where
  "read_body cfg rq =
     return (case rq_body rq (body_read_timeout_ms (sv_load (cf_server cfg))) (max_body_bytes (cf_server cfg)) of
        BodyTimedOut \<Rightarrow> Inl RequestBodyTimeout
      | BodyFailed \<Rightarrow> Inl (BadRequest ''Invalid command'')
      | BodyRead body \<Rightarrow> Inr body)"

definition response_encoding :: "'f libs \<Rightarrow> request \<Rightarrow> encoding" where
  "response_encoding lib rq =
     (case Option.bind (rq_upstash_encoding rq) (lib_to_str lib) of
        Some value \<Rightarrow> if eq_ignore_ascii_case value ''base64'' then EncBase64 else EncNone
      | None \<Rightarrow> EncNone)"

fun map_exec_error :: "config \<Rightarrow> exec_error \<Rightarrow> app_error" where
  "map_exec_error cfg (ExecRedis message) = RedisError message"
| "map_exec_error cfg ExecResponseTooLarge = ResponseTooLarge"
| "map_exec_error cfg ExecTimeout =
     PoolOpen (shed_retry_after_secs (sv_load (cf_server cfg))) ''Redis command timed out''"
| "map_exec_error cfg (ExecTransport reason) = PoolOpen (shed_retry_after_secs (sv_load (cf_server cfg))) reason"

fun map_acquire_error :: "config \<Rightarrow> acquire_error \<Rightarrow> app_error" where
  "map_acquire_error cfg (UnknownPool p) =
     Internal (''identity referenced unknown Redis pool '' @ quote @ p @ quote)"
| "map_acquire_error cfg AcqOverloaded = Overloaded (shed_retry_after_secs (sv_load (cf_server cfg)))"
| "map_acquire_error cfg (AcqPoolOpen secs) = PoolOpen secs ''circuit breaker cooldown active''"
| "map_acquire_error cfg (AcqInternal message) = Internal message"

definition on_provider :: "('p \<Rightarrow> 'a \<times> 'p) \<Rightarrow> ('p, 's) app_state \<Rightarrow> 'a \<times> ('p, 's) app_state" where
  "on_provider f s = (case f (as_provider s) of (r, p) \<Rightarrow> (r, s\<lparr>as_provider := p\<rparr>))"

definition acquire :: "config \<Rightarrow> ('p, 'h) provider \<Rightarrow> string \<Rightarrow> (('p, 's) app_state, app_error, 'h) call" where
  "acquire cfg pv name s =
     (case on_provider (pv_acquire pv name) s of
        (Inl e, s1) \<Rightarrow> (Inl (map_acquire_error cfg e), s1)
      | (Inr h, s1) \<Rightarrow> (Inr h, s1))"

definition note_audit :: "(audit_fields \<Rightarrow> audit_fields) \<Rightarrow> (('p, 's) app_state, app_error, unit) call" where
  "note_audit f s = (Inr (), s\<lparr>as_audit := f (as_audit s)\<rparr>)"

end
