(* ===== verification/Pool_Manager.thy ===== *)
theory Pool_Manager
  imports App_State
begin

text \<open>
  The pool manager of \<open>src/adapters/pool_manager.rs\<close>. A pool entry is shared by the requests that
  use it; the manager maps pool names to entries, which live in a list (an index is an \<open>Arc\<close>).
  The Redis client pool is a parameter: \<open>build\<close> makes the clients of a pool, and \<open>fred_ops\<close> is
  what one client does. A lease or operation lock is whether it is held, a connection task whether
  it has finished.

  First come the operations on an entry, one for each atomic access of the code; then the
  functions of the code as their composition, which is a request that meets no interference:
  a semaphore with no permit then means the timeout, and an awaited client lock the time its holder
  gave it back. \<open>pool_provider\<close> is the provider the handlers use. The theory
  \<open>Pool_Interleaving\<close> runs the atomic operations of many requests in any order.
\<close>

section \<open>Entries\<close>

definition IDLE_EVICTION_SECS :: nat where
  "IDLE_EVICTION_SECS = 900"

definition READINESS_TIMEOUT :: duration where
  "READINESS_TIMEOUT = from_millis 500"

record 'c pool_entry =
  pe_clients :: "'c list"
  pe_permits_in_use :: int
  pe_client_leases :: "bool list"
  pe_client_operations :: "bool list"
  pe_next_client :: u64
  pe_connection_tasks :: "bool list"
  pe_last_used :: nat
  pe_permits :: nat
  pe_permit_count :: nat
  pe_waiters :: nat
  pe_max_waiters :: nat
  pe_acquire_timeout :: duration
  pe_command_timeout :: duration
  pe_breaker :: breaker

record 'c pool_manager =
  pm_entries :: "'c pool_entry list"
  pm_pools :: "(string, nat) hash_map"

definition pool_manager_new :: "'c pool_manager" where
  "pool_manager_new = \<lparr>pm_entries = [], pm_pools = []\<rparr>"

definition pool_build ::
  "(pool_config \<Rightarrow> string + (nat \<Rightarrow> 'c)) \<Rightarrow> nat \<Rightarrow> pool_config \<Rightarrow> acquire_error + 'c pool_entry" where
  "pool_build build unix_secs pc =
     (case build pc of
        Inl e \<Rightarrow> Inl (AcqInternal e)
      | Inr client \<Rightarrow>
          Inr \<lparr>pe_clients = map client [0..<max_connections pc], pe_permits_in_use = 0,
               pe_client_leases = replicate (max_connections pc) False,
               pe_client_operations = replicate (max_connections pc) False,
               pe_next_client = 0, pe_connection_tasks = [False], pe_last_used = unix_secs,
               pe_permits = max_connections pc, pe_permit_count = max_connections pc,
               pe_waiters = 0, pe_max_waiters = max_waiters pc,
               pe_acquire_timeout = from_millis (acquire_timeout_ms pc),
               pe_command_timeout = from_millis (command_timeout_ms pc),
               pe_breaker = breaker_new (bc_failure_threshold (pc_breaker pc))
                              (from_millis (bc_cooldown_ms (pc_breaker pc)))\<rparr>)"

definition ensure_connection_task :: "'c pool_entry \<Rightarrow> 'c pool_entry" where
  "ensure_connection_task e =
     (let tasks = filter Not (pe_connection_tasks e) in
      e\<lparr>pe_connection_tasks := if tasks = [] then tasks @ [False] else tasks\<rparr>)"

definition restart_connection_task :: "'c pool_entry \<Rightarrow> 'c pool_entry" where
  "restart_connection_task e = e\<lparr>pe_connection_tasks := filter Not (pe_connection_tasks e) @ [False]\<rparr>"

definition pool_shutdown :: "'c pool_entry \<Rightarrow> 'c pool_entry" where
  "pool_shutdown e = e\<lparr>pe_connection_tasks := []\<rparr>"

section \<open>The map of pools\<close>

definition put_entry :: "nat \<Rightarrow> 'c pool_entry \<Rightarrow> 'c pool_manager \<Rightarrow> 'c pool_manager" where
  "put_entry i e m = m\<lparr>pm_entries := (pm_entries m)[i := e]\<rparr>"

definition get_or_build ::
  "(pool_config \<Rightarrow> string + (nat \<Rightarrow> 'c)) \<Rightarrow> config \<Rightarrow> nat \<Rightarrow> string \<Rightarrow> 'c pool_manager
    \<Rightarrow> (acquire_error + nat) \<times> 'c pool_manager" where
  "get_or_build build cfg unix_secs name m =
     (case hm_get (cf_pools cfg) name of
        None \<Rightarrow> (Inl (UnknownPool name), m)
      | Some pc \<Rightarrow>
          (case hm_get (pm_pools m) name of
             Some i \<Rightarrow>
               (Inr i, put_entry i ((ensure_connection_task (pm_entries m ! i))\<lparr>pe_last_used := unix_secs\<rparr>) m)
           | None \<Rightarrow>
               (case pool_build build unix_secs pc of
                  Inl e \<Rightarrow> (Inl e, m)
                | Inr e \<Rightarrow>
                    (Inr (length (pm_entries m)),
                     m\<lparr>pm_entries := pm_entries m @ [e],
                       pm_pools := hm_insert name (length (pm_entries m)) (pm_pools m)\<rparr>))))"

definition built_pool_count :: "'c pool_manager \<Rightarrow> nat" where
  "built_pool_count m = length (pm_pools m)"

definition may_evict :: "nat \<Rightarrow> 'c pool_entry \<Rightarrow> bool" where
  "may_evict now e \<longleftrightarrow>
     IDLE_EVICTION_SECS < now - pe_last_used e \<and> pe_permits e = pe_permit_count e \<and> pe_waiters e = 0"

text \<open>The loop over the names that the map had when it was read.\<close>

fun evict_names :: "nat \<Rightarrow> string list \<Rightarrow> 'c pool_manager \<Rightarrow> nat \<times> 'c pool_manager" where
  "evict_names now [] m = (0, m)"
| "evict_names now (name # names) m =
     (case hm_get (pm_pools m) name of
        Some i \<Rightarrow>
          if may_evict now (pm_entries m ! i)
          then (let m1 = put_entry i ((pool_shutdown (pm_entries m ! i))\<lparr>pe_permits_in_use := 0\<rparr>)
                           (m\<lparr>pm_pools := hm_remove name (pm_pools m)\<rparr>);
                    (n, m2) = evict_names now names m1 in (n + 1, m2))
          else evict_names now names m
      | None \<Rightarrow> evict_names now names m)"

definition evict_idle :: "nat \<Rightarrow> 'c pool_manager \<Rightarrow> nat \<times> 'c pool_manager" where
  "evict_idle now m = evict_names now (map fst (pm_pools m)) m"

fun shutdown_names :: "string list \<Rightarrow> 'c pool_manager \<Rightarrow> 'c pool_manager" where
  "shutdown_names [] m = m"
| "shutdown_names (name # names) m =
     (case hm_get (pm_pools m) name of
        Some i \<Rightarrow> shutdown_names names
          (put_entry i (pool_shutdown (pm_entries m ! i)) (m\<lparr>pm_pools := hm_remove name (pm_pools m)\<rparr>))
      | None \<Rightarrow> shutdown_names names m)"

definition pool_manager_shutdown :: "'c pool_manager \<Rightarrow> 'c pool_manager" where
  "pool_manager_shutdown m = shutdown_names (map fst (pm_pools m)) m"

section \<open>Atomic accesses of an entry\<close>

definition entry_admit :: "instant \<Rightarrow> 'c pool_entry \<Rightarrow> (nat + breaker_permit) \<times> 'c pool_entry" where
  "entry_admit now e =
     (case breaker_admit now (pe_breaker e) of
        (Inl secs, b) \<Rightarrow> (Inl secs, e\<lparr>pe_breaker := b\<rparr>)
      | (Inr adm, b) \<Rightarrow>
          (let e1 = e\<lparr>pe_breaker := b\<rparr> in
           (Inr (ad_permit adm),
            if ad_transition adm = Some TrProbeStarted then restart_connection_task e1 else e1)))"

definition admission_drop :: "breaker_permit \<Rightarrow> 'c pool_entry \<Rightarrow> 'c pool_entry" where
  "admission_drop permit e = e\<lparr>pe_breaker := breaker_cancel permit (pe_breaker e)\<rparr>"

definition waiter_enter :: "'c pool_entry \<Rightarrow> 'c pool_entry option" where
  "waiter_enter e = (if pe_waiters e < pe_max_waiters e then Some (e\<lparr>pe_waiters := pe_waiters e + 1\<rparr>) else None)"

definition waiter_drop :: "'c pool_entry \<Rightarrow> 'c pool_entry" where
  "waiter_drop e = e\<lparr>pe_waiters := pe_waiters e - 1\<rparr>"

definition permit_take :: "'c pool_entry \<Rightarrow> 'c pool_entry option" where
  "permit_take e = (if 0 < pe_permits e then Some (e\<lparr>pe_permits := pe_permits e - 1\<rparr>) else None)"

definition permit_give :: "'c pool_entry \<Rightarrow> 'c pool_entry" where
  "permit_give e = e\<lparr>pe_permits := pe_permits e + 1\<rparr>"

definition gauge_add :: "int \<Rightarrow> 'c pool_entry \<Rightarrow> 'c pool_entry" where
  "gauge_add n e = e\<lparr>pe_permits_in_use := pe_permits_in_use e + n\<rparr>"

definition next_start :: "'c pool_entry \<Rightarrow> nat \<times> 'c pool_entry" where
  "next_start e =
     (unat (pe_next_client e) mod length (pe_client_leases e), e\<lparr>pe_next_client := pe_next_client e + 1\<rparr>)"

definition lease_lock :: "nat \<Rightarrow> 'c pool_entry \<Rightarrow> 'c pool_entry" where
  "lease_lock i e = e\<lparr>pe_client_leases := (pe_client_leases e)[i := True]\<rparr>"

definition lease_unlock :: "nat \<Rightarrow> 'c pool_entry \<Rightarrow> 'c pool_entry" where
  "lease_unlock i e = e\<lparr>pe_client_leases := (pe_client_leases e)[i := False]\<rparr>"

section \<open>Acquisition\<close>

text \<open>The scan for a client nobody holds, from \<open>start\<close> on; \<open>None\<close> when every try failed.\<close>

definition scan_leases :: "nat \<Rightarrow> bool list \<Rightarrow> nat option" where
  "scan_leases start leases =
     find (\<lambda>i. \<not> leases ! i) (map (\<lambda>offset. (start + offset) mod length leases) [0..<length leases])"

definition acquire_client :: "'c pool_entry \<Rightarrow> nat \<times> 'c pool_entry" where
  "acquire_client e =
     (case next_start e of
        (start, e1) \<Rightarrow>
          (case scan_leases start (pe_client_leases e1) of
             Some i \<Rightarrow> (i, lease_lock i e1)
           | None \<Rightarrow> (start, lease_lock start e1)))"

text \<open>What a handle owns: the entry, the client, the breaker permit, and the flags of the two executors.\<close>

record pool_handle =
  ph_entry :: nat
  ph_client :: nat
  ph_permit :: breaker_permit
  ph_reset_started :: bool
  ph_recorded :: bool

definition acquire_entry ::
  "instant \<Rightarrow> nat \<Rightarrow> 'c pool_entry \<Rightarrow> (acquire_error + pool_handle) \<times> 'c pool_entry" where
  "acquire_entry now i e =
     (case entry_admit now e of
        (Inl secs, e1) \<Rightarrow> (Inl (AcqPoolOpen secs), e1)
      | (Inr permit, e1) \<Rightarrow>
          (case waiter_enter e1 of
             None \<Rightarrow> (Inl AcqOverloaded, admission_drop permit e1)
           | Some e2 \<Rightarrow>
               (case permit_take e2 of
                  None \<Rightarrow> (Inl AcqOverloaded, admission_drop permit (waiter_drop e2))
                | Some e3 \<Rightarrow>
                    (case acquire_client (gauge_add 1 (waiter_drop e3)) of
                       (client, e4) \<Rightarrow>
                         (Inr \<lparr>ph_entry = i, ph_client = client, ph_permit = permit,
                               ph_reset_started = False, ph_recorded = False\<rparr>, e4)))))"

definition pool_acquire ::
  "(pool_config \<Rightarrow> string + (nat \<Rightarrow> 'c)) \<Rightarrow> config \<Rightarrow> nat \<Rightarrow> instant \<Rightarrow> string \<Rightarrow> 'c pool_manager
    \<Rightarrow> (acquire_error + pool_handle) \<times> 'c pool_manager" where
  "pool_acquire build cfg unix_secs now name m =
     (case get_or_build build cfg unix_secs name m of
        (Inl e, m1) \<Rightarrow> (Inl e, m1)
      | (Inr i, m1) \<Rightarrow>
          (case acquire_entry now i (pm_entries m1 ! i) of (r, e) \<Rightarrow> (r, put_entry i e m1)))"

section \<open>Executors of a handle\<close>

text \<open>
  The executor of a handle is the breaker wrapper around the client adapter; the client and the
  breaker belong to the entry.
\<close>

definition handle_executor :: "pool_handle \<Rightarrow> 'c pool_entry \<Rightarrow> 'c fred breaker_executor" where
  "handle_executor h e =
     \<lparr>be_inner = \<lparr>fr_client = pe_clients e ! ph_client h, fr_reset_started = ph_reset_started h\<rparr>,
      be_breaker = pe_breaker e, be_permit = ph_permit h, be_recorded = ph_recorded h, be_transitions = []\<rparr>"

definition store_executor ::
  "'c fred breaker_executor \<Rightarrow> pool_handle \<Rightarrow> 'c pool_manager \<Rightarrow> pool_handle \<times> 'c pool_manager" where
  "store_executor x h m =
     (let e = pm_entries m ! ph_entry h in
      (h\<lparr>ph_reset_started := fr_reset_started (be_inner x), ph_recorded := be_recorded x\<rparr>,
       put_entry (ph_entry h)
         (e\<lparr>pe_clients := (pe_clients e)[ph_client h := fr_client (be_inner x)], pe_breaker := be_breaker x\<rparr>) m))"

definition with_executor ::
  "('c fred breaker_executor \<Rightarrow> 'r \<times> 'c fred breaker_executor) \<Rightarrow> pool_handle \<times> 'c pool_manager
    \<Rightarrow> 'r \<times> pool_handle \<times> 'c pool_manager" where
  "with_executor f hm =
     (case hm of (h, m) \<Rightarrow>
        (case f (handle_executor h (pm_entries m ! ph_entry h)) of (r, x) \<Rightarrow> (r, store_executor x h m)))"

text \<open>
  Dropping a handle: the breaker wrapper cancels an unrecorded permit; then the lease decrements its
  gauge and drops its fields in the order of their declaration, the semaphore permit and the client lease.
\<close>

definition handle_drop :: "pool_handle \<Rightarrow> 'c pool_manager \<Rightarrow> 'c pool_manager" where
  "handle_drop h m =
     (let e = pm_entries m ! ph_entry h;
          e1 = e\<lparr>pe_breaker := be_breaker (be_drop (handle_executor h e))\<rparr> in
      put_entry (ph_entry h) (lease_unlock (ph_client h) (permit_give (gauge_add (- 1) e1))) m)"

section \<open>Readiness\<close>

text \<open>How the wait for a readiness probe ends: in time, past its deadline, or with a failed task.\<close>

datatype probe_wait = InTime | Late | TaskFailed string

definition readiness_client :: "'c pool_entry \<Rightarrow> nat \<times> 'c pool_entry" where
  "readiness_client e =
     (let size = length (pe_client_operations e);
          start = unat (pe_next_client e) mod size;
          e1 = e\<lparr>pe_next_client := pe_next_client e + 1\<rparr> in
      (case scan_leases start (pe_client_operations e) of Some i \<Rightarrow> i | None \<Rightarrow> start, e1))"

definition readiness_status :: "'c fred_ops \<Rightarrow> duration \<Rightarrow> probe_wait \<Rightarrow> exec_result \<Rightarrow> pool_readiness_status" where
  "readiness_status ops deadline wait result =
     (case wait of
        InTime \<Rightarrow>
          (case result of
             Inr response \<Rightarrow>
               if response = RespSimple ''PONG'' then Ready
               else Unavailable (''unexpected readiness PING response: '' @ fc_debug ops response)
           | Inl e \<Rightarrow> Unavailable (exec_error_display e))
      | TaskFailed e \<Rightarrow> Unavailable (''readiness probe task failed: '' @ e)
      | Late \<Rightarrow> Unavailable (''readiness PING timed out after '' @ nat_text (deadline div 1000000) @ '' ms''))"

definition probe_entry ::
  "'c fred_ops \<Rightarrow> probe_wait \<Rightarrow> 'c pool_entry \<Rightarrow> pool_readiness_status \<times> 'c pool_entry" where
  "probe_entry ops wait e =
     (case readiness_client e of
        (i, e1) \<Rightarrow>
          (case fred_execute ops \<lparr>cmd_name = ''PING'', cmd_args = []\<rparr> (fred_from_pooled_client (pe_clients e1 ! i)) of
             (r, x) \<Rightarrow>
               (readiness_status ops (min READINESS_TIMEOUT (pe_command_timeout e)) wait r,
                e1\<lparr>pe_clients := (pe_clients e1)[i := fr_client x]\<rparr>)))"

fun probe_all ::
  "'c fred_ops \<Rightarrow> (string \<Rightarrow> probe_wait) \<Rightarrow> (string \<times> nat) list \<Rightarrow> 'c pool_manager
    \<Rightarrow> pool_readiness list \<times> 'c pool_manager" where
  "probe_all ops wait [] m = ([], m)"
| "probe_all ops wait ((name, i) # rest) m =
     (case probe_entry ops (wait name) (pm_entries m ! i) of
        (status, e) \<Rightarrow>
          (case probe_all ops wait rest (put_entry i e m) of
             (statuses, m1) \<Rightarrow> (\<lparr>pr_pool = name, pr_status = status\<rparr> # statuses, m1)))"

section \<open>The provider\<close>

definition pool_provider ::
  "'c fred_ops \<Rightarrow> (pool_config \<Rightarrow> string + (nat \<Rightarrow> 'c)) \<Rightarrow> config \<Rightarrow> nat \<Rightarrow> instant \<Rightarrow> instant
    \<Rightarrow> (string \<Rightarrow> probe_wait) \<Rightarrow> ('c pool_manager, pool_handle) provider" where
  "pool_provider ops build cfg unix_secs admitted_at recorded_at wait =
     \<lparr>pv_acquire = pool_acquire build cfg unix_secs admitted_at,
      pv_execute = (\<lambda>cmd. with_executor (be_execute recorded_at (fred_execute ops) cmd)),
      pv_pipeline = (\<lambda>cmds. with_executor (be_pipeline recorded_at (fred_pipeline ops) cmds)),
      pv_transaction = (\<lambda>cmds. with_executor (be_transaction recorded_at (fred_transaction ops) cmds)),
      pv_drop = handle_drop,
      pv_readiness = (\<lambda>m. probe_all ops wait (pm_pools m) m)\<rparr>"

lemma with_executor_fst:
  "fst (with_executor f hm) = fst (f (handle_executor (fst hm) (pm_entries (snd hm) ! ph_entry (fst hm))))"
  by (auto simp: with_executor_def split: prod.splits)

interpretation pool: command_executor
    "pv_execute (pool_provider ops build cfg unix_secs admitted_at recorded_at wait)"
    "pv_pipeline (pool_provider ops build cfg unix_secs admitted_at recorded_at wait)"
    "pv_transaction (pool_provider ops build cfg unix_secs admitted_at recorded_at wait)"
  for ops :: "'c fred_ops" and build cfg unix_secs admitted_at recorded_at wait
  using pooled.execute_depth pooled.pipeline_length pooled.pipeline_depth pooled.transaction_depth
  by unfold_locales (auto simp: pool_provider_def with_executor_fst)

end
