(* ===== verification/Pool_Interleaving.thy ===== *)
theory Pool_Interleaving
  imports Pool_Manager
begin

text \<open>
  Many requests on one pool entry, interleaved between the atomic accesses of
  \<open>PoolManager::acquire_entry\<close>, the use of the handle and the drops of its guards
  (\<open>src/adapters/pool_manager.rs\<close>). A request is at one of the points \<open>phase\<close>; \<open>moves\<close> are
  the next points it can reach and what it does to the entry on the way. At every await the
  request may also be dropped: its guards then run in reverse order of their declaration.

  The invariant accounts for every semaphore permit, waiter and client lease. Its consequences:
  no client is used by two requests, at most as many requests hold a permit as the pool has connections,
  the queue stays bounded and nothing leaks once all requests are gone. One gauge is not balanced: \<open>srh_pool_permits_in_use\<close>.
\<close>

section \<open>Requests\<close>

datatype phase =
    Start
  | Admitted breaker_permit
  | Waiting breaker_permit
  | Granted breaker_permit
  | Scanning breaker_permit nat nat
  | Blocked breaker_permit nat
  | Leased breaker_permit nat
  | Executed nat
  | Releasing nat
  | Unwinding breaker_permit
  | Done

text \<open>The clock reading and whether the backend fails are chosen by the environment.\<close>

fun moves :: "instant \<Rightarrow> bool \<Rightarrow> phase \<Rightarrow> 'c pool_entry \<Rightarrow> (phase \<times> 'c pool_entry) list" where
  "moves now failed Start e =
     (case entry_admit now e of (Inl _, e1) \<Rightarrow> [(Done, e1)] | (Inr permit, e1) \<Rightarrow> [(Admitted permit, e1)])"
| "moves now failed (Admitted permit) e =
     (case waiter_enter e of None \<Rightarrow> [(Unwinding permit, e)] | Some e1 \<Rightarrow> [(Waiting permit, e1)])"
| "moves now failed (Waiting permit) e =
     (Unwinding permit, waiter_drop e)
     # (case permit_take e of None \<Rightarrow> [] | Some e1 \<Rightarrow> [(Granted permit, e1)])"
| "moves now failed (Granted permit) e =
     (case next_start (gauge_add 1 (waiter_drop e)) of (start, e1) \<Rightarrow> [(Scanning permit start 0, e1)])"
| "moves now failed (Scanning permit start offset) e =
     (let size = length (pe_client_leases e); i = (start + offset) mod size in
      if size \<le> offset then [(Blocked permit start, e)]
      else if pe_client_leases e ! i then [(Scanning permit start (offset + 1), e)]
      else [(Leased permit i, lease_lock i e)])"
| "moves now failed (Blocked permit start) e =
     (Unwinding permit, permit_give e)
     # (if pe_client_leases e ! start then [] else [(Leased permit start, lease_lock start e)])"
| "moves now failed (Leased permit i) e =
     [(Executed i, e\<lparr>pe_breaker := snd (breaker_record now permit failed (pe_breaker e))\<rparr>),
      (Executed i, admission_drop permit e)]"
| "moves now failed (Executed i) e = [(Releasing i, permit_give (gauge_add (- 1) e))]"
| "moves now failed (Releasing i) e = [(Done, lease_unlock i e)]"
| "moves now failed (Unwinding permit) e = [(Done, admission_drop permit e)]"
| "moves now failed Done e = []"

record 'c pool_sys =
  ps_entry :: "'c pool_entry"
  ps_requests :: "phase list"

inductive pool_step :: "'c pool_sys \<Rightarrow> 'c pool_sys \<Rightarrow> bool" where
  arrive: "pool_step s (s\<lparr>ps_requests := ps_requests s @ [Start]\<rparr>)"
| move: "r < length (ps_requests s) \<Longrightarrow> (ph, e) \<in> set (moves now failed (ps_requests s ! r) (ps_entry s)) \<Longrightarrow>
    pool_step s (s\<lparr>ps_entry := e, ps_requests := (ps_requests s)[r := ph]\<rparr>)"

definition pool_start :: "'c pool_sys \<Rightarrow> bool" where
  "pool_start s \<longleftrightarrow> ps_requests s = []
     \<and> (\<exists>build unix_secs pc. 0 < max_connections pc \<and> pool_build build unix_secs pc = Inr (ps_entry s))"

section \<open>Accounting\<close>

fun holds_permit :: "phase \<Rightarrow> bool" where
  "holds_permit (Granted _) = True"
| "holds_permit (Scanning _ _ _) = True"
| "holds_permit (Blocked _ _) = True"
| "holds_permit (Leased _ _) = True"
| "holds_permit (Executed _) = True"
| "holds_permit _ = False"

fun in_queue :: "phase \<Rightarrow> bool" where
  "in_queue (Waiting _) = True"
| "in_queue (Granted _) = True"
| "in_queue _ = False"

fun holds_lease :: "nat \<Rightarrow> phase \<Rightarrow> bool" where
  "holds_lease i (Leased _ j) = (i = j)"
| "holds_lease i (Executed j) = (i = j)"
| "holds_lease i (Releasing j) = (i = j)"
| "holds_lease i _ = False"

fun in_range :: "nat \<Rightarrow> phase \<Rightarrow> bool" where
  "in_range n (Scanning _ start _) = (start < n)"
| "in_range n (Blocked _ start) = (start < n)"
| "in_range n (Leased _ i) = (i < n)"
| "in_range n (Executed i) = (i < n)"
| "in_range n (Releasing i) = (i < n)"
| "in_range n _ = True"

definition accounted :: "'c pool_entry \<Rightarrow> phase list \<Rightarrow> bool" where
  "accounted e phs \<longleftrightarrow>
     0 < pe_permit_count e
     \<and> length (pe_client_leases e) = pe_permit_count e
     \<and> pe_permits e + tally holds_permit phs = pe_permit_count e
     \<and> pe_waiters e = tally in_queue phs
     \<and> pe_waiters e \<le> pe_max_waiters e
     \<and> list_all (in_range (pe_permit_count e)) phs
     \<and> (\<forall>i < pe_permit_count e. tally (holds_lease i) phs = (if pe_client_leases e ! i then 1 else 0))"

lemmas entry_ops = entry_admit_def waiter_enter_def waiter_drop_def permit_take_def permit_give_def gauge_add_def
  next_start_def lease_lock_def lease_unlock_def admission_drop_def restart_connection_task_def

lemma accounted_start:
  assumes "pool_build build unix_secs pc = Inr e" and "0 < max_connections pc"
  shows "accounted e []"
  using assms by (auto simp: pool_build_def accounted_def tally_def split: sum.splits)

text \<open>What a move must change for the account to stay right.\<close>

lemma accounted_move:
  assumes "accounted e phs" and "r < length phs"
    and "pe_permit_count e' = pe_permit_count e" "pe_max_waiters e' = pe_max_waiters e"
      "length (pe_client_leases e') = length (pe_client_leases e)" "pe_waiters e' \<le> pe_max_waiters e'"
    and permits: "pe_permits e' + (if holds_permit ph then 1 else 0) = pe_permits e + (if holds_permit (phs ! r) then 1 else 0)"
    and waiters: "pe_waiters e' + (if in_queue (phs ! r) then 1 else 0) = pe_waiters e + (if in_queue ph then 1 else 0)"
    and range: "in_range (pe_permit_count e) ph"
    and leases: "\<And>i. i < pe_permit_count e \<Longrightarrow>
      (if pe_client_leases e' ! i then 1 else 0) + (if holds_lease i (phs ! r) then 1 else 0)
      = (if pe_client_leases e ! i then 1 else 0) + (if holds_lease i ph then 1 else (0::nat))"
  shows "accounted e' (phs[r := ph])"
proof -
  have t: "tally P (phs[r := ph]) + (if P (phs ! r) then 1 else 0) = tally P phs + (if P ph then 1 else 0)" for P
    by (rule tally_update [OF assms(2)])
  have "pe_permits e' + tally holds_permit (phs[r := ph]) = pe_permit_count e'"
    using assms(1,3) permits t [of holds_permit] by (auto simp: accounted_def split: if_splits)
  moreover have "pe_waiters e' = tally in_queue (phs[r := ph])"
    using assms(1) waiters t [of in_queue] by (auto simp: accounted_def split: if_splits)
  moreover have "tally (holds_lease i) (phs[r := ph]) = (if pe_client_leases e' ! i then 1 else 0)"
    if "i < pe_permit_count e" for i
    using assms(1) that leases [OF that] t [of "holds_lease i"]
    by (auto simp: accounted_def split: if_splits)
  moreover have "list_all (in_range (pe_permit_count e)) (phs[r := ph])"
    using assms(1) range set_update_subset_insert [of phs r ph]
    by (auto simp: accounted_def list_all_iff)
  ultimately show ?thesis
    using assms(1,3-6) by (simp add: accounted_def)
qed

lemma accounted_moves:
  assumes acc: "accounted e phs" and r: "r < length phs" and mv: "(ph, e') \<in> set (moves now failed (phs ! r) e)"
  shows "accounted e' (phs[r := ph])"
proof -
  have n: "0 < pe_permit_count e" "length (pe_client_leases e) = pe_permit_count e" "pe_waiters e \<le> pe_max_waiters e"
    using acc by (simp_all add: accounted_def)
  have range: "in_range (pe_permit_count e) (phs ! r)"
    using acc r by (simp add: accounted_def list_all_length)
  have queued: "in_queue (phs ! r) \<Longrightarrow> 0 < pe_waiters e"
    using acc tally_pos [OF r, of in_queue] by (simp add: accounted_def)
  have locked: "pe_client_leases e ! i" if "holds_lease i (phs ! r)" "i < pe_permit_count e" for i
    using acc tally_pos [OF r, of "holds_lease i"] that by (auto simp: accounted_def split: if_splits)
  show ?thesis
    using mv n range queued locked
    by (cases "phs ! r") 
      (auto intro!: accounted_move [OF acc r] simp: entry_ops nth_list_update Let_def
        split: prod.splits sum.splits option.splits if_splits)
qed

interpretation pool_sys: step_system pool_start pool_step "\<lambda>s. accounted (ps_entry s) (ps_requests s)"
proof
  fix s t :: "'c pool_sys"
  show "accounted (ps_entry s) (ps_requests s)" if "pool_start s"
    using that by (auto simp: pool_start_def intro: accounted_start)
  assume acc: "accounted (ps_entry s) (ps_requests s)"
  assume "pool_step s t"
  then show "accounted (ps_entry t) (ps_requests t)"
  proof cases
    case arrive
    with acc show ?thesis by (auto simp: accounted_def)
  next
    case (move r ph e now failed)
    with accounted_moves [OF acc] show ?thesis by simp
  qed
qed

section \<open>Consequences\<close>

text \<open>
  C4. However the requests on a pool interleave and wherever they are dropped, in every reachable
  state: no two requests hold the same client; the requests with a semaphore permit and the free permits add up to the pool
  size; at most \<open>max_waiters\<close> requests are queued; and when all requests are done, every permit is free, the queue
  is empty and every client is free, so nothing leaks.
\<close>

theorem pool_leases_exclusive:
  assumes "pool_start s" and "pool_step\<^sup>*\<^sup>* s t"
  shows "(\<forall>i r r'. r < length (ps_requests t) \<and> r' < length (ps_requests t)
        \<and> holds_lease i (ps_requests t ! r) \<and> holds_lease i (ps_requests t ! r') \<longrightarrow> r = r')
    \<and> pe_permits (ps_entry t) + tally holds_permit (ps_requests t) = pe_permit_count (ps_entry t)
    \<and> tally in_queue (ps_requests t) \<le> pe_max_waiters (ps_entry t)
    \<and> (list_all (\<lambda>ph. ph = Done) (ps_requests t) \<longrightarrow>
         pe_permits (ps_entry t) = pe_permit_count (ps_entry t) \<and> pe_waiters (ps_entry t) = 0
         \<and> list_all Not (pe_client_leases (ps_entry t)))"
proof -
  note acc = pool_sys.inv_reachable [OF assms]
  have one: "tally (holds_lease i) (ps_requests t) \<le> 1" if "r < length (ps_requests t)" "holds_lease i (ps_requests t ! r)" for i r
  proof -
    have "in_range (pe_permit_count (ps_entry t)) (ps_requests t ! r)"
      using acc that by (simp add: accounted_def list_all_length)
    then have "i < pe_permit_count (ps_entry t)" using that(2) by (cases "ps_requests t ! r") auto
    then show ?thesis using acc by (simp add: accounted_def)
  qed
  have "r = r'" if "r < length (ps_requests t)" "r' < length (ps_requests t)"
      "holds_lease i (ps_requests t ! r)" "holds_lease i (ps_requests t ! r')" for i r r'
    using one [of r i] that two_in_tally [of r "ps_requests t" r' "holds_lease i"] by fastforce
  moreover have "pe_permits (ps_entry t) = pe_permit_count (ps_entry t) \<and> pe_waiters (ps_entry t) = 0
         \<and> list_all Not (pe_client_leases (ps_entry t))" if gone: "list_all (\<lambda>ph. ph = Done) (ps_requests t)"
  proof -
    have "tally P (ps_requests t) = 0" if "\<not> P Done" for P
      using gone that by (auto simp: tally_def filter_empty_conv list_all_iff)
    from this [of holds_permit] this [of in_queue] this [of "holds_lease _"] acc show ?thesis
      by (auto simp: accounted_def list_all_length split: if_splits)
  qed
  moreover have "pe_permits (ps_entry t) + tally holds_permit (ps_requests t) = pe_permit_count (ps_entry t)"
      "tally in_queue (ps_requests t) \<le> pe_max_waiters (ps_entry t)"
    using acc by (simp_all add: accounted_def)
  ultimately show ?thesis by blast
qed

text \<open>A schedule: which request moves, to which of its next points; the breaker stays closed here.\<close>

fun run_schedule :: "(nat \<times> nat) list \<Rightarrow> 'c pool_sys \<Rightarrow> 'c pool_sys option" where
  "run_schedule [] s = Some s"
| "run_schedule ((r, c) # rest) s =
     (if r < length (ps_requests s) \<and> c < length (moves 0 False (ps_requests s ! r) (ps_entry s))
      then (case moves 0 False (ps_requests s ! r) (ps_entry s) ! c of
              (ph, e) \<Rightarrow> run_schedule rest (s\<lparr>ps_entry := e, ps_requests := (ps_requests s)[r := ph]\<rparr>))
      else None)"

lemma run_schedule_steps: "run_schedule sched s = Some t \<Longrightarrow> pool_step\<^sup>*\<^sup>* s t"
proof (induction sched s rule: run_schedule.induct)
  case (2 r c rest s)
  then obtain ph e where mv: "r < length (ps_requests s)" "c < length (moves 0 False (ps_requests s ! r) (ps_entry s))"
      "moves 0 False (ps_requests s ! r) (ps_entry s) ! c = (ph, e)"
    by (auto split: if_splits prod.splits)
  then have "(ph, e) \<in> set (moves 0 False (ps_requests s ! r) (ps_entry s))" by (metis nth_mem)
  with mv(1) have "pool_step s (s\<lparr>ps_entry := e, ps_requests := (ps_requests s)[r := ph]\<rparr>)" by (rule pool_step.move)
  with 2 mv show ?case by (auto intro: converse_rtranclp_into_rtranclp)
qed auto

definition one_client :: "unit pool_entry" where
  "one_client = \<lparr>pe_clients = [()], pe_permits_in_use = 0, pe_client_leases = [False], pe_client_operations = [False],
     pe_next_client = 0, pe_connection_tasks = [False], pe_last_used = 0, pe_permits = 1, pe_permit_count = 1,
     pe_waiters = 0, pe_max_waiters = 2, pe_acquire_timeout = from_millis 500, pe_command_timeout = from_millis 500,
     pe_breaker = breaker_new 5 (from_millis 1000)\<rparr>"

lemma one_client_starts: "pool_start \<lparr>ps_entry = one_client, ps_requests = []\<rparr>"
proof -
  let ?pc = "\<lparr>connection_string = SecretString ''redis://h'', max_connections = 1, command_timeout_ms = 500, acquire_timeout_ms = 500,
    max_waiters = 2, pc_breaker = \<lparr>bc_failure_threshold = 5, bc_cooldown_ms = 1000\<rparr>, pc_allowed_script_sha256 = {}\<rparr>"
  have "pool_build (\<lambda>_. Inr (\<lambda>_. ())) 0 ?pc = Inr one_client" by (simp add: pool_build_def one_client_def)
  moreover have "0 < max_connections ?pc" by simp
  ultimately show ?thesis unfolding pool_start_def by (metis pool_sys.select_convs)
qed

lemma two_requests:
  "pool_step\<^sup>*\<^sup>* \<lparr>ps_entry = one_client, ps_requests = []\<rparr> \<lparr>ps_entry = one_client, ps_requests = [Start, Start]\<rparr>"
  using pool_step.arrive [of "\<lparr>ps_entry = one_client, ps_requests = []\<rparr>"]
    pool_step.arrive [of "\<lparr>ps_entry = one_client, ps_requests = [Start]\<rparr>"]
  by (auto intro: converse_rtranclp_into_rtranclp)

text \<open>
  The first request gets the client, runs its command and gives its permit back; before it gives the client
  back, the second gets the permit, finds the client taken, waits for it and is dropped.
\<close>

definition drift_schedule :: "(nat \<times> nat) list" where
  "drift_schedule = [(0, 0), (0, 0), (0, 1), (0, 0), (0, 0), (0, 0), (1, 0), (1, 0), (0, 0), (1, 1), (1, 0), (1, 0),
     (1, 0), (0, 0), (1, 0), (1, 0)]"

lemma drift_run:
  "\<exists>t. run_schedule drift_schedule \<lparr>ps_entry = one_client, ps_requests = [Start, Start]\<rparr> = Some t
     \<and> ps_requests t = [Done, Done] \<and> pe_permits_in_use (ps_entry t) = 1"
  by (simp add: drift_schedule_def one_client_def entry_ops breaker_new_def breaker_admit_def breaker_record_def
      breaker_cancel_def Let_def)

theorem pool_leases_exclusive_witness:
  "\<exists>t. pool_step\<^sup>*\<^sup>* \<lparr>ps_entry = one_client, ps_requests = []\<rparr> t \<and> ps_requests t = [Done, Done]
     \<and> pe_permits (ps_entry t) = pe_permit_count (ps_entry t) \<and> list_all Not (pe_client_leases (ps_entry t))"
proof -
  obtain t where t: "run_schedule drift_schedule \<lparr>ps_entry = one_client, ps_requests = [Start, Start]\<rparr> = Some t"
    "ps_requests t = [Done, Done]" using drift_run by blast
  have steps: "pool_step\<^sup>*\<^sup>* \<lparr>ps_entry = one_client, ps_requests = []\<rparr> t"
    using two_requests run_schedule_steps [OF t(1)] by (rule rtranclp_trans)
  from pool_leases_exclusive [OF one_client_starts this] t(2) steps show ?thesis by auto
qed

text \<open>
  The gauge of used permits is not restored by every drop: a request that is dropped while it waits for
  a client with its permit in hand has incremented the gauge and never decrements it, because the
  guard that would is made later. There is a run on a pool of one connection after which no
  request is left and the gauge shows one permit in use.
\<close>

theorem permits_gauge_drifts:
  "\<exists>s t. pool_start (s :: unit pool_sys) \<and> pool_step\<^sup>*\<^sup>* s t \<and> list_all (\<lambda>ph. ph = Done) (ps_requests t)
     \<and> pe_permits (ps_entry t) = pe_permit_count (ps_entry t) \<and> pe_permits_in_use (ps_entry t) = 1"
proof -
  obtain t where t: "run_schedule drift_schedule \<lparr>ps_entry = one_client, ps_requests = [Start, Start]\<rparr> = Some t"
    "ps_requests t = [Done, Done]" "pe_permits_in_use (ps_entry t) = 1" using drift_run by blast
  have steps: "pool_step\<^sup>*\<^sup>* \<lparr>ps_entry = one_client, ps_requests = []\<rparr> t"
    using two_requests run_schedule_steps [OF t(1)] by (rule rtranclp_trans)
  have "pe_permits (ps_entry t) = pe_permit_count (ps_entry t)"
    using pool_sys.inv_reachable [OF one_client_starts steps] t(2) by (simp add: accounted_def tally_def)
  with one_client_starts steps t show ?thesis by (intro exI conjI) simp_all
qed

section \<open>Termination\<close>

text \<open>How many moves a request has left at most, in a pool of \<open>n\<close> clients.\<close>

fun phase_rank :: "nat \<Rightarrow> phase \<Rightarrow> nat" where
  "phase_rank n Start = n + 9"
| "phase_rank n (Admitted _) = n + 8"
| "phase_rank n (Waiting _) = n + 7"
| "phase_rank n (Granted _) = n + 6"
| "phase_rank n (Scanning _ _ offset) = n - offset + 5"
| "phase_rank n (Blocked _ _) = 4"
| "phase_rank n (Leased _ _) = 3"
| "phase_rank n (Executed _) = 2"
| "phase_rank n (Releasing _) = 1"
| "phase_rank n (Unwinding _) = 1"
| "phase_rank n Done = 0"

text \<open>The moves by which a request gives up: the timeout of the queue, or being dropped at an await.\<close>

fun gives_up :: "phase \<Rightarrow> phase \<Rightarrow> bool" where
  "gives_up (Waiting _) (Unwinding _) = True"
| "gives_up (Blocked _ _) (Unwinding _) = True"
| "gives_up _ _ = False"

lemma moves_rank:
  "(ph', e') \<in> set (moves now failed ph e) \<Longrightarrow> phase_rank (length (pe_client_leases e)) ph' < phase_rank (length (pe_client_leases e)) ph"
  by (cases "entry_admit now e"; cases "fst (entry_admit now e)"; cases ph)
    (auto simp: next_start_def Let_def split: option.splits if_splits)

text \<open>A request that is not done can go on, unless it waits for a permit or a client that somebody has.\<close>

lemma moves_on:
  assumes "ph \<noteq> Done" and "\<And>permit. ph = Waiting permit \<Longrightarrow> 0 < pe_permits e"
    and "\<And>permit i. ph = Blocked permit i \<Longrightarrow> \<not> pe_client_leases e ! i"
  shows "\<exists>(ph', e') \<in> set (moves now failed ph e). \<not> gives_up ph ph'"
  using assms
  by (cases "entry_admit now e"; cases "fst (entry_admit now e)"; cases "next_start (gauge_add 1 (waiter_drop e))"; cases ph)
    (auto simp: permit_take_def Let_def split: option.splits)

text \<open>Some request can move without giving up.\<close>

definition goes_on :: "instant \<Rightarrow> bool \<Rightarrow> 'c pool_entry \<Rightarrow> phase list \<Rightarrow> bool" where
  "goes_on now failed e phs \<longleftrightarrow>
     (\<exists>r < length phs. \<exists>(ph', e') \<in> set (moves now failed (phs ! r) e). \<not> gives_up (phs ! r) ph')"

lemma goes_onI:
  assumes "r < length phs" and "phs ! r \<noteq> Done" and "\<And>permit. phs ! r = Waiting permit \<Longrightarrow> 0 < pe_permits e"
    and "\<And>permit i. phs ! r = Blocked permit i \<Longrightarrow> \<not> pe_client_leases e ! i"
  shows "goes_on now failed e phs"
proof -
  have "\<exists>(ph', e') \<in> set (moves now failed (phs ! r) e). \<not> gives_up (phs ! r) ph'" by (rule moves_on) (use assms in auto)
  then show ?thesis unfolding goes_on_def using assms(1) by blast
qed

lemma blocked_goes_on:
  assumes "accounted e phs" and "r < length phs" and "phs ! r = Blocked permit i"
  shows "goes_on now failed e phs"
proof (cases "pe_client_leases e ! i")
  case True
  have "in_range (pe_permit_count e) (phs ! r)" using assms(1,2) unfolding accounted_def list_all_length by blast
  with assms(1,3) True have "0 < tally (holds_lease i) phs" by (simp add: accounted_def)
  then obtain r' where "r' < length phs" "holds_lease i (phs ! r')" using tally_exists by blast
  then show ?thesis by (intro goes_onI [of r']) (auto elim: holds_lease.elims)
next
  case False
  show ?thesis by (rule goes_onI [of r]) (use assms False in auto)
qed

lemma holder_goes_on:
  assumes "accounted e phs" and "r < length phs" and "holds_permit (phs ! r)"
  shows "goes_on now failed e phs"
proof (cases "\<exists>permit i. phs ! r = Blocked permit i")
  case True
  then show ?thesis using blocked_goes_on [OF assms(1,2)] by blast
next
  case False
  show ?thesis by (rule goes_onI [of r]) (use assms False in auto)
qed

lemma accounted_goes_on:
  assumes "accounted e phs" and "ph \<in> set phs" "ph \<noteq> Done"
  shows "goes_on now failed e phs"
proof -
  obtain r where r: "r < length phs" "phs ! r = ph" using assms(2) by (auto simp: in_set_conv_nth)
  consider (queue) permit where "ph = Waiting permit" "pe_permits e = 0" | (blocked) permit i where "ph = Blocked permit i"
    | (free) "\<And>permit. ph = Waiting permit \<Longrightarrow> 0 < pe_permits e" "\<And>permit i. ph \<noteq> Blocked permit i"
    by auto
  then show ?thesis
  proof cases
    case queue
    then have "0 < tally holds_permit phs" using assms(1) by (auto simp: accounted_def)
    then show ?thesis using tally_exists holder_goes_on [OF assms(1)] by blast
  next
    case blocked
    then show ?thesis using blocked_goes_on [OF assms(1)] r by blast
  next
    case free
    show ?thesis by (rule goes_onI [of r]) (use free r assms(3) in auto)
  qed
qed

text \<open>
  C25. Acquiring and using a connection terminates. In every reachable state each move of a request strictly lowers
  its rank, so a request makes at most \<open>n + 9\<close> moves on a pool of \<open>n\<close> connections and is then done; and as long as some request is
  not done, some request can move without giving up: the pool never deadlocks, and no request
  depends on the timeout of another to make progress.
\<close>

theorem pool_requests_terminate:
  assumes "pool_start s" and "pool_step\<^sup>*\<^sup>* s t"
  shows "(\<forall>ph \<in> set (ps_requests t). \<forall>(ph', e') \<in> set (moves now failed ph (ps_entry t)).
        phase_rank (pe_permit_count (ps_entry t)) ph' < phase_rank (pe_permit_count (ps_entry t)) ph)
    \<and> (list_all (\<lambda>ph. ph = Done) (ps_requests t)
       \<or> (\<exists>r < length (ps_requests t). \<exists>(ph', e') \<in> set (moves now failed (ps_requests t ! r) (ps_entry t)).
            \<not> gives_up (ps_requests t ! r) ph'))"
proof -
  note acc = pool_sys.inv_reachable [OF assms]
  then have n: "length (pe_client_leases (ps_entry t)) = pe_permit_count (ps_entry t)" by (simp add: accounted_def)
  have "\<forall>ph \<in> set (ps_requests t). \<forall>(ph', e') \<in> set (moves now failed ph (ps_entry t)).
        phase_rank (pe_permit_count (ps_entry t)) ph' < phase_rank (pe_permit_count (ps_entry t)) ph"
    using moves_rank [of _ _ now failed _ "ps_entry t"] by (auto simp: n)
  moreover have "list_all (\<lambda>ph. ph = Done) (ps_requests t)
       \<or> (\<exists>r < length (ps_requests t). \<exists>(ph', e') \<in> set (moves now failed (ps_requests t ! r) (ps_entry t)).
            \<not> gives_up (ps_requests t ! r) ph')"
    using accounted_goes_on [OF acc, of _ now failed, unfolded goes_on_def] by (auto simp: list_all_iff)
  ultimately show ?thesis by blast
qed

theorem pool_requests_terminate_witness:
  "\<exists>r < 2. \<exists>(ph', e') \<in> set (moves 0 False ([Start, Start] ! r) one_client). \<not> gives_up ([Start, Start] ! r) ph'"
  using pool_requests_terminate [OF one_client_starts two_requests, of 0 False] by (simp add: numeral_2_eq_2)

end
