(* ===== verification/Pool_Eviction.thy ===== *)
theory Pool_Eviction
  imports Pool_Interleaving
begin

text \<open>
  The whole pool manager with its maintenance task: requests arrive for any pool name
  (\<open>get_or_build\<close> runs under the lock of the map's shard), every request moves through the phases of
  \<open>Pool_Interleaving\<close> on its own entry, the wall clock advances, and a maintenance pass evicts idle pools
  with the time it read when it began. An evicted entry is removed from the map and shut down while requests may still
  hold a reference to it, and the next request for that name builds a new entry.

  Between \<open>get_or_build\<close> and the entry into the queue there is no await: a request there is assumed to
  take less than the 15 minutes after which a pool is idle. The clock of the model
  does not advance past that (\<open>prompt\<close>); it is otherwise arbitrary, and never goes back.

  The invariant has one preservation lemma for each kind of step. Its consequences: no request queues for,
  holds a permit of or leases a client of an evicted pool, and the requests of one pool name never
  use more connections than its configuration allows, however often the pool is evicted and
  built again.
\<close>

section \<open>Requests, clock and maintenance\<close>

record pool_request =
  pq_pool :: string
  pq_entry :: nat
  pq_since :: nat
  pq_phase :: phase

record 'c pools_sys =
  px_manager :: "'c pool_manager"
  px_requests :: "pool_request list"
  px_unix :: nat
  px_evicted :: "nat list"

fun early :: "phase \<Rightarrow> bool" where
  "early Start = True"
| "early (Admitted _) = True"
| "early _ = False"

definition prompt :: "nat \<Rightarrow> pool_request \<Rightarrow> bool" where
  "prompt unix_secs q \<longleftrightarrow> (early (pq_phase q) \<longrightarrow> unix_secs - pq_since q \<le> IDLE_EVICTION_SECS)"

inductive pools_step ::
  "(pool_config \<Rightarrow> string + (nat \<Rightarrow> 'c)) \<Rightarrow> config \<Rightarrow> 'c pools_sys \<Rightarrow> 'c pools_sys \<Rightarrow> bool"
  for build cfg where
  arrive: "get_or_build build cfg (px_unix s) name (px_manager s) = (Inr i, m) \<Longrightarrow>
    pools_step build cfg s (s\<lparr>px_manager := m, px_requests := px_requests s
      @ [\<lparr>pq_pool = name, pq_entry = i, pq_since = px_unix s, pq_phase = Start\<rparr>]\<rparr>)"
| refuse: "get_or_build build cfg (px_unix s) name (px_manager s) = (Inl err, m) \<Longrightarrow>
    pools_step build cfg s (s\<lparr>px_manager := m\<rparr>)"
| move: "r < length (px_requests s) \<Longrightarrow> q = px_requests s ! r \<Longrightarrow>
    (ph, e) \<in> set (moves now failed (pq_phase q) (pm_entries (px_manager s) ! pq_entry q)) \<Longrightarrow>
    pools_step build cfg s
      (s\<lparr>px_manager := put_entry (pq_entry q) e (px_manager s), px_requests := (px_requests s)[r := q\<lparr>pq_phase := ph\<rparr>]\<rparr>)"
| tick: "px_unix s \<le> unix_secs \<Longrightarrow> list_all (prompt unix_secs) (px_requests s) \<Longrightarrow>
    pools_step build cfg s (s\<lparr>px_unix := unix_secs\<rparr>)"
| evict: "now \<le> px_unix s \<Longrightarrow> hm_get (pm_pools (px_manager s)) name = Some i \<Longrightarrow>
    evict_names now [name] (px_manager s) = (1, m) \<Longrightarrow>
    pools_step build cfg s (s\<lparr>px_manager := m, px_evicted := i # px_evicted s\<rparr>)"
| spare: "now \<le> px_unix s \<Longrightarrow> evict_names now [name] (px_manager s) = (0, m) \<Longrightarrow>
    pools_step build cfg s (s\<lparr>px_manager := m\<rparr>)"

inductive_cases pools_stepE: "pools_step build cfg s t"

definition pools_start :: "config \<Rightarrow> 'c pools_sys \<Rightarrow> bool" where
  "pools_start cfg s \<longleftrightarrow> px_manager s = pool_manager_new \<and> px_requests s = [] \<and> px_evicted s = []
     \<and> list_all (\<lambda>(_, pc). 0 < max_connections pc) (cf_pools cfg)"

section \<open>The requests of one entry\<close>

definition phases_on :: "nat \<Rightarrow> pool_request list \<Rightarrow> phase list" where
  "phases_on i qs = map pq_phase (filter (\<lambda>q. pq_entry q = i) qs)"

lemma phases_on_append [simp]:
  "phases_on i (qs @ [q]) = phases_on i qs @ (if pq_entry q = i then [pq_phase q] else [])"
  by (simp add: phases_on_def)

lemma phases_on_split: "phases_on i (xs @ q # ys) = phases_on i xs @ phases_on i (q # ys)"
  by (simp add: phases_on_def)

lemma phases_on_update:
  assumes "r < length qs" and "pq_entry (qs ! r) = i"
  obtains k where "k < length (phases_on i qs)" "phases_on i qs ! k = pq_phase (qs ! r)"
    "phases_on i (qs[r := (qs ! r)\<lparr>pq_phase := ph\<rparr>]) = (phases_on i qs)[k := ph]"
proof
  let ?k = "length (phases_on i (take r qs))"
  have qs: "qs = take r qs @ qs ! r # drop (Suc r) qs" using assms(1) by (rule id_take_nth_drop)
  have split: "phases_on i qs = phases_on i (take r qs) @ pq_phase (qs ! r) # phases_on i (drop (Suc r) qs)"
    by (subst qs, subst phases_on_split) (simp add: phases_on_def assms(2))
  show "?k < length (phases_on i qs)" "phases_on i qs ! ?k = pq_phase (qs ! r)" by (simp_all add: split)
  show "phases_on i (qs[r := (qs ! r)\<lparr>pq_phase := ph\<rparr>]) = (phases_on i qs)[?k := ph]"
    unfolding split upd_conv_take_nth_drop [OF assms(1)] phases_on_split
    by (simp add: phases_on_def assms(2) list_update_append)
qed

lemma phases_on_other:
  assumes "r < length qs" and "pq_entry (qs ! r) \<noteq> i"
  shows "phases_on i (qs[r := (qs ! r)\<lparr>pq_phase := ph\<rparr>]) = phases_on i qs"
proof -
  have "phases_on i qs = phases_on i (take r qs) @ phases_on i (qs ! r # drop (Suc r) qs)"
    by (subst id_take_nth_drop [OF assms(1)], rule phases_on_split)
  then show ?thesis
    unfolding upd_conv_take_nth_drop [OF assms(1)] phases_on_split by (simp add: phases_on_def assms(2))
qed

lemma accounted_arrival: "accounted e phs \<Longrightarrow> accounted e (phs @ [Start])"
  by (simp add: accounted_def)

lemma accounted_permits: "accounted e phs \<Longrightarrow> tally holds_permit phs \<le> pe_permit_count e"
  by (simp add: accounted_def)

section \<open>The invariant\<close>

fun leaving :: "phase \<Rightarrow> bool" where
  "leaving (Releasing _) = True"
| "leaving (Unwinding _) = True"
| "leaving Done = True"
| "leaving _ = False"

lemma leaving_iff: "leaving ph \<longleftrightarrow> \<not> early ph \<and> \<not> in_queue ph \<and> \<not> holds_permit ph"
  by (cases ph) simp_all

definition request_ok :: "'c pools_sys \<Rightarrow> pool_request \<Rightarrow> bool" where
  "request_ok s q \<longleftrightarrow>
     pq_entry q < length (pm_entries (px_manager s))
     \<and> pq_since q \<le> px_unix s
     \<and> prompt (px_unix s) q
     \<and> (early (pq_phase q) \<longrightarrow> pq_since q \<le> pe_last_used (pm_entries (px_manager s) ! pq_entry q))
     \<and> (if pq_entry q \<in> set (px_evicted s) then leaving (pq_phase q)
        else hm_get (pm_pools (px_manager s)) (pq_pool q) = Some (pq_entry q))"

definition map_ok :: "config \<Rightarrow> 'c pools_sys \<Rightarrow> bool" where
  "map_ok cfg s \<longleftrightarrow>
     (\<forall>name i. hm_get (pm_pools (px_manager s)) name = Some i \<longrightarrow>
        i < length (pm_entries (px_manager s)) \<and> i \<notin> set (px_evicted s)
        \<and> (\<exists>pc. hm_get (cf_pools cfg) name = Some pc
             \<and> pe_permit_count (pm_entries (px_manager s) ! i) = max_connections pc)
        \<and> (\<forall>name'. hm_get (pm_pools (px_manager s)) name' = Some i \<longrightarrow> name' = name))
     \<and> (\<forall>i \<in> set (px_evicted s). i < length (pm_entries (px_manager s)))"

definition pools_ok :: "config \<Rightarrow> 'c pools_sys \<Rightarrow> bool" where
  "pools_ok cfg s \<longleftrightarrow>
     list_all (\<lambda>(_, pc). 0 < max_connections pc) (cf_pools cfg)
     \<and> map_ok cfg s
     \<and> (\<forall>i < length (pm_entries (px_manager s)). accounted (pm_entries (px_manager s) ! i) (phases_on i (px_requests s)))
     \<and> list_all (request_ok s) (px_requests s)"

lemma moves_keep:
  "(ph', e') \<in> set (moves now failed ph e) \<Longrightarrow>
   pe_last_used e' = pe_last_used e \<and> pe_permit_count e' = pe_permit_count e
   \<and> (early ph' \<longrightarrow> early ph) \<and> (leaving ph \<longrightarrow> leaving ph')"
  by (cases ph) (auto simp: entry_ops Let_def split: prod.splits sum.splits option.splits if_splits)

lemma configured_positive:
  "list_all (\<lambda>(_, pc). 0 < max_connections pc) pools \<Longrightarrow> hm_get pools name = Some pc \<Longrightarrow> 0 < max_connections pc"
  by (auto simp: list_all_iff dest!: map_of_SomeD)

section \<open>Each kind of step\<close>

lemma move_ok:
  assumes ok: "pools_ok cfg s" and r: "r < length (px_requests s)" and q: "q = px_requests s ! r"
    and mv: "(ph, e) \<in> set (moves now failed (pq_phase q) (pm_entries (px_manager s) ! pq_entry q))"
  shows "pools_ok cfg (s\<lparr>px_manager := put_entry (pq_entry q) e (px_manager s),
    px_requests := (px_requests s)[r := q\<lparr>pq_phase := ph\<rparr>]\<rparr>)" (is "pools_ok cfg ?t")
proof -
  let ?i = "pq_entry q" and ?es = "pm_entries (px_manager s)"
  note keep = moves_keep [OF mv]
  have reqs: "request_ok s q'" if "q' \<in> set (px_requests s)" for q'
    using ok that by (auto simp: pools_ok_def list_all_iff)
  have okq: "request_ok s q" using reqs r q by simp
  then have i: "?i < length ?es" by (simp add: request_ok_def)
  have entries: "pm_entries (px_manager ?t) = ?es[?i := e]" "pm_pools (px_manager ?t) = pm_pools (px_manager s)"
    by (simp_all add: put_entry_def)
  have same: "pe_last_used (?es[?i := e] ! j) = pe_last_used (?es ! j)"
      "pe_permit_count (?es[?i := e] ! j) = pe_permit_count (?es ! j)" for j
    using keep i by (simp_all add: nth_list_update)
  have "accounted (?es[?i := e] ! j) (phases_on j ((px_requests s)[r := q\<lparr>pq_phase := ph\<rparr>]))"
    if j: "j < length ?es" for j
  proof -
    have acc: "accounted (?es ! j) (phases_on j (px_requests s))" using ok j by (simp add: pools_ok_def)
    show ?thesis
    proof (cases "j = ?i")
      case True
      obtain k where k: "k < length (phases_on j (px_requests s))" "phases_on j (px_requests s) ! k = pq_phase q"
          "phases_on j ((px_requests s)[r := q\<lparr>pq_phase := ph\<rparr>]) = (phases_on j (px_requests s))[k := ph]"
        using phases_on_update [OF r, of j ph] True q by metis
      from accounted_moves [OF acc k(1), of ph e now failed] mv k True i show ?thesis by simp
    next
      case False
      with acc phases_on_other [OF r, of j ph] q show ?thesis by simp
    qed
  qed
  moreover have "request_ok ?t q'" if "q' \<in> set ((px_requests s)[r := q\<lparr>pq_phase := ph\<rparr>])" for q'
  proof -
    have "q' \<in> set (px_requests s) \<or> q' = q\<lparr>pq_phase := ph\<rparr>" using that set_update_subset_insert by fastforce
    then show ?thesis
      using reqs [of q'] okq keep unfolding request_ok_def entries same by (auto simp: prompt_def)
  qed
  moreover have "map_ok cfg ?t" using ok unfolding pools_ok_def map_ok_def entries same by simp
  ultimately show ?thesis using ok unfolding pools_ok_def entries by (simp add: list_all_iff)
qed

lemma tick_ok:
  assumes "pools_ok cfg s" and "px_unix s \<le> unix_secs" and "list_all (prompt unix_secs) (px_requests s)"
  shows "pools_ok cfg (s\<lparr>px_unix := unix_secs\<rparr>)"
  using assms by (auto simp: pools_ok_def map_ok_def request_ok_def list_all_iff)

lemma evict_ok:
  assumes ok: "pools_ok cfg s" and now: "now \<le> px_unix s" and i: "hm_get (pm_pools (px_manager s)) name = Some i"
    and ev: "evict_names now [name] (px_manager s) = (1, m)"
  shows "pools_ok cfg (s\<lparr>px_manager := m, px_evicted := i # px_evicted s\<rparr>)" (is "pools_ok cfg ?t")
proof -
  let ?es = "pm_entries (px_manager s)" and ?ps = "pm_pools (px_manager s)"
  let ?e = "(pool_shutdown (?es ! i))\<lparr>pe_permits_in_use := 0\<rparr>"
  have may: "may_evict now (?es ! i)" and m: "pm_entries m = ?es[i := ?e]" "pm_pools m = hm_remove name ?ps"
    using ev i by (auto simp: put_entry_def Let_def split: if_splits)
  have il: "i < length ?es" and uniq: "\<And>name'. hm_get ?ps name' = Some i \<Longrightarrow> name' = name"
    using ok i by (auto simp: pools_ok_def map_ok_def)
  have acc: "accounted (?es ! i) (phases_on i (px_requests s))" using ok il by (simp add: pools_ok_def)
  have same: "pe_last_used (?es[i := ?e] ! j) = pe_last_used (?es ! j)"
      "pe_permit_count (?es[i := ?e] ! j) = pe_permit_count (?es ! j)"
      "accounted (?es[i := ?e] ! j) phs = accounted (?es ! j) phs" for j phs
    using il by (auto simp: nth_list_update pool_shutdown_def accounted_def)
  have gone: "leaving (pq_phase q)" if q: "q \<in> set (px_requests s)" "pq_entry q = i" for q
  proof -
    have qok: "request_ok s q" using ok q(1) by (auto simp: pools_ok_def list_all_iff)
    have in_phs: "pq_phase q \<in> set (phases_on i (px_requests s))" using q by (auto simp: phases_on_def)
    have "tally in_queue (phases_on i (px_requests s)) = 0" "tally holds_permit (phases_on i (px_requests s)) = 0"
      using acc may by (auto simp: accounted_def may_evict_def)
    then have "\<not> in_queue (pq_phase q)" "\<not> holds_permit (pq_phase q)"
      using in_phs by (auto simp: tally_def filter_empty_conv)
    moreover have "\<not> early (pq_phase q)"
      using qok may now q(2) by (auto simp: request_ok_def prompt_def may_evict_def)
    ultimately show ?thesis by (simp add: leaving_iff)
  qed
  have "request_ok ?t q" if "q \<in> set (px_requests s)" for q
  proof -
    have "request_ok s q" using ok that by (simp add: pools_ok_def list_all_iff)
    then show ?thesis
      using gone [OF that] i by (cases "pq_entry q = i") (auto simp: request_ok_def m same delete_conv' leaving_iff split: if_splits)
  qed
  moreover have "map_ok cfg ?t"
    using ok il uniq unfolding pools_ok_def map_ok_def by (auto simp: m same delete_conv' split: if_splits)
  ultimately show ?thesis using ok unfolding pools_ok_def by (simp add: m same list_all_iff)
qed

lemma spare_ok:
  assumes "pools_ok cfg s" and "evict_names now [name] (px_manager s) = (0, m)"
  shows "pools_ok cfg (s\<lparr>px_manager := m\<rparr>)"
  using assms by (auto simp: Let_def split: if_splits option.splits)

lemma refuse_ok:
  assumes "pools_ok cfg s" and "get_or_build build cfg unix_secs name (px_manager s) = (Inl err, m)"
  shows "pools_ok cfg (s\<lparr>px_manager := m\<rparr>)"
  using assms by (auto simp: get_or_build_def split: option.splits sum.splits)

text \<open>An arrival at a pool that is built, and one that builds it.\<close>

lemma arrive_found_ok:
  assumes ok: "pools_ok cfg s" and i: "hm_get (pm_pools (px_manager s)) name = Some i"
  shows "pools_ok cfg (s\<lparr>px_manager := put_entry i ((ensure_connection_task (pm_entries (px_manager s) ! i))
        \<lparr>pe_last_used := px_unix s\<rparr>) (px_manager s),
    px_requests := px_requests s @ [\<lparr>pq_pool = name, pq_entry = i, pq_since = px_unix s, pq_phase = Start\<rparr>]\<rparr>)"
    (is "pools_ok cfg ?t")
proof -
  let ?es = "pm_entries (px_manager s)" and ?ps = "pm_pools (px_manager s)"
  let ?e = "(ensure_connection_task (?es ! i))\<lparr>pe_last_used := px_unix s\<rparr>"
  have il: "i < length ?es" and live: "i \<notin> set (px_evicted s)" using ok i by (auto simp: pools_ok_def map_ok_def)
  have entries: "pm_entries (px_manager ?t) = ?es[i := ?e]" "pm_pools (px_manager ?t) = ?ps"
    by (simp_all add: put_entry_def)
  have same: "pe_permit_count (?es[i := ?e] ! j) = pe_permit_count (?es ! j)"
      "accounted (?es[i := ?e] ! j) phs = accounted (?es ! j) phs"
      "pe_last_used (?es[i := ?e] ! j) = (if j = i then px_unix s else pe_last_used (?es ! j))" for j phs
    using il by (auto simp: nth_list_update ensure_connection_task_def accounted_def Let_def)
  have "request_ok ?t q" if "q \<in> set (px_requests s)" for q
    using ok that unfolding pools_ok_def request_ok_def list_all_iff entries same by auto
  moreover have "request_ok ?t \<lparr>pq_pool = name, pq_entry = i, pq_since = px_unix s, pq_phase = Start\<rparr>"
    using il live i unfolding request_ok_def entries same by (simp add: prompt_def)
  moreover have "map_ok cfg ?t" using ok unfolding pools_ok_def map_ok_def entries same by simp
  ultimately show ?thesis
    using ok unfolding pools_ok_def entries same by (auto simp: list_all_iff accounted_arrival)
qed

lemma arrive_built_ok:
  assumes ok: "pools_ok cfg s" and pc: "hm_get (cf_pools cfg) name = Some pc"
    and new: "hm_get (pm_pools (px_manager s)) name = None" and e: "pool_build build (px_unix s) pc = Inr e"
  shows "pools_ok cfg (s\<lparr>px_manager := (px_manager s)\<lparr>pm_entries := pm_entries (px_manager s) @ [e],
        pm_pools := hm_insert name (length (pm_entries (px_manager s))) (pm_pools (px_manager s))\<rparr>,
    px_requests := px_requests s @ [\<lparr>pq_pool = name, pq_entry = length (pm_entries (px_manager s)),
        pq_since = px_unix s, pq_phase = Start\<rparr>]\<rparr>)" (is "pools_ok cfg ?t")
proof -
  let ?es = "pm_entries (px_manager s)" and ?ps = "pm_pools (px_manager s)"
  have built: "pe_last_used e = px_unix s" "pe_permit_count e = max_connections pc"
    using e by (auto simp: pool_build_def split: sum.splits)
  have "accounted e []" using accounted_start [OF e] configured_positive [OF _ pc] ok by (simp add: pools_ok_def)
  moreover have idle: "phases_on (length ?es) (px_requests s) = []"
    using ok by (auto simp: pools_ok_def request_ok_def list_all_iff phases_on_def filter_empty_conv)
  ultimately have acc: "\<forall>j < Suc (length ?es). accounted ((?es @ [e]) ! j) (phases_on j (px_requests ?t))"
    using ok accounted_arrival [of e "[]"] by (auto simp: pools_ok_def nth_append less_Suc_eq)
  have "request_ok ?t q" if "q \<in> set (px_requests s)" for q
    using ok that new unfolding pools_ok_def request_ok_def list_all_iff
    by (auto simp: update_conv' nth_append)
  moreover have "length ?es \<notin> set (px_evicted s)" using ok by (auto simp: pools_ok_def map_ok_def)
  moreover from this have "request_ok ?t \<lparr>pq_pool = name, pq_entry = length ?es, pq_since = px_unix s, pq_phase = Start\<rparr>"
    using built by (simp add: request_ok_def prompt_def update_conv')
  moreover have "map_ok cfg ?t"
    using ok pc built \<open>length ?es \<notin> _\<close> unfolding pools_ok_def map_ok_def
    by (auto simp: update_conv' nth_append less_Suc_eq split: if_splits)
  ultimately show ?thesis
    using ok acc unfolding pools_ok_def by (auto simp: list_all_iff simp del: phases_on_append)
qed

lemma arrive_ok:
  assumes "pools_ok cfg s" and "get_or_build build cfg (px_unix s) name (px_manager s) = (Inr i, m)"
  shows "pools_ok cfg (s\<lparr>px_manager := m, px_requests := px_requests s
    @ [\<lparr>pq_pool = name, pq_entry = i, pq_since = px_unix s, pq_phase = Start\<rparr>]\<rparr>)"
  using assms arrive_found_ok [of cfg s name i] arrive_built_ok [of cfg s name _ build]
  by (auto simp: get_or_build_def split: option.splits sum.splits)

interpretation pools_sys: step_system "pools_start cfg" "pools_step build cfg" "pools_ok cfg"
  for cfg and build :: "pool_config \<Rightarrow> string + (nat \<Rightarrow> 'c)"
proof
  fix s t :: "'c pools_sys"
  show "pools_ok cfg s" if "pools_start cfg s"
    using that by (auto simp: pools_start_def pools_ok_def map_ok_def pool_manager_new_def)
  assume "pools_ok cfg s" and "pools_step build cfg s t"
  then show "pools_ok cfg t"
    by (elim pools_stepE) (auto intro: arrive_ok refuse_ok move_ok tick_ok evict_ok spare_ok)
qed

section \<open>Consequences\<close>

definition connections_used :: "string \<Rightarrow> pool_request list \<Rightarrow> nat" where
  "connections_used name qs = length (filter (\<lambda>q. pq_pool q = name \<and> holds_permit (pq_phase q)) qs)"

lemma pools_ok_connections:
  assumes ok: "pools_ok cfg s" and pc: "hm_get (cf_pools cfg) name = Some pc"
  shows "connections_used name (px_requests s) \<le> max_connections pc"
proof (cases "hm_get (pm_pools (px_manager s)) name")
  case None
  then have "connections_used name (px_requests s) = 0"
    using ok by (auto simp: pools_ok_def request_ok_def list_all_iff connections_used_def filter_empty_conv leaving_iff
        split: if_splits)
  then show ?thesis by simp
next
  case (Some i)
  have on: "pq_entry q = i" if "q \<in> set (px_requests s)" "pq_pool q = name" "holds_permit (pq_phase q)" for q
    using ok that Some by (auto simp: pools_ok_def request_ok_def list_all_iff leaving_iff split: if_splits)
  have "connections_used name (px_requests s) \<le> length (filter (\<lambda>q. pq_entry q = i \<and> holds_permit (pq_phase q)) (px_requests s))"
    unfolding connections_used_def length_filter_conv_card by (rule card_mono) (auto intro: on)
  also have "\<dots> = tally holds_permit (phases_on i (px_requests s))"
    by (simp add: tally_def phases_on_def filter_map o_def conj_commute)
  also have "\<dots> \<le> pe_permit_count (pm_entries (px_manager s) ! i)"
    by (rule accounted_permits) (use ok Some in \<open>auto simp: pools_ok_def map_ok_def\<close>)
  also have "\<dots> = max_connections pc"
  proof -
    have "\<exists>pc. hm_get (cf_pools cfg) name = Some pc \<and> pe_permit_count (pm_entries (px_manager s) ! i) = max_connections pc"
      using ok Some unfolding pools_ok_def map_ok_def by blast
    with pc show ?thesis by simp
  qed
  finally show ?thesis .
qed


text \<open>
  A run: a request is dropped while it waits for its permit, the pool stays idle, is evicted, and the next
  request builds it again and gets its connection.
\<close>

datatype pools_event = Arrive string | Move nat nat | Tick nat | Evict nat string

fun pools_do ::
  "(pool_config \<Rightarrow> string + (nat \<Rightarrow> 'c)) \<Rightarrow> config \<Rightarrow> pools_event \<Rightarrow> 'c pools_sys \<Rightarrow> 'c pools_sys option" where
  "pools_do build cfg (Arrive name) s =
     (case get_or_build build cfg (px_unix s) name (px_manager s) of
        (Inl _, m) \<Rightarrow> Some (s\<lparr>px_manager := m\<rparr>)
      | (Inr i, m) \<Rightarrow> Some (s\<lparr>px_manager := m, px_requests := px_requests s
          @ [\<lparr>pq_pool = name, pq_entry = i, pq_since = px_unix s, pq_phase = Start\<rparr>]\<rparr>))"
| "pools_do build cfg (Move r c) s =
     (if r < length (px_requests s)
      then (let q = px_requests s ! r; ms = moves 0 False (pq_phase q) (pm_entries (px_manager s) ! pq_entry q) in
            if c < length ms
            then Some (s\<lparr>px_manager := put_entry (pq_entry q) (snd (ms ! c)) (px_manager s),
                         px_requests := (px_requests s)[r := q\<lparr>pq_phase := fst (ms ! c)\<rparr>]\<rparr>)
            else None)
      else None)"
| "pools_do build cfg (Tick unix_secs) s =
     (if px_unix s \<le> unix_secs \<and> list_all (prompt unix_secs) (px_requests s) then Some (s\<lparr>px_unix := unix_secs\<rparr>) else None)"
| "pools_do build cfg (Evict now name) s =
     (case (hm_get (pm_pools (px_manager s)) name, evict_names now [name] (px_manager s)) of
        (Some i, n, m) \<Rightarrow> if n = 1 \<and> now \<le> px_unix s
          then Some (s\<lparr>px_manager := m, px_evicted := i # px_evicted s\<rparr>) else None
      | (None, _) \<Rightarrow> None)"

lemma pools_event_step:
  assumes "pools_do build cfg ev s = Some t"
  shows "pools_step build cfg s t"
proof (cases ev)
  case (Move r c)
  let ?q = "px_requests s ! r"
  let ?ms = "moves 0 False (pq_phase ?q) (pm_entries (px_manager s) ! pq_entry ?q)"
  from assms Move have c: "r < length (px_requests s)" "c < length ?ms"
      "t = s\<lparr>px_manager := put_entry (pq_entry ?q) (snd (?ms ! c)) (px_manager s),
             px_requests := (px_requests s)[r := ?q\<lparr>pq_phase := fst (?ms ! c)\<rparr>]\<rparr>"
    by (auto simp: Let_def split: if_splits)
  from c(2) have "(fst (?ms ! c), snd (?ms ! c)) \<in> set ?ms" by simp
  from pools_step.move [OF c(1) refl this] show ?thesis by (simp only: c(3))
qed (use assms in \<open>auto intro: pools_step.intros split: prod.splits sum.splits option.splits if_splits\<close>)

fun pools_run ::
  "(pool_config \<Rightarrow> string + (nat \<Rightarrow> 'c)) \<Rightarrow> config \<Rightarrow> pools_event list \<Rightarrow> 'c pools_sys \<Rightarrow> 'c pools_sys option" where
  "pools_run build cfg [] s = Some s"
| "pools_run build cfg (ev # evs) s = Option.bind (pools_do build cfg ev s) (pools_run build cfg evs)"

lemma pools_run_steps: "pools_run build cfg evs s = Some t \<Longrightarrow> (pools_step build cfg)\<^sup>*\<^sup>* s t"
  by (induction evs arbitrary: s)
    (auto dest!: pools_event_step simp: bind_eq_Some_conv intro: converse_rtranclp_into_rtranclp)

definition evicting_cfg :: config where
  "evicting_cfg = \<lparr>cf_server = default_server_config, cf_auth = \<lparr>au_jwt = None, au_static_tokens = []\<rparr>,
     cf_pools = [(''a'', pool_config_new ''redis://h'' 1 1000 1000 (Some 8) None)]\<rparr>"

definition evicting_start :: "unit pools_sys" where
  "evicting_start = \<lparr>px_manager = pool_manager_new, px_requests = [], px_unix = 0, px_evicted = []\<rparr>"

definition evicting_events :: "pools_event list" where
  "evicting_events = [Arrive ''a'', Move 0 0, Move 0 0, Move 0 0, Tick 901, Evict 901 ''a'', Arrive ''a'',
     Move 1 0, Move 1 0, Move 1 1, Move 1 0, Move 1 0]"

lemmas evicting_defs = evicting_cfg_def evicting_start_def evicting_events_def entry_ops get_or_build_def
  pool_build_def pool_manager_new_def pool_config_new_def pool_shutdown_def put_entry_def may_evict_def prompt_def
  IDLE_EVICTION_SECS_def breaker_new_def breaker_admit_def Let_def

lemma evicting_run:
  "\<exists>t. pools_run (\<lambda>_. Inr (\<lambda>_. ())) evicting_cfg evicting_events evicting_start = Some t
     \<and> px_evicted t = [0] \<and> map pq_entry (px_requests t) = [0, 1] \<and> holds_permit (pq_phase (px_requests t ! 1))
     \<and> (\<exists>permit. pq_phase (px_requests t ! 0) = Unwinding permit)"
  by (simp add: evicting_defs)


end
