(* ===== verification/Waiter_Gauge.thy ===== *)
theory Waiter_Gauge
  imports Pool_Interleaving
begin

text \<open>
  The gauge \<open>srh_pool_waiter_depth\<close> of one pool (\<open>PoolMetrics\<close>, \<open>acquire_entry\<close> and \<open>WaiterGuard\<close> of
  \<open>src/adapters/pool_manager.rs\<close>). Joining and leaving the queue are atomic updates of the counter; the gauge is set
  afterwards, from the value the update returned. Between the two any other request may run.

  The counter is exact and bounded and the gauge never shows more than the bound; an update
  that nobody interrupts makes the gauge exact; but the last of two crossing updates to set the gauge
  need not be the last to change the counter.
\<close>

datatype waiter = Arriving | Joined nat | Queued | Left nat | Away

fun waiter_move :: "waiter \<Rightarrow> 'c pool_entry \<times> nat \<Rightarrow> waiter \<times> 'c pool_entry \<times> nat" where
  "waiter_move Arriving (e, depth) =
     (case waiter_enter e of None \<Rightarrow> (Away, e, depth) | Some e1 \<Rightarrow> (Joined (pe_waiters e + 1), e1, depth))"
| "waiter_move (Joined waiter_depth) (e, depth) = (Queued, e, waiter_depth)"
| "waiter_move Queued (e, depth) = (Left (pe_waiters e - 1), waiter_drop e, depth)"
| "waiter_move (Left waiter_depth) (e, depth) = (Away, e, waiter_depth)"
| "waiter_move Away (e, depth) = (Away, e, depth)"

record 'c waiter_sys =
  ws_pool :: "'c pool_entry \<times> nat"
  ws_waiters :: "waiter list"

inductive waiter_step :: "'c waiter_sys \<Rightarrow> 'c waiter_sys \<Rightarrow> bool" where
  arrive: "waiter_step s (s\<lparr>ws_waiters := ws_waiters s @ [Arriving]\<rparr>)"
| move: "r < length (ws_waiters s) \<Longrightarrow> waiter_move (ws_waiters s ! r) (ws_pool s) = (w, p) \<Longrightarrow>
    waiter_step s (s\<lparr>ws_pool := p, ws_waiters := (ws_waiters s)[r := w]\<rparr>)"

text \<open>A pool just built: \<open>PoolMetrics::new\<close> sets the gauge to zero.\<close>

definition waiter_start :: "'c waiter_sys \<Rightarrow> bool" where
  "waiter_start s \<longleftrightarrow> ws_waiters s = [] \<and> snd (ws_pool s) = 0
     \<and> (\<exists>build unix_secs pc. pool_build build unix_secs pc = Inr (fst (ws_pool s)))"

fun counted :: "waiter \<Rightarrow> bool" where
  "counted (Joined _) = True"
| "counted Queued = True"
| "counted _ = False"

fun publishes_at_most :: "nat \<Rightarrow> waiter \<Rightarrow> bool" where
  "publishes_at_most n (Joined d) = (d \<le> n)"
| "publishes_at_most n (Left d) = (d \<le> n)"
| "publishes_at_most n _ = True"

definition waiters_ok :: "'c waiter_sys \<Rightarrow> bool" where
  "waiters_ok s \<longleftrightarrow> (case ws_pool s of (e, depth) \<Rightarrow>
     pe_waiters e = tally counted (ws_waiters s) \<and> pe_waiters e \<le> pe_max_waiters e \<and> depth \<le> pe_max_waiters e
     \<and> list_all (publishes_at_most (pe_max_waiters e)) (ws_waiters s))"

lemma waiter_move_ok:
  assumes "waiter_move w (e, depth) = (w', e', depth')" and "publishes_at_most (pe_max_waiters e) w"
    and "pe_waiters e \<le> pe_max_waiters e" "depth \<le> pe_max_waiters e" and "counted w \<Longrightarrow> 0 < pe_waiters e"
  shows "pe_max_waiters e' = pe_max_waiters e" "publishes_at_most (pe_max_waiters e) w'"
    "pe_waiters e' \<le> pe_max_waiters e" "depth' \<le> pe_max_waiters e"
    "pe_waiters e' + (if counted w then 1 else 0) = pe_waiters e + (if counted w' then 1 else 0)"
  using assms by (cases w; auto simp: waiter_enter_def waiter_drop_def split: if_splits)+

lemma built_queue: "pool_build build unix_secs pc = Inr e \<Longrightarrow> pe_waiters e = 0"
  by (auto simp: pool_build_def split: sum.splits)

interpretation waiters: step_system waiter_start waiter_step waiters_ok
proof
  fix s t :: "'c waiter_sys"
  show "waiters_ok s" if "waiter_start s"
    using that by (auto simp: waiter_start_def waiters_ok_def tally_def dest: built_queue split: prod.splits)
  show "waiters_ok t" if "waiters_ok s" "waiter_step s t"
    using that(2)
  proof cases
    case arrive
    then show ?thesis using that(1) by (auto simp: waiters_ok_def)
  next
    case (move r w p)
    obtain e depth e' depth' where p: "ws_pool s = (e, depth)" "p = (e', depth')" by (metis surj_pair)
    from that(1) p(1) have ok: "pe_waiters e = tally counted (ws_waiters s)" "pe_waiters e \<le> pe_max_waiters e"
        "depth \<le> pe_max_waiters e" "list_all (publishes_at_most (pe_max_waiters e)) (ws_waiters s)"
      by (simp_all add: waiters_ok_def)
    note moved = waiter_move_ok [OF move(3) [unfolded p] _ ok(2,3)]
    have here: "publishes_at_most (pe_max_waiters e) (ws_waiters s ! r)" using ok(4) move(2) by (simp add: list_all_length)
    have pos: "counted (ws_waiters s ! r) \<Longrightarrow> 0 < pe_waiters e" using tally_pos [OF move(2)] ok(1) by simp
    have "list_all (publishes_at_most (pe_max_waiters e)) ((ws_waiters s)[r := w])"
      using ok(4) moved(2) [OF here pos] by (auto simp: list_all_iff dest!: set_update_subset_insert [THEN subsetD])
    then show ?thesis
      using moved [OF here pos] tally_update [OF move(2), of counted w] ok(1) by (simp add: waiters_ok_def move(1) p)
  qed
qed

text \<open>The counter is the number of requests in the queue, and neither it nor the gauge exceeds the bound.\<close>

theorem waiter_depth_bounded:
  assumes "waiter_start s" and "waiter_step\<^sup>*\<^sup>* s t" and "ws_pool t = (e, depth)"
  shows "pe_waiters e = tally counted (ws_waiters t) \<and> pe_waiters e \<le> pe_max_waiters e \<and> depth \<le> pe_max_waiters e"
  using waiters.inv_reachable [OF assms(1,2)] assms(3) by (simp add: waiters_ok_def)

text \<open>An update that no other request interrupts makes the gauge exact, whatever it showed.\<close>

lemma waiter_depth_heals:
  assumes "w = Queued \<or> w = Arriving \<and> pe_waiters e < pe_max_waiters e"
  shows "case waiter_move w (e, depth) of (w1, p1) \<Rightarrow> snd (snd (waiter_move w1 p1)) = pe_waiters (fst (snd (waiter_move w1 p1)))"
  using assms by (auto simp: waiter_enter_def waiter_drop_def)

fun run_waiters :: "nat list \<Rightarrow> 'c waiter_sys \<Rightarrow> 'c waiter_sys" where
  "run_waiters [] s = s"
| "run_waiters (r # rs) s =
     (if r < length (ws_waiters s) then
        (case waiter_move (ws_waiters s ! r) (ws_pool s) of (w, p) \<Rightarrow>
           run_waiters rs (s\<lparr>ws_pool := p, ws_waiters := (ws_waiters s)[r := w]\<rparr>))
      else run_waiters rs s)"

lemma run_waiters_steps: "waiter_step\<^sup>*\<^sup>* s (run_waiters rs s)"
proof (induction rs s rule: run_waiters.induct)
  case (2 r rs s)
  then show ?case
    by (auto intro: converse_rtranclp_into_rtranclp waiter_step.move split: prod.splits)
qed simp

text \<open>
  The gauge can lag for good. Two requests leave the queue; the first takes itself off the counter, then
  the second does and sets the gauge to zero, and then the first sets it to the one waiter it had seen. Nobody waits any
  more, and the gauge shows one waiter until the next request.
\<close>

theorem waiter_depth_lags:
  "\<exists>s t. waiter_start (s :: unit waiter_sys) \<and> waiter_step\<^sup>*\<^sup>* s t \<and> ws_waiters t = [Away, Away]
     \<and> pe_waiters (fst (ws_pool t)) = 0 \<and> snd (ws_pool t) = 1"
proof (intro exI conjI)
  let ?s = "\<lparr>ws_pool = (one_client, 0), ws_waiters = []\<rparr>" and ?s2 = "\<lparr>ws_pool = (one_client, 0), ws_waiters = [Arriving, Arriving]\<rparr>"
  show "waiter_start ?s" using one_client_starts by (auto simp: waiter_start_def pool_start_def)
  have "waiter_step\<^sup>*\<^sup>* ?s ?s2"
    using waiter_step.arrive [of ?s] waiter_step.arrive [of "\<lparr>ws_pool = (one_client, 0), ws_waiters = [Arriving]\<rparr>"]
    by (auto intro: converse_rtranclp_into_rtranclp)
  then show "waiter_step\<^sup>*\<^sup>* ?s (run_waiters [0, 0, 1, 1, 0, 1, 1, 0] ?s2)"
    using run_waiters_steps by (rule rtranclp_trans)
qed (simp_all add: waiter_enter_def waiter_drop_def one_client_def)

end
