(* ===== verification/Pool_Metrics.thy ===== *)
theory Pool_Metrics
  imports Pool_Manager
begin

text \<open>
  What the pool manager tells the metrics recorder (\<open>src/adapters/pool_manager.rs\<close>, \<open>emit_transition\<close> of
  \<open>src/adapters/breaker_executor.rs\<close>): for each operation the counters it increments and the gauges it sets, in order.
  The gauge of used permits, which is incremented and decremented, is a field of the pool entry.

  The counters are exact: a pool that was built and not evicted is there, every refused acquisition is counted
  under one cause, and every series was registered at start. The gauge of the breaker state is not: giving up a
  probe opens the breaker again without a word.
\<close>

section \<open>Recorded metrics\<close>

datatype meter = Counted string string | GaugeSet string string nat

fun meter_series :: "meter \<Rightarrow> string \<times> string" where
  "meter_series (Counted name label) = (name, label)"
| "meter_series (GaugeSet name label _) = (name, label)"

text \<open>\<open>PoolMetrics::new\<close>.\<close>

definition pool_metrics_new :: "string \<Rightarrow> meter list" where
  "pool_metrics_new name =
     [GaugeSet ''srh_pool_active_connections'' name 0, GaugeSet ''srh_pool_permits_in_use'' name 0,
      GaugeSet ''srh_pool_waiter_depth'' name 0]"

definition get_or_build_meters ::
  "(pool_config \<Rightarrow> string + (nat \<Rightarrow> 'c)) \<Rightarrow> config \<Rightarrow> nat \<Rightarrow> string \<Rightarrow> 'c pool_manager \<Rightarrow> meter list" where
  "get_or_build_meters build cfg unix_secs name m =
     (case hm_get (cf_pools cfg) name of
        None \<Rightarrow> []
      | Some pc \<Rightarrow>
          (case hm_get (pm_pools m) name of
             Some i \<Rightarrow> []
           | None \<Rightarrow>
               (case pool_build build unix_secs pc of
                  Inl e \<Rightarrow> []
                | Inr e \<Rightarrow> GaugeSet ''srh_pool_breaker_state'' name 0 # pool_metrics_new name
                    @ [Counted ''srh_pool_builds_total'' name])))"

definition transition_gauge :: "breaker_transition \<Rightarrow> nat" where
  "transition_gauge t = (case t of TrClosed \<Rightarrow> 0 | TrProbeStarted \<Rightarrow> 1 | TrOpened \<Rightarrow> 2)"

definition transition_meters :: "string \<Rightarrow> breaker_transition option \<Rightarrow> meter list" where
  "transition_meters name t =
     (case t of Some tr \<Rightarrow> [GaugeSet ''srh_pool_breaker_state'' name (transition_gauge tr)] | None \<Rightarrow> [])"

text \<open>The waiter leaves the queue after the permit is granted, or after the timeout was counted.\<close>

definition acquire_entry_meters :: "string \<Rightarrow> instant \<Rightarrow> 'c pool_entry \<Rightarrow> meter list" where
  "acquire_entry_meters name now e =
     (case fst (breaker_admit now (pe_breaker e)) of
        Inl _ \<Rightarrow> [Counted ''srh_shed_total'' ''breaker_open'']
      | Inr adm \<Rightarrow>
          transition_meters name (ad_transition adm)
          @ (case waiter_enter (snd (entry_admit now e)) of
               None \<Rightarrow> [Counted ''srh_shed_total'' ''pool_queue_full'']
             | Some e2 \<Rightarrow>
                 GaugeSet ''srh_pool_waiter_depth'' name (pe_waiters e2)
                 # (case permit_take e2 of None \<Rightarrow> [Counted ''srh_shed_total'' ''acquire_timeout''] | Some _ \<Rightarrow> [])
                 @ [GaugeSet ''srh_pool_waiter_depth'' name (pe_waiters e2 - 1)]))"

definition pool_acquire_meters ::
  "(pool_config \<Rightarrow> string + (nat \<Rightarrow> 'c)) \<Rightarrow> config \<Rightarrow> nat \<Rightarrow> instant \<Rightarrow> string \<Rightarrow> 'c pool_manager \<Rightarrow> meter list" where
  "pool_acquire_meters build cfg unix_secs now name m =
     get_or_build_meters build cfg unix_secs name m
     @ (case get_or_build build cfg unix_secs name m of
          (Inl _, _) \<Rightarrow> []
        | (Inr i, m1) \<Rightarrow> acquire_entry_meters name now (pm_entries m1 ! i))"

text \<open>An eviction pass samples the number of open connections of every pool, then evicts it or not.\<close>

fun evict_meters :: "('c pool_entry \<Rightarrow> nat) \<Rightarrow> nat \<Rightarrow> string list \<Rightarrow> 'c pool_manager \<Rightarrow> meter list" where
  "evict_meters active now [] m = []"
| "evict_meters active now (name # names) m =
     (case hm_get (pm_pools m) name of
        Some i \<Rightarrow>
          GaugeSet ''srh_pool_active_connections'' name (active (pm_entries m ! i))
          # (if may_evict now (pm_entries m ! i)
             then Counted ''srh_pool_evictions_total'' name # pool_metrics_new name
                  @ evict_meters active now names
                      (put_entry i ((pool_shutdown (pm_entries m ! i))\<lparr>pe_permits_in_use := 0\<rparr>)
                         (m\<lparr>pm_pools := hm_remove name (pm_pools m)\<rparr>))
             else evict_meters active now names m)
      | None \<Rightarrow> evict_meters active now names m)"

section \<open>Refusals\<close>

definition sheds :: "meter list \<Rightarrow> string list" where
  "sheds ms = List.map_filter (\<lambda>x. case x of Counted name label \<Rightarrow> if name = ''srh_shed_total'' then Some label else None
     | GaugeSet _ _ _ \<Rightarrow> None) ms"

lemma sheds_simps [simp]:
  "sheds [] = []" "sheds (xs @ ys) = sheds xs @ sheds ys"
  "sheds (Counted name label # xs) = (if name = ''srh_shed_total'' then [label] else []) @ sheds xs"
  "sheds (GaugeSet name label v # xs) = sheds xs"
  by (simp_all add: sheds_def map_filter_simps map_filter_def)

lemma sheds_quiet [simp]: "sheds (pool_metrics_new name) = []" "sheds (transition_meters name t) = []"
    "sheds (get_or_build_meters build cfg unix_secs name' m) = []"
  by (simp_all add: pool_metrics_new_def transition_meters_def get_or_build_meters_def split: option.splits sum.splits)

text \<open>Every refusal of a known pool is counted once, under the cause that refused it; nothing else is counted as shed.\<close>

definition refusal_counted :: "acquire_error + 'h \<Rightarrow> string list \<Rightarrow> bool" where
  "refusal_counted r causes \<longleftrightarrow>
     (case r of
        Inl (AcqPoolOpen _) \<Rightarrow> causes = [''breaker_open'']
      | Inl AcqOverloaded \<Rightarrow> causes = [''pool_queue_full''] \<or> causes = [''acquire_timeout'']
      | _ \<Rightarrow> causes = [])"

lemma acquire_entry_counted:
  "refusal_counted (fst (acquire_entry now i e)) (sheds (acquire_entry_meters name now e))"
proof (cases "breaker_admit now (pe_breaker e)")
  case (Pair adm b)
  show ?thesis
  proof (cases adm)
    case (Inl secs)
    with Pair show ?thesis by (simp add: acquire_entry_def acquire_entry_meters_def entry_admit_def refusal_counted_def)
  next
    case (Inr a)
    with Pair obtain e1 where e1: "entry_admit now e = (Inr (ad_permit a), e1)" by (simp add: entry_admit_def Let_def)
    show ?thesis
    proof (cases "waiter_enter e1")
      case None
      with Inr Pair e1 show ?thesis by (simp add: acquire_entry_def acquire_entry_meters_def refusal_counted_def)
    next
      case (Some e2)
      with Inr Pair e1 show ?thesis
        by (cases "permit_take e2") (simp_all add: acquire_entry_def acquire_entry_meters_def refusal_counted_def split: prod.splits)
    qed
  qed
qed

lemma get_or_build_errors:
  "get_or_build build cfg unix_secs name m = (Inl e, m') \<Longrightarrow> refusal_counted (Inl e) []"
  by (auto simp: get_or_build_def pool_build_def refusal_counted_def split: option.splits sum.splits)

lemma pool_acquire_counted:
  "refusal_counted (fst (pool_acquire build cfg unix_secs now name m))
     (sheds (pool_acquire_meters build cfg unix_secs now name m))"
proof (cases "get_or_build build cfg unix_secs name m")
  case (Pair r m1)
  show ?thesis
  proof (cases r)
    case (Inl e)
    with Pair get_or_build_errors show ?thesis by (fastforce simp: pool_acquire_def pool_acquire_meters_def refusal_counted_def)
  next
    case (Inr i)
    with Pair acquire_entry_counted [of now i "pm_entries m1 ! i" name] show ?thesis
      by (simp add: pool_acquire_def pool_acquire_meters_def case_prod_beta)
  qed
qed

section \<open>Builds and evictions\<close>

text \<open>
  The manager with everything recorded so far. A use of a handle may do anything to its executor; it records the transitions the
  executor reports.
\<close>

inductive metered_step ::
  "'c fred_ops \<Rightarrow> (pool_config \<Rightarrow> string + (nat \<Rightarrow> 'c)) \<Rightarrow> config \<Rightarrow> 'c pool_manager \<times> meter list
    \<Rightarrow> 'c pool_manager \<times> meter list \<Rightarrow> bool" for ops build cfg where
  acquired: "pool_acquire build cfg unix_secs now name m = (r, m') \<Longrightarrow>
    metered_step ops build cfg (m, ms) (m', ms @ pool_acquire_meters build cfg unix_secs now name m)"
| used: "hm_get (cf_pools cfg) name = Some pc \<Longrightarrow> use_executor (handle_executor h (pm_entries m ! ph_entry h)) = x \<Longrightarrow>
    metered_step ops build cfg (m, ms)
      (snd (store_executor x h m), ms @ concat (map (\<lambda>t. transition_meters name (Some t)) (rev (be_transitions x))))"
| released: "metered_step ops build cfg (m, ms) (handle_drop h m, ms)"
| probed: "probe_all ops wait (pm_pools m) m = (statuses, m') \<Longrightarrow> metered_step ops build cfg (m, ms) (m', ms)"
| evicted: "evict_idle unix_secs m = (n, m') \<Longrightarrow>
    metered_step ops build cfg (m, ms) (m', ms @ evict_meters active unix_secs (map fst (pm_pools m)) m)"

definition series_known :: "config \<Rightarrow> meter list \<Rightarrow> bool" where
  "series_known cfg ms \<longleftrightarrow> list_all (\<lambda>x. meter_series x \<in> set (register_metrics cfg)) ms"

abbreviation builds :: "string \<Rightarrow> meter list \<Rightarrow> nat" where
  "builds name \<equiv> tally (\<lambda>x. x = Counted ''srh_pool_builds_total'' name)"

abbreviation evictions :: "string \<Rightarrow> meter list \<Rightarrow> nat" where
  "evictions name \<equiv> tally (\<lambda>x. x = Counted ''srh_pool_evictions_total'' name)"

definition counters_ok :: "config \<Rightarrow> 'c pool_manager \<times> meter list \<Rightarrow> bool" where
  "counters_ok cfg x \<longleftrightarrow> (case x of (m, ms) \<Rightarrow>
     hm_wf (pm_pools m) \<and> dom (hm_get (pm_pools m)) \<subseteq> dom (hm_get (cf_pools cfg)) \<and> series_known cfg ms
     \<and> (\<forall>name. builds name ms = evictions name ms + (if hm_get (pm_pools m) name = None then 0 else 1)))"

lemma registered_series:
  assumes "hm_get (cf_pools cfg) name = Some pc" and "s \<in> set pool_series"
  shows "(s, name) \<in> set (register_metrics cfg)"
proof -
  have "(name, pc) \<in> set (cf_pools cfg)" using assms(1) by (rule map_of_SomeD)
  then have "(s, name) \<in> set (concat (map (\<lambda>p. map (\<lambda>name. (name, fst p)) pool_series) (cf_pools cfg)))"
    using assms(2) by force
  then show ?thesis unfolding register_metrics_def set_append by blast
qed

lemmas registered_pool_series = registered_series [unfolded pool_series_def, simplified]

lemma registered_sheds: "cause \<in> set shed_causes \<Longrightarrow> (''srh_shed_total'', cause) \<in> set (register_metrics cfg)"
  by (simp add: register_metrics_def)

text \<open>Meters of an operation that neither builds nor evicts.\<close>

definition steady :: "config \<Rightarrow> meter list \<Rightarrow> bool" where
  "steady cfg ms \<longleftrightarrow> list_all (\<lambda>x. meter_series x \<in> set (register_metrics cfg)
     \<and> (\<forall>l. x \<noteq> Counted ''srh_pool_builds_total'' l \<and> x \<noteq> Counted ''srh_pool_evictions_total'' l)) ms"

lemma steady_simps [simp]:
  "steady cfg []"
  "steady cfg (xs @ ys) \<longleftrightarrow> steady cfg xs \<and> steady cfg ys"
  "steady cfg (GaugeSet s l v # xs) \<longleftrightarrow> (s, l) \<in> set (register_metrics cfg) \<and> steady cfg xs"
  "steady cfg (Counted ''srh_shed_total'' l # xs) \<longleftrightarrow> (''srh_shed_total'', l) \<in> set (register_metrics cfg) \<and> steady cfg xs"
  by (simp_all add: steady_def)

lemma steady_counts: "steady cfg xs \<Longrightarrow> series_known cfg xs \<and> builds name xs = 0 \<and> evictions name xs = 0"
  by (simp add: steady_def series_known_def tally_def list_all_iff)

lemma steady_transition [simp]: "hm_get (cf_pools cfg) name = Some pc \<Longrightarrow> steady cfg (transition_meters name t)"
  by (simp add: transition_meters_def registered_pool_series split: option.splits)

lemma steady_transitions:
  "hm_get (cf_pools cfg) name = Some pc \<Longrightarrow> steady cfg (concat (map (\<lambda>t. transition_meters name (Some t)) ts))"
  by (induction ts) simp_all

lemma steady_acquire: "hm_get (cf_pools cfg) name = Some pc \<Longrightarrow> steady cfg (acquire_entry_meters name now e)"
  by (simp add: acquire_entry_meters_def registered_pool_series registered_sheds shed_causes_def split: sum.splits option.splits)

lemma counters_steady:
  "counters_ok cfg (m, ms) \<Longrightarrow> steady cfg xs \<Longrightarrow> pm_pools m' = pm_pools m \<Longrightarrow> counters_ok cfg (m', ms @ xs)"
  using steady_counts [of cfg xs] by (simp add: counters_ok_def series_known_def tally_app)

lemma counters_built:
  assumes "counters_ok cfg (m, ms)" and "hm_get (cf_pools cfg) name = Some pc" and "hm_get (pm_pools m) name = None"
    and "pm_pools m' = hm_insert name i (pm_pools m)"
  shows "counters_ok cfg (m', ms @ GaugeSet ''srh_pool_breaker_state'' name 0 # pool_metrics_new name @ [Counted ''srh_pool_builds_total'' name])"
  using assms hm.lookup_ins [of "pm_pools m" name i] hm.invar_ins [of "pm_pools m" name i]
  by (auto simp: counters_ok_def series_known_def pool_metrics_new_def tally_app registered_pool_series split: if_splits)

lemma counters_evicted:
  assumes "counters_ok cfg (m, ms)" and "hm_get (pm_pools m) name = Some i" and "pm_pools m' = hm_remove name (pm_pools m)"
  shows "counters_ok cfg (m', ms @ [GaugeSet ''srh_pool_active_connections'' name v, Counted ''srh_pool_evictions_total'' name]
    @ pool_metrics_new name)"
proof -
  obtain pc where "hm_get (cf_pools cfg) name = Some pc" using assms(1,2) by (auto simp: counters_ok_def)
  with assms hm.lookup_rem [of "pm_pools m" name] hm.invar_rem [of "pm_pools m" name] show ?thesis
    by (auto simp: counters_ok_def series_known_def pool_metrics_new_def tally_app registered_pool_series split: if_splits)
qed

lemma counters_evict_names:
  "counters_ok cfg (m, ms) \<Longrightarrow> counters_ok cfg (snd (evict_names now names m), ms @ evict_meters active now names m)"
proof (induction names arbitrary: m ms)
  case (Cons name names)
  show ?case
  proof (cases "hm_get (pm_pools m) name")
    case (Some i)
    then obtain pc where pc: "hm_get (cf_pools cfg) name = Some pc" using Cons.prems by (auto simp: counters_ok_def)
    let ?g = "GaugeSet ''srh_pool_active_connections'' name (active (pm_entries m ! i))"
    let ?m1 = "put_entry i ((pool_shutdown (pm_entries m ! i))\<lparr>pe_permits_in_use := 0\<rparr>) (m\<lparr>pm_pools := hm_remove name (pm_pools m)\<rparr>)"
    have kept: "counters_ok cfg (m, ms @ [?g])"
      by (rule counters_steady [OF Cons.prems]) (use pc in \<open>simp_all add: registered_pool_series\<close>)
    have gone: "counters_ok cfg (?m1, ms @ [?g, Counted ''srh_pool_evictions_total'' name] @ pool_metrics_new name)"
      by (rule counters_evicted [OF Cons.prems Some]) (simp add: put_entry_def)
    show ?thesis using Some Cons.IH [OF kept] Cons.IH [OF gone] by (simp add: case_prod_beta Let_def)
  qed (use Cons in simp)
qed simp

lemma counters_get_or_build:
  assumes "counters_ok cfg (m, ms)"
  shows "counters_ok cfg (snd (get_or_build build cfg unix_secs name m), ms @ get_or_build_meters build cfg unix_secs name m)"
proof (cases "hm_get (cf_pools cfg) name")
  case (Some pc)
  show ?thesis
  proof (cases "hm_get (pm_pools m) name")
    case None
    with Some assms counters_built [OF assms Some None, of "m\<lparr>pm_entries := es, pm_pools := hm_insert name i (pm_pools m)\<rparr>" i for es i]
    show ?thesis by (cases "pool_build build unix_secs pc") (simp_all add: get_or_build_def get_or_build_meters_def)
  next
    case (Some i)
    from counters_steady [OF assms, of "[]" "snd (get_or_build build cfg unix_secs name m)"] Some \<open>hm_get (cf_pools cfg) name = Some pc\<close>
    show ?thesis by (simp add: get_or_build_def get_or_build_meters_def put_entry_def)
  qed
qed (use assms in \<open>simp add: get_or_build_def get_or_build_meters_def\<close>)

lemma counters_acquire:
  assumes "counters_ok cfg (m, ms)"
  shows "counters_ok cfg (snd (pool_acquire build cfg unix_secs now name m), ms @ pool_acquire_meters build cfg unix_secs now name m)"
proof (cases "get_or_build build cfg unix_secs name m")
  case (Pair r m1)
  note built = counters_get_or_build [OF assms, of build unix_secs name, unfolded Pair snd_conv]
  show ?thesis
  proof (cases r)
    case (Inl e)
    with Pair built show ?thesis by (simp add: pool_acquire_def pool_acquire_meters_def)
  next
    case (Inr i)
    then obtain pc where "hm_get (cf_pools cfg) name = Some pc" using Pair by (auto simp: get_or_build_def split: option.splits)
    from counters_steady [OF built steady_acquire [OF this, of now "pm_entries m1 ! i"],
        of "snd (pool_acquire build cfg unix_secs now name m)"] Inr Pair
    show ?thesis
      by (simp add: pool_acquire_def pool_acquire_meters_def put_entry_def case_prod_beta)
  qed
qed

lemma probe_all_pools: "pm_pools (snd (probe_all ops wait ps m)) = pm_pools m"
  by (induction ops wait ps m rule: probe_all.induct) (auto simp: put_entry_def split: prod.splits)

definition metered_start :: "'c pool_manager \<times> meter list \<Rightarrow> bool" where
  "metered_start x \<longleftrightarrow> x = (pool_manager_new, [])"

interpretation metered: step_system metered_start "metered_step ops build cfg" "counters_ok cfg"
  for ops :: "'c fred_ops" and build cfg
proof
  fix x y :: "'c pool_manager \<times> meter list"
  show "counters_ok cfg x" if "metered_start x"
    using that by (simp add: metered_start_def pool_manager_new_def counters_ok_def series_known_def hm_wf_def)
  assume inv: "counters_ok cfg x"
  assume "metered_step ops build cfg x y"
  then show "counters_ok cfg y"
  proof cases
    case (acquired unix_secs now name m r m' ms)
    then show ?thesis using inv counters_acquire by (metis snd_conv)
  next
    case (used name pc use_executor h m e ms)
    then show ?thesis using inv
      by (auto intro!: counters_steady steady_transitions simp: store_executor_def put_entry_def Let_def)
  next
    case (released m ms h)
    then show ?thesis using inv counters_steady [of cfg m ms "[]" "handle_drop h m"] by (simp add: handle_drop_def put_entry_def Let_def)
  next
    case (probed wait m statuses m' ms)
    then show ?thesis using inv counters_steady [of cfg m ms "[]" m'] probe_all_pools by (metis append_Nil2 snd_conv steady_simps(1))
  next
    case (evicted unix_secs m n m' ms active)
    then show ?thesis using inv counters_evict_names by (metis evict_idle_def snd_conv)
  qed
qed


definition metered_cfg :: "config \<Rightarrow> config" where
  "metered_cfg cfg = cfg\<lparr>cf_pools := [(''default'', pool_config_new ''redis://h'' 2 1000 1000 (Some 8) None)]\<rparr>"

definition metered_demo :: "config \<Rightarrow> unit pool_manager \<times> meter list" where
  "metered_demo cfg =
     (let build = (\<lambda>_. Inr (\<lambda>_. ())); m1 = snd (pool_acquire build (metered_cfg cfg) 0 0 ''default'' pool_manager_new) in
      (m1, [] @ pool_acquire_meters build (metered_cfg cfg) 0 0 ''default'' pool_manager_new))"


section \<open>The breaker gauge\<close>

text \<open>
  The breaker of a pool with its gauge: the transitions that \<open>admit\<close> and \<open>record\<close> report are published, here right
  away; giving up a permit reports nothing.
\<close>

definition published :: "breaker_transition option \<Rightarrow> nat \<Rightarrow> nat" where
  "published t gauge = (case t of Some tr \<Rightarrow> transition_gauge tr | None \<Rightarrow> gauge)"

inductive gauge_step :: "breaker \<times> nat \<Rightarrow> breaker \<times> nat \<Rightarrow> bool" where
  admits: "breaker_admit now b = (r, b') \<Longrightarrow>
    gauge_step (b, g) (b', case r of Inr adm \<Rightarrow> published (ad_transition adm) g | Inl _ \<Rightarrow> g)"
| records: "breaker_record now permit failed b = (t, b') \<Longrightarrow> gauge_step (b, g) (b', published t g)"
| cancels: "gauge_step (b, g) (breaker_cancel permit b, g)"

fun state_code :: "breaker_state \<Rightarrow> nat" where
  "state_code Closed = 0"
| "state_code HalfOpen = 1"
| "state_code Open = 2"

definition gauge_ok :: "breaker \<times> nat \<Rightarrow> bool" where
  "gauge_ok x \<longleftrightarrow> snd x = state_code (breaker_state_of (fst x)) \<or> snd x = 1 \<and> breaker_state_of (fst x) = Open"

interpretation breaker_gauge: step_system "\<lambda>x. \<exists>threshold cool. x = (breaker_new threshold cool, 0)" gauge_step gauge_ok
proof
  show "gauge_ok x" if "\<exists>threshold cool. x = (breaker_new threshold cool, 0)" for x
    using that by (auto simp: gauge_ok_def breaker_new_def)
  show "gauge_ok y" if "gauge_ok x" "gauge_step x y" for x y
    using that(2,1)
    by cases (auto simp: gauge_ok_def published_def transition_gauge_def breaker_ops
        split: breaker_state.splits if_splits option.splits)
qed

text \<open>
  The gauge of the breaker state is right, but for one case: it still shows a probe when the breaker is open again
  because the probe was given up. That case is reachable.
\<close>

theorem breaker_gauge_misses_cancelled_probe:
  "(\<forall>threshold cool b g. gauge_step\<^sup>*\<^sup>* (breaker_new threshold cool, 0) (b, g) \<longrightarrow>
      g = state_code (breaker_state_of b) \<or> g = 1 \<and> breaker_state_of b = Open)
   \<and> (\<exists>b. gauge_step\<^sup>*\<^sup>* (breaker_new 1 0, 0) (b, 1) \<and> breaker_state_of b = Open)"
proof
  show "\<forall>threshold cool b g. gauge_step\<^sup>*\<^sup>* (breaker_new threshold cool, 0) (b, g) \<longrightarrow>
      g = state_code (breaker_state_of b) \<or> g = 1 \<and> breaker_state_of b = Open"
    using breaker_gauge.inv_reachable by (fastforce simp: gauge_ok_def)
  let ?p = "\<lparr>pm_generation = 0, pm_probe = False\<rparr>" and ?q = "\<lparr>pm_generation = 2, pm_probe = True\<rparr>"
  define b0 where "b0 = breaker_new 1 0"
  define b1 where "b1 = snd (breaker_record 0 ?p True b0)"
  define b2 where "b2 = snd (breaker_admit 0 b1)"
  have opened: "breaker_record 0 ?p True b0 = (Some TrOpened, b1)"
    by (simp add: b1_def b0_def breaker_ops breaker_new_def)
  have probed: "breaker_admit 0 b1 = (Inr \<lparr>ad_permit = ?q, ad_transition = Some TrProbeStarted\<rparr>, b2)"
    by (simp add: b2_def b1_def b0_def breaker_ops breaker_new_def)
  have "gauge_step\<^sup>*\<^sup>* (b0, 0) (breaker_cancel ?q b2, 1)"
    using gauge_step.records [OF opened, of 0] gauge_step.admits [OF probed, of 2] gauge_step.cancels [of b2 1 ?q]
    by (auto simp: published_def transition_gauge_def intro: converse_rtranclp_into_rtranclp)
  moreover have "breaker_state_of (breaker_cancel ?q b2) = Open"
    by (simp add: b2_def b1_def b0_def breaker_ops breaker_new_def)
  ultimately show "\<exists>b. gauge_step\<^sup>*\<^sup>* (breaker_new 1 0, 0) (b, 1) \<and> breaker_state_of b = Open" unfolding b0_def by blast
qed

end
