(* ===== verification/Introspection_Cache.thy ===== *)
theory Introspection_Cache
  imports Domain "HOL-Library.List_Lexorder" "HOL-Library.Char_ord" "HOL-Library.Product_Lexorder"
begin

text \<open>
  The cache of introspection results of \<open>src/adapters/jwt_auth.rs\<close>: a hash map by token digest and
  a \<open>BTreeSet\<close> by last use, in which the least recently used entry comes first. Each operation
  runs under the mutex of the entries and reads the clock once; the reading is an argument. A
  \<open>BTreeSet\<close> is a \<open>BTreeMap\<close> to unit.

  \<open>cache_step\<close> runs the operations in any order while the clock advances, and remembers for every
  token the last result that was put in. The property: the cache never answers with anything but
  that result, and only while it is younger than the configured lifetime.
\<close>

section \<open>Operations\<close>

definition MAX_INTROSPECTION_ENTRIES :: nat where
  "MAX_INTROSPECTION_ENTRIES = 100000"

record cache_entry =
  ce_active :: bool
  ce_expires_at :: instant
  ce_last_access :: instant
  ce_order :: u64

record introspection_cache =
  ic_ttl_secs :: nat
  ic_max_entries :: nat
  ic_entries :: "(bytes, cache_entry) hash_map"
  ic_lru :: "(instant \<times> u64 \<times> bytes, unit) btree_map"
  ic_next_order :: u64

definition cache_new :: "nat \<Rightarrow> introspection_cache" where
  "cache_new ttl_secs =
     \<lparr>ic_ttl_secs = ttl_secs, ic_max_entries = MAX_INTROSPECTION_ENTRIES, ic_entries = [], ic_lru = [], ic_next_order = 0\<rparr>"

definition lru_key :: "bytes \<Rightarrow> cache_entry \<Rightarrow> instant \<times> u64 \<times> bytes" where
  "lru_key digest e = (ce_last_access e, ce_order e, digest)"

definition cache_get :: "instant \<Rightarrow> bytes \<Rightarrow> introspection_cache \<Rightarrow> bool option \<times> introspection_cache" where
  "cache_get now digest c =
     (case hm_get (ic_entries c) digest of
        None \<Rightarrow> (None, c)
      | Some e \<Rightarrow>
          (let c1 = c\<lparr>ic_entries := hm_remove digest (ic_entries c), ic_lru := bt_remove (lru_key digest e) (ic_lru c)\<rparr> in
           if ce_expires_at e \<le> now then (None, c1)
           else
            (let e1 = e\<lparr>ce_last_access := now, ce_order := ic_next_order c1\<rparr> in
             (Some (ce_active e1),
              c1\<lparr>ic_next_order := ic_next_order c1 + 1,
                 ic_lru := bt_insert (lru_key digest e1) () (ic_lru c1),
                 ic_entries := hm_insert digest e1 (ic_entries c1)\<rparr>))))"

definition cache_make_room :: "bytes \<Rightarrow> introspection_cache \<Rightarrow> introspection_cache" where
  "cache_make_room digest c =
     (case hm_get (ic_entries c) digest of
        Some previous \<Rightarrow>
          c\<lparr>ic_entries := hm_remove digest (ic_entries c), ic_lru := bt_remove (lru_key digest previous) (ic_lru c)\<rparr>
      | None \<Rightarrow>
          if ic_max_entries c \<le> length (ic_entries c)
          then (case bt_pop_first (ic_lru c) of
                  (Some ((_, _, oldest), _), lru) \<Rightarrow>
                    c\<lparr>ic_entries := hm_remove oldest (ic_entries c), ic_lru := lru\<rparr>
                | (None, lru) \<Rightarrow> c)
          else c)"

definition cache_insert :: "instant \<Rightarrow> bytes \<Rightarrow> bool \<Rightarrow> introspection_cache \<Rightarrow> introspection_cache" where
  "cache_insert now digest active c =
     (let c1 = cache_make_room digest c;
          e = \<lparr>ce_active = active, ce_expires_at = now + from_secs (ic_ttl_secs c1), ce_last_access = now,
               ce_order = ic_next_order c1\<rparr> in
      c1\<lparr>ic_next_order := ic_next_order c1 + 1,
         ic_lru := bt_insert (lru_key digest e) () (ic_lru c1),
         ic_entries := hm_insert digest e (ic_entries c1)\<rparr>)"

definition cache_forget :: "bytes \<Rightarrow> introspection_cache \<Rightarrow> introspection_cache" where
  "cache_forget digest c =
     (case hm_get (ic_entries c) digest of
        Some e \<Rightarrow> c\<lparr>ic_entries := hm_remove digest (ic_entries c), ic_lru := bt_remove (lru_key digest e) (ic_lru c)\<rparr>
      | None \<Rightarrow> c)"

definition cache_sweep :: "instant \<Rightarrow> introspection_cache \<Rightarrow> nat \<times> introspection_cache" where
  "cache_sweep now c =
     (let expired = map fst (filter (\<lambda>(_, e). ce_expires_at e \<le> now) (ic_entries c)) in
      (length expired, fold cache_forget expired c))"

section \<open>The index\<close>

definition cache_ok :: "introspection_cache \<Rightarrow> bool" where
  "cache_ok c \<longleftrightarrow>
     hm_wf (ic_entries c) \<and> bt_wf (ic_lru c)
     \<and> (\<forall>t n d. map_of (ic_lru c) (t, n, d) \<noteq> None
          \<longleftrightarrow> (\<exists>e. hm_get (ic_entries c) d = Some e \<and> ce_last_access e = t \<and> ce_order e = n))"

lemma cache_ok_forget:
  assumes "cache_ok c" and "hm_get (ic_entries c) d = Some e"
  shows "cache_ok (c\<lparr>ic_entries := hm_remove d (ic_entries c), ic_lru := bt_remove (lru_key d e) (ic_lru c)\<rparr>)"
  using assms
  by (auto simp: cache_ok_def lru_key_def delete_conv' map_of_bt_remove bt_wf_remove hm_wf_def distinct_delete
      simp del: map_of_eq_Some_iff)

lemma cache_ok_put:
  assumes "cache_ok c" and "hm_get (ic_entries c) d = None"
  shows "cache_ok (c\<lparr>ic_next_order := n, ic_lru := bt_insert (lru_key d e) () (ic_lru c),
    ic_entries := hm_insert d e (ic_entries c)\<rparr>)"
  using assms
  by (auto simp: cache_ok_def lru_key_def update_conv' map_of_bt_insert bt_wf_insert hm_wf_def distinct_update)

lemma cache_make_room_ok:
  assumes "cache_ok c"
  shows "cache_ok (cache_make_room d c)" and "hm_get (ic_entries (cache_make_room d c)) d = None"
    and "\<And>d' e. hm_get (ic_entries (cache_make_room d c)) d' = Some e \<Longrightarrow> hm_get (ic_entries c) d' = Some e"
proof -
  have "cache_ok (cache_make_room d c) \<and> hm_get (ic_entries (cache_make_room d c)) d = None
      \<and> (\<forall>d' e. hm_get (ic_entries (cache_make_room d c)) d' = Some e \<longrightarrow> hm_get (ic_entries c) d' = Some e)"
  proof (cases "hm_get (ic_entries c) d")
    case (Some e)
    with cache_ok_forget [OF assms Some] show ?thesis
      by (auto simp: cache_make_room_def delete_conv' split: if_splits)
  next
    case None
    show ?thesis
    proof (cases "ic_lru c")
      case Nil
      with None assms show ?thesis by (simp add: cache_make_room_def)
    next
      case (Cons kv lru)
      obtain t n oldest where kv: "kv = ((t, n, oldest), ())" by (cases kv) auto
      have "map_of (ic_lru c) (t, n, oldest) \<noteq> None" using Cons kv by simp
      with assms have "\<exists>e. hm_get (ic_entries c) oldest = Some e \<and> ce_last_access e = t \<and> ce_order e = n"
        unfolding cache_ok_def by blast
      then obtain e where e: "hm_get (ic_entries c) oldest = Some e" "lru_key oldest e = (t, n, oldest)"
        by (auto simp: lru_key_def)
      have "lru = bt_remove (lru_key oldest e) (ic_lru c)"
        using bt_remove_first [of "(t, n, oldest)" "()" lru] assms Cons kv e(2) by (simp add: cache_ok_def)
      then have room: "cache_make_room d c = (if ic_max_entries c \<le> length (ic_entries c)
          then c\<lparr>ic_entries := hm_remove oldest (ic_entries c), ic_lru := bt_remove (lru_key oldest e) (ic_lru c)\<rparr> else c)"
        using None Cons kv by (simp add: cache_make_room_def)
      show ?thesis
        using cache_ok_forget [OF assms e(1)] None assms
        unfolding room by (auto simp: delete_conv' split: if_splits)
    qed
  qed
  then show "cache_ok (cache_make_room d c)" and "hm_get (ic_entries (cache_make_room d c)) d = None"
    and "\<And>d' e. hm_get (ic_entries (cache_make_room d c)) d' = Some e \<Longrightarrow> hm_get (ic_entries c) d' = Some e"
    by blast+
qed

section \<open>Histories\<close>

text \<open>The cache with the clock and, for every digest, the last result put in and when.\<close>

record cache_sys =
  cs_cache :: introspection_cache
  cs_now :: instant
  cs_latest :: "bytes \<Rightarrow> (bool \<times> instant) option"

inductive cache_step :: "cache_sys \<Rightarrow> cache_sys \<Rightarrow> bool" where
  tick: "cs_now s \<le> now \<Longrightarrow> cache_step s (s\<lparr>cs_now := now\<rparr>)"
| got: "cache_get (cs_now s) d (cs_cache s) = (r, c) \<Longrightarrow> cache_step s (s\<lparr>cs_cache := c\<rparr>)"
| put: "cache_step s (s\<lparr>cs_cache := cache_insert (cs_now s) d active (cs_cache s),
                       cs_latest := (cs_latest s)(d \<mapsto> (active, cs_now s))\<rparr>)"
| swept: "cache_sweep (cs_now s) (cs_cache s) = (n, c) \<Longrightarrow> cache_step s (s\<lparr>cs_cache := c\<rparr>)"

definition cache_start :: "nat \<Rightarrow> cache_sys \<Rightarrow> bool" where
  "cache_start ttl s \<longleftrightarrow> cs_cache s = cache_new ttl \<and> cs_latest s = Map.empty"

text \<open>Every retained entry is the last result put in for its digest, with the lifetime counted from then.\<close>

definition cache_inv :: "nat \<Rightarrow> cache_sys \<Rightarrow> bool" where
  "cache_inv ttl s \<longleftrightarrow>
     cache_ok (cs_cache s) \<and> ic_ttl_secs (cs_cache s) = ttl
     \<and> ic_max_entries (cs_cache s) = MAX_INTROSPECTION_ENTRIES
     \<and> length (ic_entries (cs_cache s)) \<le> MAX_INTROSPECTION_ENTRIES
     \<and> (\<forall>d e. hm_get (ic_entries (cs_cache s)) d = Some e \<longrightarrow>
          (\<exists>t \<le> cs_now s. cs_latest s d = Some (ce_active e, t) \<and> ce_expires_at e = t + from_secs ttl))"

lemma cache_make_room_victim:
  assumes "cache_ok c" and "length (ic_entries c) = ic_max_entries c" and "0 < ic_max_entries c"
  shows "\<exists>d' \<in> dom (hm_get (ic_entries c)). d' \<notin> dom (hm_get (ic_entries (cache_make_room d c)))"
proof (cases "hm_get (ic_entries c) d")
  case (Some e)
  then show ?thesis using cache_make_room_ok(2) [OF assms(1), of d] by (intro bexI [of _ d]) auto
next
  case None
  have "dom (hm_get (ic_entries c)) \<noteq> {}" using assms by (auto simp: cache_ok_def length_hm_card)
  then obtain d0 e0 where "hm_get (ic_entries c) d0 = Some e0" by (auto simp: dom_def)
  then have "map_of (ic_lru c) (ce_last_access e0, ce_order e0, d0) \<noteq> None"
    using assms(1) unfolding cache_ok_def by blast
  then have "ic_lru c \<noteq> []" by auto
  then obtain t n oldest lru where lru: "ic_lru c = ((t, n, oldest), ()) # lru" by (cases "ic_lru c") auto
  have "\<exists>e. hm_get (ic_entries c) oldest = Some e"
    using assms(1) lru unfolding cache_ok_def by (metis map_of_Cons_code(2) option.distinct(1) fst_conv)
  then have "oldest \<in> dom (hm_get (ic_entries c))" by blast
  moreover have "hm_get (ic_entries (cache_make_room d c)) oldest = None"
    using None lru assms(2) by (simp add: cache_make_room_def delete_conv')
  ultimately show ?thesis by (intro bexI [of _ oldest]) auto
qed

lemma cache_room:
  assumes "cache_ok c" "length (ic_entries c) \<le> ic_max_entries c" "0 < ic_max_entries c"
  shows "length (ic_entries (cache_make_room d c)) < ic_max_entries c"
    and "ic_max_entries (cache_make_room d c) = ic_max_entries c" "ic_ttl_secs (cache_make_room d c) = ic_ttl_secs c"
proof -
  let ?old = "dom (hm_get (ic_entries c))" and ?new = "dom (hm_get (ic_entries (cache_make_room d c)))"
  have sub: "?new \<subseteq> ?old" using cache_make_room_ok(3) [OF assms(1)] by (auto simp: dom_def)
  have len: "length (ic_entries c) = card ?old" "length (ic_entries (cache_make_room d c)) = card ?new"
    using assms(1) cache_make_room_ok(1) [OF assms(1), of d] by (simp_all add: cache_ok_def length_hm_card)
  show "length (ic_entries (cache_make_room d c)) < ic_max_entries c"
  proof (cases "length (ic_entries c) = ic_max_entries c")
    case True
    with sub cache_make_room_victim [OF assms(1) _ assms(3), of d] have "?new \<subset> ?old" by blast
    from psubset_card_mono [OF finite_dom_map_of this] True len show ?thesis by simp
  next
    case False
    with assms(2) len card_mono [OF finite_dom_map_of sub] show ?thesis by simp
  qed
  show "ic_max_entries (cache_make_room d c) = ic_max_entries c" "ic_ttl_secs (cache_make_room d c) = ic_ttl_secs c"
    by (auto simp: cache_make_room_def split: option.splits prod.splits)
qed

lemma cache_forget_keeps:
  assumes "cache_ok c"
  shows "cache_ok (cache_forget d c)" "ic_ttl_secs (cache_forget d c) = ic_ttl_secs c"
    "ic_max_entries (cache_forget d c) = ic_max_entries c"
    "hm_get (ic_entries (cache_forget d c)) = (hm_get (ic_entries c))(d := None)"
  using assms cache_ok_forget [OF assms]
  by (auto simp: cache_forget_def delete_conv' fun_eq_iff split: option.splits)

lemma cache_sweep_keeps:
  assumes "cache_ok c"
  shows "cache_ok (fold cache_forget ds c) \<and> ic_ttl_secs (fold cache_forget ds c) = ic_ttl_secs c
    \<and> ic_max_entries (fold cache_forget ds c) = ic_max_entries c
    \<and> hm_get (ic_entries (fold cache_forget ds c)) = (\<lambda>d. if d \<in> set ds then None else hm_get (ic_entries c) d)"
  using assms
proof (induction ds arbitrary: c)
  case (Cons d ds)
  from Cons.IH [OF cache_forget_keeps(1) [OF Cons.prems, of d]] cache_forget_keeps [OF Cons.prems, of d]
  show ?case by (auto simp: fun_eq_iff)
qed auto

lemma hm_length_mono:
  "hm_wf m \<Longrightarrow> hm_wf m' \<Longrightarrow> dom (hm_get m) \<subseteq> dom (hm_get m') \<Longrightarrow> length m \<le> length m'"
  by (simp add: length_hm_card card_mono finite_dom_map_of)

lemma hm_length_insert: "length (hm_insert k v m) \<le> Suc (length m)"
  by (induction m) auto

text \<open>An operation that only drops entries or refreshes their use keeps the invariant.\<close>

lemma cache_inv_shrink:
  assumes "cache_inv ttl s" and "cache_ok c" and "ic_ttl_secs c = ic_ttl_secs (cs_cache s)"
    and "ic_max_entries c = ic_max_entries (cs_cache s)"
    and "\<And>d e. hm_get (ic_entries c) d = Some e \<Longrightarrow>
      \<exists>e'. hm_get (ic_entries (cs_cache s)) d = Some e' \<and> ce_active e = ce_active e' \<and> ce_expires_at e = ce_expires_at e'"
  shows "cache_inv ttl (s\<lparr>cs_cache := c\<rparr>)"
proof -
  have "length (ic_entries c) \<le> length (ic_entries (cs_cache s))"
  proof (rule hm_length_mono)
    show "dom (hm_get (ic_entries c)) \<subseteq> dom (hm_get (ic_entries (cs_cache s)))"
      using assms(5) by (auto simp: dom_def)
  qed (use assms in \<open>simp_all add: cache_inv_def cache_ok_def\<close>)
  moreover have "\<exists>t \<le> cs_now s. cs_latest s d = Some (ce_active e, t) \<and> ce_expires_at e = t + from_secs ttl"
    if e: "hm_get (ic_entries c) d = Some e" for d e
  proof -
    obtain e' where "hm_get (ic_entries (cs_cache s)) d = Some e'" "ce_active e = ce_active e'"
        "ce_expires_at e = ce_expires_at e'"
      using assms(5) [OF e] by blast
    with assms(1) show ?thesis by (auto simp: cache_inv_def)
  qed
  ultimately show ?thesis
    using assms(1-4) by (simp add: cache_inv_def)
qed

lemma cache_get_ok:
  assumes "cache_ok c" and "cache_get now d c = (r, c')"
  shows "cache_ok c' \<and> ic_ttl_secs c' = ic_ttl_secs c \<and> ic_max_entries c' = ic_max_entries c
    \<and> (\<forall>d' e. hm_get (ic_entries c') d' = Some e \<longrightarrow>
        (\<exists>e'. hm_get (ic_entries c) d' = Some e' \<and> ce_active e = ce_active e' \<and> ce_expires_at e = ce_expires_at e'))
    \<and> (\<forall>a. r = Some a \<longrightarrow> (\<exists>e. hm_get (ic_entries c) d = Some e \<and> ce_active e = a \<and> now < ce_expires_at e))"
proof (cases "hm_get (ic_entries c) d")
  case None
  with assms show ?thesis by (auto simp: cache_get_def)
next
  case (Some e)
  let ?c1 = "c\<lparr>ic_entries := hm_remove d (ic_entries c), ic_lru := bt_remove (lru_key d e) (ic_lru c)\<rparr>"
  have ok1: "cache_ok ?c1" by (rule cache_ok_forget [OF assms(1) Some])
  have none: "hm_get (ic_entries ?c1) d = None" by (simp add: delete_conv')
  note ok2 = cache_ok_put [OF ok1 none, where n = "ic_next_order c + 1"
      and e = "e\<lparr>ce_last_access := now, ce_order := ic_next_order c\<rparr>"]
  show ?thesis
  proof (cases "ce_expires_at e \<le> now")
    case True
    then show ?thesis using assms(2) Some ok1 by (auto simp: cache_get_def Let_def delete_conv' split: if_splits)
  next
    case False
    then show ?thesis using assms(2) Some ok2
      by (auto simp: cache_get_def Let_def delete_conv' update_conv' split: if_splits)
  qed
qed

lemma cache_insert_ok:
  assumes "cache_ok c" "length (ic_entries c) \<le> ic_max_entries c" "0 < ic_max_entries c"
  shows "cache_ok (cache_insert now d active c)" "ic_ttl_secs (cache_insert now d active c) = ic_ttl_secs c"
    and "ic_max_entries (cache_insert now d active c) = ic_max_entries c"
    and "length (ic_entries (cache_insert now d active c)) \<le> ic_max_entries c"
    and "hm_get (ic_entries (cache_insert now d active c)) d' = Some e \<Longrightarrow>
      d' = d \<and> ce_active e = active \<and> ce_expires_at e = now + from_secs (ic_ttl_secs c) \<or> d' \<noteq> d \<and> hm_get (ic_entries c) d' = Some e"
proof -
  let ?c1 = "cache_make_room d c"
  note room = cache_room [OF assms, of d] and ok1 = cache_make_room_ok [OF assms(1), of d]
  let ?e = "\<lparr>ce_active = active, ce_expires_at = now + from_secs (ic_ttl_secs ?c1), ce_last_access = now,
    ce_order = ic_next_order ?c1\<rparr>"
  have ins: "cache_insert now d active c = ?c1\<lparr>ic_next_order := ic_next_order ?c1 + 1,
      ic_lru := bt_insert (lru_key d ?e) () (ic_lru ?c1), ic_entries := hm_insert d ?e (ic_entries ?c1)\<rparr>"
    by (simp add: cache_insert_def Let_def)
  show "cache_ok (cache_insert now d active c)" unfolding ins by (rule cache_ok_put [OF ok1(1,2)])
  show "ic_ttl_secs (cache_insert now d active c) = ic_ttl_secs c" "ic_max_entries (cache_insert now d active c) = ic_max_entries c"
    by (simp_all add: ins room)
  show "length (ic_entries (cache_insert now d active c)) \<le> ic_max_entries c"
    using room(1) hm_length_insert [of d ?e "ic_entries ?c1"] by (simp add: ins)
  show "d' = d \<and> ce_active e = active \<and> ce_expires_at e = now + from_secs (ic_ttl_secs c) \<or> d' \<noteq> d \<and> hm_get (ic_entries c) d' = Some e"
    if "hm_get (ic_entries (cache_insert now d active c)) d' = Some e"
    using that ok1(3) room by (auto simp: ins update_conv' split: if_splits)
qed

lemma cache_inv_put:
  assumes "cache_inv ttl s"
  shows "cache_inv ttl (s\<lparr>cs_cache := cache_insert (cs_now s) d active (cs_cache s),
    cs_latest := (cs_latest s)(d \<mapsto> (active, cs_now s))\<rparr>)"
proof -
  have "cache_ok (cs_cache s)" "length (ic_entries (cs_cache s)) \<le> ic_max_entries (cs_cache s)" "0 < ic_max_entries (cs_cache s)"
    using assms by (auto simp: cache_inv_def MAX_INTROSPECTION_ENTRIES_def)
  note ok = cache_insert_ok [OF this, of "cs_now s" d active]
  show ?thesis using assms ok(1-4) unfolding cache_inv_def by (auto dest: ok(5))
qed

interpretation cache: step_system "cache_start ttl" cache_step "cache_inv ttl" for ttl
proof
  fix s t :: cache_sys
  show "cache_inv ttl s" if "cache_start ttl s"
    using that by (simp add: cache_start_def cache_inv_def cache_new_def cache_ok_def hm_wf_def bt_wf_def)
  assume inv: "cache_inv ttl s"
  assume "cache_step s t"
  then show "cache_inv ttl t"
  proof cases
    case (tick now)
    with inv show ?thesis unfolding cache_inv_def by (fastforce intro: le_trans)
  next
    case (got d r c)
    have "cache_ok (cs_cache s)" using inv by (simp add: cache_inv_def)
    note ok = cache_get_ok [OF this got(2)]
    show ?thesis unfolding got(1) by (rule cache_inv_shrink [OF inv]) (use ok in blast)+
  next
    case (put d active)
    with cache_inv_put [OF inv] show ?thesis by simp
  next
    case (swept n c)
    have ok: "cache_ok (cs_cache s)" using inv by (simp add: cache_inv_def)
    from swept inv cache_sweep_keeps [OF ok] show ?thesis
      by (auto intro!: cache_inv_shrink simp: cache_sweep_def Let_def split: if_splits)
  qed
qed

text \<open>
  C9. The introspection cache forgets, but it does not lie. Over any sequence of lookups, insertions and
  sweeps while time advances: a lookup that answers, answers what was recorded last for this
  token, less than the configured lifetime ago; looking a result up does not prolong its life; and the cache
  never holds more than 100000 entries.
\<close>

theorem introspection_cache_sound:
  assumes "cache_start ttl s" and "cache_step\<^sup>*\<^sup>* s t" and "cache_get (cs_now t) d (cs_cache t) = (r, c)"
  shows "(\<forall>active. r = Some active \<longrightarrow>
      (\<exists>put_at \<le> cs_now t. cs_latest t d = Some (active, put_at) \<and> cs_now t < put_at + from_secs ttl))
    \<and> length (ic_entries (cs_cache t)) \<le> 100000"
proof -
  note inv = cache.inv_reachable [OF assms(1,2)]
  have "cache_ok (cs_cache t)" using inv by (simp add: cache_inv_def)
  note ok = cache_get_ok [OF this assms(3)]
  have "\<exists>put_at \<le> cs_now t. cs_latest t d = Some (active, put_at) \<and> cs_now t < put_at + from_secs ttl"
    if "r = Some active" for active
  proof -
    from ok that obtain e where e: "hm_get (ic_entries (cs_cache t)) d = Some e" "ce_active e = active"
        "cs_now t < ce_expires_at e" by blast
    from inv e(1) obtain put_at where "put_at \<le> cs_now t" "cs_latest t d = Some (ce_active e, put_at)"
        "ce_expires_at e = put_at + from_secs ttl"
      unfolding cache_inv_def by blast
    with e(2,3) show ?thesis by auto
  qed
  moreover have "length (ic_entries (cs_cache t)) \<le> 100000"
    using inv by (simp add: cache_inv_def MAX_INTROSPECTION_ENTRIES_def)
  ultimately show ?thesis by blast
qed

definition demo_cache :: cache_sys where
  "demo_cache = \<lparr>cs_cache = cache_insert 0 ''d'' True (cache_new 60), cs_now = 0, cs_latest = [''d'' \<mapsto> (True, 0)]\<rparr>"

theorem introspection_cache_sound_witness:
  "\<exists>c. cache_get 0 ''d'' (cs_cache demo_cache) = (Some True, c)
     \<and> (\<exists>put_at \<le> 0. cs_latest demo_cache ''d'' = Some (True, put_at) \<and> 0 < put_at + from_secs 60)"
proof -
  let ?s = "\<lparr>cs_cache = cache_new 60, cs_now = 0, cs_latest = Map.empty\<rparr>"
  have start: "cache_start 60 ?s" by (simp add: cache_start_def)
  have steps: "cache_step\<^sup>*\<^sup>* ?s demo_cache"
    using cache_step.put [of ?s "''d''" True] by (auto simp: demo_cache_def)
  obtain c where c: "cache_get (cs_now demo_cache) ''d'' (cs_cache demo_cache) = (Some True, c)"
    by (simp add: demo_cache_def cache_get_def cache_insert_def cache_make_room_def cache_new_def
        MAX_INTROSPECTION_ENTRIES_def from_secs_def Let_def)
  from introspection_cache_sound [OF start steps c] c show ?thesis
    by (auto simp: demo_cache_def)
qed

end
