(* ===== verification/Jwt_Auth.thy ===== *)
theory Jwt_Auth
  imports Introspection_Cache Auth "HOL-Library.Stream"
begin

text \<open>
  JWT authentication of \<open>src/adapters/jwt_auth.rs\<close>. The token library (\<open>jsonwebtoken\<close>), base64,
  JSON and SHA-256 are the parameter record \<open>jwt_lib\<close>; the key source and the introspector are
  ports, functions on their own state. Of the library the model fixes what the code asks it to
  check: the record \<open>validation\<close> it is called with. The clock of the cache is the stream of its
  readings.
\<close>

section \<open>Claims\<close>

datatype audience = OneAudience string | ManyAudiences "string list" | MissingAudience

fun audience_contains :: "string \<Rightarrow> audience \<Rightarrow> bool" where
  "audience_contains expected (OneAudience v) \<longleftrightarrow> v = expected"
| "audience_contains expected (ManyAudiences vs) \<longleftrightarrow> expected \<in> set vs"
| "audience_contains expected MissingAudience \<longleftrightarrow> False"

record claims =
  cl_sub :: string
  cl_aud :: audience
  cl_azp :: "string option"
  cl_typ :: string
  cl_resource_access :: "(string, string list) hash_map"
  cl_srh_pool :: "string option"
  cl_srh_blocked_commands :: "string list"
  cl_srh_key_prefix :: "string option"

section \<open>The authenticator\<close>

definition CLOCK_SKEW_SECS :: nat where
  "CLOCK_SKEW_SECS = 30"

datatype token_algorithm = RS256 | RS384 | RS512 | ES256 | ES384

fun algorithm :: "jwt_algorithm \<Rightarrow> token_algorithm" where
  "algorithm Rs256 = RS256"
| "algorithm Rs384 = RS384"
| "algorithm Rs512 = RS512"
| "algorithm Es256 = ES256"
| "algorithm Es384 = ES384"

text \<open>The settings of \<open>jsonwebtoken::Validation\<close> that the code makes.\<close>

record validation =
  va_algorithm :: token_algorithm
  va_leeway :: nat
  va_validate_nbf :: bool
  va_validate_aud :: bool
  va_issuers :: "string list"
  va_required_claims :: "string list"

record 'k jwt_lib =
  jl_decode_header :: "string \<Rightarrow> string option option"
  jl_decoding_key :: "bytes \<Rightarrow> 'k option"
  jl_decode :: "string \<Rightarrow> 'k \<Rightarrow> validation \<Rightarrow> claims option"
  jl_url_safe_decode :: "string \<Rightarrow> bytes option"
  jl_json_object :: "bytes \<Rightarrow> bool"
  jl_sha256 :: "bytes \<Rightarrow> bytes"

type_synonym 'j jwks_source = "string \<Rightarrow> 'j \<Rightarrow> (jwks_error + cached_key) \<times> 'j"
type_synonym 'i introspector = "string \<Rightarrow> 'i \<Rightarrow> (introspect_error + bool) \<times> 'i"

record jwt_auth =
  ja_config :: jwt_config
  ja_pools :: "(string, string set) hash_map"

record ('j, 'i) jwt_state =
  js_jwks :: 'j
  js_introspector :: 'i
  js_cache :: introspection_cache
  js_clock :: "instant stream"

definition jwt_auth_new :: "jwt_config \<Rightarrow> (string, pool_config) hash_map \<Rightarrow> jwt_auth" where
  "jwt_auth_new cfg pools =
     \<lparr>ja_config = cfg, ja_pools = map (\<lambda>(name, p). (name, pc_allowed_script_sha256 p)) pools\<rparr>"

definition jwt_state_new :: "jwt_config \<Rightarrow> 'j \<Rightarrow> 'i \<Rightarrow> instant stream \<Rightarrow> ('j, 'i) jwt_state" where
  "jwt_state_new cfg jwks intro clock =
     \<lparr>js_jwks = jwks, js_introspector = intro, js_cache = cache_new (in_cache_secs (jw_introspection cfg)),
      js_clock = clock\<rparr>"

definition sweep_introspection_cache :: "('j, 'i) jwt_state \<Rightarrow> nat \<times> ('j, 'i) jwt_state" where
  "sweep_introspection_cache s =
     (case cache_sweep (shd (js_clock s)) (js_cache s) of
        (n, c) \<Rightarrow> (n, s\<lparr>js_cache := c, js_clock := stl (js_clock s)\<rparr>))"

definition has_json_header :: "'k jwt_lib \<Rightarrow> string \<Rightarrow> bool" where
  "has_json_header lib bearer =
     (if CHR ''.'' \<in> set bearer
      then (case jl_url_safe_decode lib (takeWhile (\<lambda>c. c \<noteq> CHR ''.'') bearer) of
              Some header \<Rightarrow> jl_json_object lib header
            | None \<Rightarrow> False)
      else False)"

definition has_role :: "jwt_config \<Rightarrow> claims \<Rightarrow> string \<Rightarrow> bool" where
  "has_role cfg cl name \<longleftrightarrow>
     (jw_role_prefix cfg @ name)
       \<in> set (case hm_get (cl_resource_access cl) (jw_client_id cfg) of Some roles \<Rightarrow> roles | None \<Rightarrow> [])"

definition jwt_identity :: "jwt_auth \<Rightarrow> claims \<Rightarrow> auth_error + identity" where
  "jwt_identity ja cl =
     (let role = has_role (ja_config ja) cl in
      res_bind
        (if role ''admin'' then Inr (False, True)
         else if role ''write'' then Inr (False, False)
         else if role ''read'' then Inr (True, False)
         else Inl (AuthForbidden ''NOPERM no redis role''))
        (\<lambda>(ro, admin).
          (let name = (case cl_srh_pool cl of Some p \<Rightarrow> p | None \<Rightarrow> ''default'') in
           case hm_get (ja_pools ja) name of
             None \<Rightarrow> Inl (AuthForbidden ''NOPERM invalid redis pool'')
           | Some scripts \<Rightarrow>
               Inr \<lparr>subject = cl_sub cl, bucket_key = cl_sub cl, pool = name, read_only = ro, is_admin = admin,
                    legacy = False, allowed_commands = None,
                    blocked_commands = to_ascii_uppercase ` set (cl_srh_blocked_commands cl),
                    allowed_script_sha256 = scripts, key_prefix = cl_srh_key_prefix cl\<rparr>)))"

definition jwt_validation :: "jwt_config \<Rightarrow> jwt_algorithm \<Rightarrow> validation" where
  "jwt_validation cfg alg =
     \<lparr>va_algorithm = algorithm alg, va_leeway = CLOCK_SKEW_SECS, va_validate_nbf = True, va_validate_aud = False,
      va_issuers = [jw_issuer cfg], va_required_claims = [''exp'', ''iss'', ''sub'']\<rparr>"

definition audience_ok :: "jwt_config \<Rightarrow> claims \<Rightarrow> bool" where
  "audience_ok cfg cl \<longleftrightarrow> audience_contains (jw_audience cfg) (cl_aud cl) \<or> cl_azp cl = Some (jw_audience cfg)"

definition verified_claims :: "'k jwt_lib \<Rightarrow> jwt_config \<Rightarrow> string \<Rightarrow> cached_key \<Rightarrow> auth_error + claims" where
  "verified_claims lib cfg bearer cached =
     (case jl_decoding_key lib (ck_material cached) of
        None \<Rightarrow> Inl AuthRejected
      | Some key \<Rightarrow>
          (case jl_decode lib bearer key (jwt_validation cfg (ck_algorithm cached)) of
             None \<Rightarrow> Inl AuthRejected
           | Some cl \<Rightarrow>
               if cl_typ cl \<noteq> ''Bearer'' \<or> \<not> audience_ok cfg cl then Inl AuthRejected else Inr cl))"

text \<open>The introspection step; the cache reads the clock once for a lookup and once for an insertion.\<close>

definition introspect ::
  "'k jwt_lib \<Rightarrow> 'i introspector option \<Rightarrow> string \<Rightarrow> ('j, 'i) jwt_state \<Rightarrow> (auth_error + unit) \<times> ('j, 'i) jwt_state" where
  "introspect lib intro bearer s =
     (case intro of
        None \<Rightarrow> (Inr (), s)
      | Some is_active \<Rightarrow>
          (let digest = jl_sha256 lib bearer in
           case cache_get (shd (js_clock s)) digest (js_cache s) of
             (hit, c) \<Rightarrow>
               (let s1 = s\<lparr>js_cache := c, js_clock := stl (js_clock s)\<rparr> in
                case hit of
                  Some active \<Rightarrow> (if active then Inr () else Inl AuthRejected, s1)
                | None \<Rightarrow>
                    (case is_active bearer (js_introspector s1) of
                       (Inl e, i) \<Rightarrow>
                         (Inl (AuthServiceUnavailable (introspect_error_display e)), s1\<lparr>js_introspector := i\<rparr>)
                     | (Inr active, i) \<Rightarrow>
                         (if active then Inr () else Inl AuthRejected,
                          s1\<lparr>js_introspector := i,
                             js_cache := cache_insert (shd (js_clock s1)) digest active (js_cache s1),
                             js_clock := stl (js_clock s1)\<rparr>)))))"

definition jwt_validate ::
  "'k jwt_lib \<Rightarrow> 'j jwks_source \<Rightarrow> 'i introspector option \<Rightarrow> jwt_auth \<Rightarrow> string \<Rightarrow> ('j, 'i) jwt_state
    \<Rightarrow> (auth_error + identity) \<times> ('j, 'i) jwt_state" where
  "jwt_validate lib key_for intro ja bearer s =
     (case jl_decode_header lib bearer of
        None \<Rightarrow> (Inl AuthRejected, s)
      | Some None \<Rightarrow> (Inl AuthRejected, s)
      | Some (Some kid) \<Rightarrow>
          (case key_for kid (js_jwks s) of
             (Inl JwksNotFound, j) \<Rightarrow> (Inl AuthRejected, s\<lparr>js_jwks := j\<rparr>)
           | (Inl (JwksUnavailable reason), j) \<Rightarrow> (Inl (AuthServiceUnavailable reason), s\<lparr>js_jwks := j\<rparr>)
           | (Inr cached, j) \<Rightarrow>
               (let s1 = s\<lparr>js_jwks := j\<rparr> in
                case verified_claims lib (ja_config ja) bearer cached of
                  Inl e \<Rightarrow> (Inl e, s1)
                | Inr cl \<Rightarrow>
                    (case introspect lib intro bearer s1 of
                       (Inl e, s2) \<Rightarrow> (Inl e, s2)
                     | (Inr _, s2) \<Rightarrow> (jwt_identity ja cl, s2)))))"

definition jwt_authenticate ::
  "'k jwt_lib \<Rightarrow> 'j jwks_source \<Rightarrow> 'i introspector option \<Rightarrow> jwt_auth \<Rightarrow> ('j, 'i) jwt_state authenticator" where
  "jwt_authenticate lib key_for intro ja bearer s =
     (if length (filter (\<lambda>c. c = CHR ''.'') bearer) \<noteq> 2 then (Inr None, s)
      else if jl_decode_header lib bearer = None
      then (if has_json_header lib bearer then (Inl AuthRejected, s) else (Inr None, s))
      else (case jwt_validate lib key_for intro ja bearer s of
              (Inl e, s1) \<Rightarrow> (Inl e, s1)
            | (Inr ident, s1) \<Rightarrow> (Inr (Some ident), s1)))"

section \<open>Accepted tokens\<close>

text \<open>
  What an accepted token has: the library verified it under the configured issuer with a key of
  the trusted source and the algorithm of that key; it is an access token for the configured
  audience.
\<close>

definition token_verified ::
  "'k jwt_lib \<Rightarrow> 'j jwks_source \<Rightarrow> jwt_config \<Rightarrow> string \<Rightarrow> 'j \<Rightarrow> claims \<Rightarrow> bool" where
  "token_verified lib key_for cfg bearer j cl \<longleftrightarrow>
     (\<exists>kid cached key.
        jl_decode_header lib bearer = Some (Some kid) \<and> fst (key_for kid j) = Inr cached
        \<and> jl_decoding_key lib (ck_material cached) = Some key
        \<and> jl_decode lib bearer key (jwt_validation cfg (ck_algorithm cached)) = Some cl)
     \<and> cl_typ cl = ''Bearer'' \<and> audience_ok cfg cl"

text \<open>Why the introspection step let a token pass: there is none, the cache says active, or the endpoint does.\<close>

definition token_active :: "'k jwt_lib \<Rightarrow> 'i introspector option \<Rightarrow> string \<Rightarrow> ('j, 'i) jwt_state \<Rightarrow> bool" where
  "token_active lib intro bearer s \<longleftrightarrow>
     (case intro of
        None \<Rightarrow> True
      | Some is_active \<Rightarrow>
          (case fst (cache_get (shd (js_clock s)) (jl_sha256 lib bearer) (js_cache s)) of
             Some active \<Rightarrow> active
           | None \<Rightarrow> fst (is_active bearer (js_introspector s)) = Inr True))"

lemma introspect_active:
  "introspect lib intro bearer s = (Inr u, s') \<Longrightarrow> token_active lib intro bearer s"
  by (auto simp: introspect_def token_active_def Let_def split: option.splits prod.splits sum.splits if_splits)

lemma verified_claims_Inr:
  "verified_claims lib cfg bearer cached = Inr cl \<Longrightarrow>
     (\<exists>key. jl_decoding_key lib (ck_material cached) = Some key
        \<and> jl_decode lib bearer key (jwt_validation cfg (ck_algorithm cached)) = Some cl)
     \<and> cl_typ cl = ''Bearer'' \<and> audience_ok cfg cl"
  by (auto simp: verified_claims_def split: option.splits if_splits)

lemma jwt_accepts:
  assumes "jwt_authenticate lib key_for intro ja bearer s = (Inr (Some ident), s')"
  shows "\<exists>cl. token_verified lib key_for (ja_config ja) bearer (js_jwks s) cl
    \<and> token_active lib intro bearer s \<and> jwt_identity ja cl = Inr ident"
proof -
  from assms obtain kid where hd: "jl_decode_header lib bearer = Some (Some kid)"
    and v: "jwt_validate lib key_for intro ja bearer s = (Inr ident, s')"
    by (auto simp: jwt_authenticate_def jwt_validate_def split: if_splits prod.splits sum.splits option.splits)
  obtain r j where key: "key_for kid (js_jwks s) = (r, j)" by fastforce
  from v hd key obtain cached cl where c: "r = Inr cached"
      "verified_claims lib (ja_config ja) bearer cached = Inr cl"
      "introspect lib intro bearer (s\<lparr>js_jwks := j\<rparr>) = (Inr (), s')" "jwt_identity ja cl = Inr ident"
    by (auto simp: jwt_validate_def Let_def split: prod.splits sum.splits jwks_error.splits)
  have "token_active lib intro bearer s"
    using introspect_active [OF c(3)] by (simp add: token_active_def split: option.splits)
  with verified_claims_Inr [OF c(2)] hd key c(1,4) show ?thesis
    unfolding token_verified_def by (intro exI [of _ cl]) auto
qed


definition demo_claims :: claims where
  "demo_claims = \<lparr>cl_sub = ''user'', cl_aud = OneAudience ''srh'', cl_azp = None, cl_typ = ''Bearer'',
     cl_resource_access = [(''srh'', [''redis-read''])], cl_srh_pool = None, cl_srh_blocked_commands = [],
     cl_srh_key_prefix = None\<rparr>"

definition demo_jwt_lib :: "unit jwt_lib" where
  "demo_jwt_lib = \<lparr>jl_decode_header = (\<lambda>_. Some (Some ''kid'')), jl_decoding_key = (\<lambda>_. Some ()),
     jl_decode = (\<lambda>_ _ _. Some demo_claims), jl_url_safe_decode = Some, jl_json_object = (\<lambda>_. True), jl_sha256 = (\<lambda>b. b)\<rparr>"

definition demo_keys :: "unit jwks_source" where
  "demo_keys kid j = (Inr \<lparr>ck_algorithm = Rs256, ck_material = []\<rparr>, j)"

definition demo_jwt :: jwt_auth where
  "demo_jwt = \<lparr>ja_config = \<lparr>jw_issuer = ''https://issuer'', jw_audience = ''srh'', jwks_refresh_secs = 300,
       jw_role_prefix = ''redis-'', jw_client_id = ''srh'',
       jw_introspection = \<lparr>in_enabled = True, in_url = ''https://issuer/introspect'', in_client_id = ''srh'',
         in_client_secret = SecretString ''x'', in_cache_secs = 60\<rparr>\<rparr>,
     ja_pools = [(''default'', {})]\<rparr>"

definition demo_jwt_state :: "(unit, unit) jwt_state" where
  "demo_jwt_state = jwt_state_new (ja_config demo_jwt) () () (sconst 0)"

lemmas demo_jwt_defs = demo_claims_def demo_jwt_lib_def demo_keys_def demo_jwt_def demo_jwt_state_def jwt_state_new_def
  cache_new_def

lemma demo_jwt_accepted:
  "\<exists>ident s. jwt_authenticate demo_jwt_lib demo_keys (Some (\<lambda>_ i. (Inr True, i))) demo_jwt ''a.b.c'' demo_jwt_state
     = (Inr (Some ident), s) \<and> read_only ident"
  by (simp add: jwt_authenticate_def jwt_validate_def demo_jwt_defs verified_claims_def audience_ok_def introspect_def
      cache_get_def jwt_identity_def has_role_def Let_def)


interpretation jwt: authenticator "jwt_authenticate lib key_for intro ja" "\<lambda>_. True"
    "\<lambda>ident. \<exists>scripts. hm_get (ja_pools ja) (pool ident) = Some scripts"
  for lib :: "'k jwt_lib" and key_for :: "'j jwks_source" and intro :: "'i introspector option" and ja
proof
  fix s s' :: "('j, 'i) jwt_state" and bearer ident
  assume "jwt_authenticate lib key_for intro ja bearer s = (Inr (Some ident), s')"
  from jwt_accepts [OF this] show "\<exists>scripts. hm_get (ja_pools ja) (pool ident) = Some scripts"
    by (auto simp: jwt_identity_def Let_def split: if_splits option.splits)
qed

end
