(* ===== verification/Outbound.thy ===== *)
theory Outbound
  imports Jwt_Auth
begin

text \<open>
  Outbound HTTP: one bounded request (\<open>src/adapters/outbound_http.rs\<close>), the introspection client
  (\<open>src/adapters/http_introspect.rs\<close>) and the signing keys of the issuer
  (\<open>src/adapters/http_jwks.rs\<close>).

  The HTTP client is the parameter \<open>send\<close>, on a network state: what became of a request, for a
  limit on the response body, within the five seconds it is given. Parsing of URLs, JSON documents
  and status texts are fields of \<open>net_lib\<close>. A refresh of the keys holds the refresh lock
  from its decision to its last write, so refreshes run one after another and one refresh is a
  function of the cache; \<open>Instant::now()\<close> is the stream of clock readings. \<open>jwks_step\<close> runs any
  sequence of them, with the history of the forced ones.
\<close>

section \<open>One request\<close>

record http_request =
  hr_method :: string
  hr_uri :: string
  hr_headers :: "(string \<times> string) list"
  hr_body :: bytes

datatype http_outcome = OutTimedOut | OutFailed string | OutResponse nat "string + bytes"

type_synonym 'n sender = "http_request \<Rightarrow> nat \<Rightarrow> 'n \<Rightarrow> http_outcome \<times> 'n"

definition require_success :: "(nat \<Rightarrow> string) \<Rightarrow> nat \<Rightarrow> string + unit" where
  "require_success status_text status =
     (if 200 \<le> status \<and> status < 300 then Inr ()
      else
       (let reason = (if 300 \<le> status \<and> status < 400 then ''redirects are not followed''
                      else if status = 429 then ''remote service rate limited the request''
                      else ''remote service returned an error'') in
        Inl (reason @ '': HTTP '' @ status_text status)))"

definition request_bytes ::
  "(nat \<Rightarrow> string) \<Rightarrow> 'n sender \<Rightarrow> http_request \<Rightarrow> nat \<Rightarrow> 'n \<Rightarrow> (string + bytes) \<times> 'n" where
  "request_bytes status_text send request limit n =
     (case send request limit n of
        (OutTimedOut, n1) \<Rightarrow> (Inl ''outbound HTTP request timed out'', n1)
      | (OutFailed e, n1) \<Rightarrow> (Inl (''outbound HTTP request failed: '' @ e), n1)
      | (OutResponse status body, n1) \<Rightarrow>
          (res_bind (require_success status_text status) (\<lambda>_.
             case body of
               Inr b \<Rightarrow> Inr b
             | Inl e \<Rightarrow> Inl (''outbound HTTP response body failed: '' @ e)), n1))"

section \<open>Keys\<close>

datatype key_use = UseSignature | OtherUse
datatype key_operation = OpVerify | OtherOperation
datatype elliptic_curve = P256 | P384 | OtherCurve
datatype key_parameters = RSAKey | ECKey elliptic_curve | OtherKey
datatype key_algorithm = KeyRS256 | KeyRS384 | KeyRS512 | KeyES256 | KeyES384 | OtherAlgorithm

record jwk =
  jk_use :: "key_use option"
  jk_operations :: "key_operation list option"
  jk_id :: "string option"
  jk_parameters :: key_parameters
  jk_algorithm :: "key_algorithm option"

record net_lib =
  nl_parse_url :: "string \<Rightarrow> string + string"
  nl_build_error :: "http_request \<Rightarrow> string option"
  nl_status_text :: "nat \<Rightarrow> string"
  nl_discovery :: "bytes \<Rightarrow> string + string"
  nl_key_set :: "bytes \<Rightarrow> string + jwk list"
  nl_jwk_bytes :: "jwk \<Rightarrow> bytes option"
  nl_active :: "bytes \<Rightarrow> string + bool"
  nl_base64 :: "bytes \<Rightarrow> string"
  nl_form_encode :: "string \<Rightarrow> string \<Rightarrow> bytes"
  nl_native_roots :: "string + unit"

text \<open>The client itself is \<open>send\<close>; building it fails when the system's trust roots do not load.\<close>

definition build_client :: "net_lib \<Rightarrow> string + unit" where
  "build_client lib =
     (case nl_native_roots lib of
        Inl e \<Rightarrow> Inl (''failed to load native TLS roots: '' @ e)
      | Inr _ \<Rightarrow> Inr ())"

fun key_algorithm_of :: "key_parameters \<Rightarrow> key_algorithm option \<Rightarrow> jwt_algorithm option" where
  "key_algorithm_of RSAKey None = Some Rs256"
| "key_algorithm_of RSAKey (Some KeyRS256) = Some Rs256"
| "key_algorithm_of RSAKey (Some KeyRS384) = Some Rs384"
| "key_algorithm_of RSAKey (Some KeyRS512) = Some Rs512"
| "key_algorithm_of (ECKey P256) None = Some Es256"
| "key_algorithm_of (ECKey P384) None = Some Es384"
| "key_algorithm_of (ECKey P256) (Some KeyES256) = Some Es256"
| "key_algorithm_of (ECKey P384) (Some KeyES384) = Some Es384"
| "key_algorithm_of _ _ = None"

definition cacheable_key :: "net_lib \<Rightarrow> jwk \<Rightarrow> (string \<times> cached_key) option" where
  "cacheable_key lib k =
     (if (case jk_use k of Some u \<Rightarrow> u \<noteq> UseSignature | None \<Rightarrow> False)
         \<or> (case jk_operations k of Some operations \<Rightarrow> OpVerify \<notin> set operations | None \<Rightarrow> False)
      then None
      else Option.bind (jk_id k) (\<lambda>kid.
           Option.bind (key_algorithm_of (jk_parameters k) (jk_algorithm k)) (\<lambda>alg.
           Option.bind (nl_jwk_bytes lib k) (\<lambda>material.
           Some (kid, \<lparr>ck_algorithm = alg, ck_material = material\<rparr>)))))"

section \<open>The key cache\<close>

definition DISCOVERY_LIMIT :: nat where
  "DISCOVERY_LIMIT = 64 * 1024"

definition JWKS_LIMIT :: nat where
  "JWKS_LIMIT = 1024 * 1024"

definition FORCED_REFRESH_INTERVAL :: duration where
  "FORCED_REFRESH_INTERVAL = from_secs 30"

record key_cache =
  kc_keys :: "(string, cached_key) hash_map"
  kc_fetched_at :: "instant option"
  kc_jwks_uri :: "string option"
  kc_last_forced_refresh :: "instant option"

record 'n http_jwks =
  hj_issuer :: string
  hj_refresh_after :: duration
  hj_cache :: key_cache
  hj_network :: 'n
  hj_clock :: "instant stream"

definition http_jwks_new :: "net_lib \<Rightarrow> string \<Rightarrow> nat \<Rightarrow> 'n \<Rightarrow> instant stream \<Rightarrow> jwks_error + 'n http_jwks" where
  "http_jwks_new lib issuer refresh_secs n clock =
     (case build_client lib of
        Inl e \<Rightarrow> Inl (JwksUnavailable e)
      | Inr _ \<Rightarrow>
          Inr \<lparr>hj_issuer = issuer, hj_refresh_after = from_secs refresh_secs,
               hj_cache = \<lparr>kc_keys = [], kc_fetched_at = None, kc_jwks_uri = None, kc_last_forced_refresh = None\<rparr>,
               hj_network = n, hj_clock = clock\<rparr>)"

definition validate_http_url :: "net_lib \<Rightarrow> string \<Rightarrow> jwks_error + unit" where
  "validate_http_url lib value =
     (case nl_parse_url lib value of
        Inl e \<Rightarrow> Inl (JwksUnavailable (''invalid outbound URL: '' @ e))
      | Inr scheme \<Rightarrow>
          if scheme \<in> {''http'', ''https''} then Inr ()
          else Inl (JwksUnavailable ''outbound URL must use http or https''))"

definition jwks_get ::
  "net_lib \<Rightarrow> 'n sender \<Rightarrow> string \<Rightarrow> nat \<Rightarrow> 'n \<Rightarrow> (jwks_error + bytes) \<times> 'n" where
  "jwks_get lib send url limit n =
     (case validate_http_url lib url of
        Inl e \<Rightarrow> (Inl e, n)
      | Inr _ \<Rightarrow>
          (let request = \<lparr>hr_method = ''GET'', hr_uri = url, hr_headers = [], hr_body = []\<rparr> in
           case nl_build_error lib request of
             Some e \<Rightarrow> (Inl (JwksUnavailable (''invalid outbound HTTP request: '' @ e)), n)
           | None \<Rightarrow>
               (case request_bytes (nl_status_text lib) send request limit n of
                  (Inl e, n1) \<Rightarrow> (Inl (JwksUnavailable e), n1)
                | (Inr b, n1) \<Rightarrow> (Inr b, n1))))"

text \<open>\<open>trim_end_matches('/')\<close>.\<close>

definition trim_end_slashes :: "string \<Rightarrow> string" where
  "trim_end_slashes s = rev (dropWhile (\<lambda>c. c = CHR ''/'') (rev s))"

definition fetch_discovery ::
  "net_lib \<Rightarrow> 'n sender \<Rightarrow> string \<Rightarrow> 'n \<Rightarrow> (jwks_error + string) \<times> 'n" where
  "fetch_discovery lib send issuer n =
     (case jwks_get lib send (trim_end_slashes issuer @ ''/.well-known/openid-configuration'') DISCOVERY_LIMIT n of
        (Inl e, n1) \<Rightarrow> (Inl e, n1)
      | (Inr body, n1) \<Rightarrow>
          (case nl_discovery lib body of
             Inl e \<Rightarrow> (Inl (JwksUnavailable (''invalid OpenID discovery document: '' @ e)), n1)
           | Inr uri \<Rightarrow> (res_bind (validate_http_url lib uri) (\<lambda>_. Inr uri), n1)))"

definition fetch_keys ::
  "net_lib \<Rightarrow> 'n sender \<Rightarrow> string \<Rightarrow> 'n \<Rightarrow> (jwks_error + (string, cached_key) hash_map) \<times> 'n" where
  "fetch_keys lib send url n =
     (case jwks_get lib send url JWKS_LIMIT n of
        (Inl e, n1) \<Rightarrow> (Inl e, n1)
      | (Inr body, n1) \<Rightarrow>
          (case nl_key_set lib body of
             Inl e \<Rightarrow> (Inl (JwksUnavailable (''invalid JWKS document: '' @ e)), n1)
           | Inr ks \<Rightarrow> (Inr (fold (\<lambda>(kid, ck). hm_insert kid ck) (List.map_filter (cacheable_key lib) ks) []), n1)))"

text \<open>The decision of a refresh, taken under the refresh lock.\<close>

definition refresh_due :: "bool \<Rightarrow> instant \<Rightarrow> duration \<Rightarrow> key_cache \<Rightarrow> bool" where
  "refresh_due forced now refresh_after c =
     (if forced
      then (case kc_last_forced_refresh c of None \<Rightarrow> True | Some last_time \<Rightarrow> FORCED_REFRESH_INTERVAL \<le> now - last_time)
      else (case kc_fetched_at c of None \<Rightarrow> True | Some fetched \<Rightarrow> refresh_after \<le> now - fetched))"

text \<open>The discovery document and the keys, with the URI of the keys.\<close>

definition fetch_all ::
  "net_lib \<Rightarrow> 'n sender \<Rightarrow> string \<Rightarrow> string option \<Rightarrow> 'n
    \<Rightarrow> (jwks_error + string \<times> (string, cached_key) hash_map) \<times> 'n" where
  "fetch_all lib send issuer known_uri n =
     (case (case known_uri of Some uri \<Rightarrow> (Inr uri, n) | None \<Rightarrow> fetch_discovery lib send issuer n) of
        (Inl e, n1) \<Rightarrow> (Inl e, n1)
      | (Inr uri, n1) \<Rightarrow>
          (case fetch_keys lib send uri n1 of
             (Inl e, n2) \<Rightarrow> (Inl e, n2)
           | (Inr ks, n2) \<Rightarrow> (Inr (uri, ks), n2)))"

definition jwks_refresh ::
  "net_lib \<Rightarrow> 'n sender \<Rightarrow> bool \<Rightarrow> 'n http_jwks \<Rightarrow> (jwks_error + unit) \<times> 'n http_jwks" where
  "jwks_refresh lib send forced h =
     (let now = shd (hj_clock h); h0 = h\<lparr>hj_clock := stl (hj_clock h)\<rparr> in
      if \<not> refresh_due forced now (hj_refresh_after h) (hj_cache h) then (Inr (), h0)
      else
       (let c = (if forced then (hj_cache h)\<lparr>kc_last_forced_refresh := Some now\<rparr> else hj_cache h) in
        case fetch_all lib send (hj_issuer h) (kc_jwks_uri c) (hj_network h) of
          (Inl e, n) \<Rightarrow> (Inl e, h0\<lparr>hj_cache := c, hj_network := n\<rparr>)
        | (Inr (uri, ks), n) \<Rightarrow>
            (Inr (), h0\<lparr>hj_cache := c\<lparr>kc_keys := ks, kc_fetched_at := Some now, kc_jwks_uri := Some uri\<rparr>,
                       hj_network := n\<rparr>)))"

definition refresh_if_needed ::
  "net_lib \<Rightarrow> 'n sender \<Rightarrow> 'n http_jwks \<Rightarrow> (jwks_error + unit) \<times> 'n http_jwks" where
  "refresh_if_needed lib send h =
     (case kc_fetched_at (hj_cache h) of
        None \<Rightarrow> jwks_refresh lib send False h
      | Some fetched \<Rightarrow>
          (let h0 = h\<lparr>hj_clock := stl (hj_clock h)\<rparr> in
           if hj_refresh_after h \<le> shd (hj_clock h) - fetched then jwks_refresh lib send False h0 else (Inr (), h0)))"

definition key_for :: "net_lib \<Rightarrow> 'n sender \<Rightarrow> 'n http_jwks jwks_source" where
  "key_for lib send kid h =
     (case refresh_if_needed lib send h of
        (Inl e, h1) \<Rightarrow> (Inl e, h1)
      | (Inr _, h1) \<Rightarrow>
          (case hm_get (kc_keys (hj_cache h1)) kid of
             Some key \<Rightarrow> (Inr key, h1)
           | None \<Rightarrow>
               (case jwks_refresh lib send True h1 of
                  (Inl e, h2) \<Rightarrow> (Inl e, h2)
                | (Inr _, h2) \<Rightarrow>
                    (case hm_get (kc_keys (hj_cache h2)) kid of
                       Some key \<Rightarrow> (Inr key, h2)
                     | None \<Rightarrow> (Inl JwksNotFound, h2)))))"

section \<open>Introspection\<close>

definition INTROSPECTION_LIMIT :: nat where
  "INTROSPECTION_LIMIT = 64 * 1024"

record http_introspector =
  hi_url :: string
  hi_authorization :: secret_string

definition http_introspector_new :: "net_lib \<Rightarrow> string \<Rightarrow> string \<Rightarrow> secret_string \<Rightarrow> introspect_error + http_introspector" where
  "http_introspector_new lib url client_id client_secret =
     (case nl_parse_url lib url of
        Inl e \<Rightarrow> Inl (IntrospectError (''invalid introspection URL: '' @ e))
      | Inr scheme \<Rightarrow>
          if scheme \<notin> {''http'', ''https''}
          then Inl (IntrospectError ''introspection URL must use http or https'')
          else (case build_client lib of
                  Inl e \<Rightarrow> Inl (IntrospectError e)
                | Inr _ \<Rightarrow>
                    Inr \<lparr>hi_url = url,
                         hi_authorization = SecretString (''Basic '' @ nl_base64 lib (client_id @ '':'' @ expose client_secret))\<rparr>))"

definition is_active :: "net_lib \<Rightarrow> 'n sender \<Rightarrow> http_introspector \<Rightarrow> 'n introspector" where
  "is_active lib send hi token n =
     (let request = \<lparr>hr_method = ''POST'', hr_uri = hi_url hi,
            hr_headers = [(''content-type'', ''application/x-www-form-urlencoded''),
                          (''authorization'', expose (hi_authorization hi))],
            hr_body = nl_form_encode lib ''token'' token\<rparr> in
      case nl_build_error lib request of
        Some e \<Rightarrow> (Inl (IntrospectError (''invalid introspection request: '' @ e)), n)
      | None \<Rightarrow>
          (case request_bytes (nl_status_text lib) send request INTROSPECTION_LIMIT n of
             (Inl e, n1) \<Rightarrow> (Inl (IntrospectError e), n1)
           | (Inr body, n1) \<Rightarrow>
               (case nl_active lib body of
                  Inl e \<Rightarrow> (Inl (IntrospectError (''invalid introspection response: '' @ e)), n1)
                | Inr active \<Rightarrow> (Inr active, n1))))"

section \<open>Forced refreshes\<close>

text \<open>The key source with the clock and the times of the forced refreshes that were let through, latest first.\<close>

record 'n jwks_sys =
  jx_jwks :: "'n http_jwks"
  jx_now :: instant
  jx_forced :: "instant list"

inductive jwks_step :: "'n jwks_sys \<Rightarrow> 'n jwks_sys \<Rightarrow> bool" where
  refreshed: "jx_now s \<le> now \<Longrightarrow>
    jwks_refresh lib send forced ((jx_jwks s)\<lparr>hj_clock := now ## clock\<rparr>) = (r, h) \<Longrightarrow>
    jwks_step s \<lparr>jx_jwks = h, jx_now = now,
      jx_forced = (if forced \<and> refresh_due True now (hj_refresh_after (jx_jwks s)) (hj_cache (jx_jwks s))
                   then now # jx_forced s else jx_forced s)\<rparr>"

inductive_cases jwks_stepE: "jwks_step s t"

definition jwks_start :: "'n jwks_sys \<Rightarrow> bool" where
  "jwks_start s \<longleftrightarrow> jx_forced s = []
     \<and> (\<exists>lib issuer refresh_secs n clock. http_jwks_new lib issuer refresh_secs n clock = Inr (jx_jwks s))"

lemma fresh_jwks_cache:
  "http_jwks_new lib issuer refresh_secs n clock = Inr h
    \<Longrightarrow> kc_keys (hj_cache h) = [] \<and> kc_last_forced_refresh (hj_cache h) = None \<and> kc_fetched_at (hj_cache h) = None"
  by (auto simp: http_jwks_new_def split: sum.splits)

definition jwks_inv :: "'n jwks_sys \<Rightarrow> bool" where
  "jwks_inv s \<longleftrightarrow>
     kc_last_forced_refresh (hj_cache (jx_jwks s)) = (case jx_forced s of [] \<Rightarrow> None | t # _ \<Rightarrow> Some t)
     \<and> sorted_wrt (\<lambda>a b. b + FORCED_REFRESH_INTERVAL \<le> a) (jx_forced s)"

lemma jwks_refresh_forced:
  assumes "jwks_refresh lib send forced h = (r, h')"
  shows "kc_last_forced_refresh (hj_cache h') =
      (if forced \<and> refresh_due forced (shd (hj_clock h)) (hj_refresh_after h) (hj_cache h) then Some (shd (hj_clock h))
       else kc_last_forced_refresh (hj_cache h))"
  using assms by (auto simp: jwks_refresh_def Let_def split: if_splits prod.splits sum.splits)

lemma forced_spacing:
  assumes "jwks_inv s" and "refresh_due True now after (hj_cache (jx_jwks s))"
  shows "sorted_wrt (\<lambda>a b. b + FORCED_REFRESH_INTERVAL \<le> a) (now # jx_forced s)"
proof (cases "jx_forced s")
  case (Cons t ts)
  with assms have t: "FORCED_REFRESH_INTERVAL \<le> now - t" by (simp add: jwks_inv_def refresh_due_def)
  moreover have "0 < FORCED_REFRESH_INTERVAL" by (simp add: FORCED_REFRESH_INTERVAL_def from_secs_def)
  ultimately have "t + FORCED_REFRESH_INTERVAL \<le> now" by linarith
  with assms(1) Cons show ?thesis by (auto simp: jwks_inv_def)
qed simp

interpretation jwks: step_system jwks_start jwks_step jwks_inv
proof
  fix s t :: "'n jwks_sys"
  show "jwks_inv s" if "jwks_start s"
    using that by (auto simp: jwks_start_def jwks_inv_def dest: fresh_jwks_cache)
  assume inv: "jwks_inv s"
  assume "jwks_step s t"
  then show "jwks_inv t"
  proof (rule jwks_stepE)
    fix now lib send forced clock r h
    assume t: "t = \<lparr>jx_jwks = h, jx_now = now,
        jx_forced = (if forced \<and> refresh_due True now (hj_refresh_after (jx_jwks s)) (hj_cache (jx_jwks s))
                     then now # jx_forced s else jx_forced s)\<rparr>"
      and run: "jwks_refresh lib send forced ((jx_jwks s)\<lparr>hj_clock := now ## clock\<rparr>) = (r, h)"
    show "jwks_inv t"
      using jwks_refresh_forced [OF run] forced_spacing [OF inv] inv
      by (cases "forced \<and> refresh_due True now (hj_refresh_after (jx_jwks s)) (hj_cache (jx_jwks s))")
        (auto simp: t jwks_inv_def)
  qed
qed

lemma spaced_window:
  fixes ts :: "nat list"
  assumes "sorted_wrt (\<lambda>a b. b + d \<le> a) ts"
  shows "length (filter (\<lambda>t. w \<le> t \<and> t < w + d) ts) \<le> (1::nat)"
  using assms
proof (induction ts)
  case (Cons a ts)
  show ?case
  proof (cases "w \<le> a \<and> a < w + d")
    case True
    have "filter (\<lambda>t. w \<le> t \<and> t < w + d) ts = []"
      using Cons.prems True by (auto simp: filter_empty_conv)
    with True show ?thesis by simp
  next
    case False
    have "filter (\<lambda>t. w \<le> t \<and> t < w + d) (a # ts) = filter (\<lambda>t. w \<le> t \<and> t < w + d) ts"
      using False by auto
    with Cons show ?thesis by simp
  qed
qed simp

text \<open>
  Tokens with made-up key identifiers cannot drive the issuer. Over any sequence of refreshes, whatever the
  network answers, at most one forced refresh reaches the network in any thirty seconds, also when refreshes fail; a forced refresh within thirty
  seconds of the last one returns at once and leaves the keys and the network as they were.
\<close>

theorem forced_refresh_throttled:
  assumes "jwks_start s" and "jwks_step\<^sup>*\<^sup>* s t"
  shows "length (filter (\<lambda>x. w \<le> x \<and> x < w + from_secs 30) (jx_forced t)) \<le> 1
    \<and> (\<forall>last_time lib send clock now.
         kc_last_forced_refresh (hj_cache (jx_jwks t)) = Some last_time \<and> now < last_time + from_secs 30 \<longrightarrow>
         (case jwks_refresh lib send True ((jx_jwks t)\<lparr>hj_clock := now ## clock\<rparr>) of
            (r, h) \<Rightarrow> r = Inr () \<and> hj_network h = hj_network (jx_jwks t) \<and> hj_cache h = hj_cache (jx_jwks t)))"
proof -
  note inv = jwks.inv_reachable [OF assms]
  then have "length (filter (\<lambda>x. w \<le> x \<and> x < w + from_secs 30) (jx_forced t)) \<le> 1"
    using spaced_window [of "from_secs 30" "jx_forced t" w] by (simp add: jwks_inv_def FORCED_REFRESH_INTERVAL_def)
  moreover have "case jwks_refresh lib send True ((jx_jwks t)\<lparr>hj_clock := now ## clock\<rparr>) of
      (r, h) \<Rightarrow> r = Inr () \<and> hj_network h = hj_network (jx_jwks t) \<and> hj_cache h = hj_cache (jx_jwks t)"
    if "kc_last_forced_refresh (hj_cache (jx_jwks t)) = Some last_time" "now < last_time + from_secs 30"
    for last_time now lib send clock
  proof -
    have "\<not> refresh_due True now (hj_refresh_after (jx_jwks t)) (hj_cache (jx_jwks t))"
      using that by (simp add: refresh_due_def FORCED_REFRESH_INTERVAL_def from_secs_def)
    then show ?thesis by (simp add: jwks_refresh_def)
  qed
  ultimately show ?thesis by (intro conjI allI impI) (simp_all only:)
qed

definition demo_net :: net_lib where
  "demo_net = \<lparr>nl_parse_url = (\<lambda>_. Inr ''https''), nl_build_error = (\<lambda>_. None), nl_status_text = nat_text,
     nl_discovery = (\<lambda>_. Inr ''https://issuer/keys''), nl_key_set = (\<lambda>_. Inr []), nl_jwk_bytes = (\<lambda>_. Some []),
     nl_active = (\<lambda>_. Inr True), nl_base64 = (\<lambda>b. b), nl_form_encode = (\<lambda>_ b. b),
     nl_native_roots = Inr ()\<rparr>"

definition demo_jwks :: "unit jwks_sys" where
  "demo_jwks =
     \<lparr>jx_jwks = projr (http_jwks_new demo_net ''https://issuer'' 300 () (sconst 0)), jx_now = 0, jx_forced = []\<rparr>"

lemma demo_jwks_new: "http_jwks_new demo_net ''https://issuer'' 300 () (sconst 0) = Inr (jx_jwks demo_jwks)"
  by (simp add: demo_jwks_def demo_net_def http_jwks_new_def build_client_def)

lemmas demo_jwks_unfold = demo_jwks_def http_jwks_new_def build_client_def demo_net_def

theorem forced_refresh_throttled_witness:
  "\<exists>t. jwks_step\<^sup>*\<^sup>* demo_jwks t \<and> jx_forced t = [7]
     \<and> length (filter (\<lambda>x. 0 \<le> x \<and> x < 0 + from_secs 30) (jx_forced t)) \<le> 1"
proof -
  obtain r h where rh: "jwks_refresh demo_net (\<lambda>_ _ n. (OutTimedOut, n)) True
      ((jx_jwks demo_jwks)\<lparr>hj_clock := 7 ## sconst 7\<rparr>) = (r, h)" by fastforce
  have "jx_now demo_jwks \<le> 7" by (simp add: demo_jwks_def)
  from jwks_step.refreshed [OF this rh]
  have step: "jwks_step demo_jwks \<lparr>jx_jwks = h, jx_now = 7, jx_forced = [7]\<rparr>"
    by (simp add: demo_jwks_unfold refresh_due_def)
  have start: "jwks_start demo_jwks" using demo_jwks_new by (auto simp: jwks_start_def demo_jwks_def)
  from forced_refresh_throttled [OF start r_into_rtranclp [of jwks_step, OF step], of 0] step
  show ?thesis by (intro exI [of _ "\<lparr>jx_jwks = h, jx_now = 7, jx_forced = [7]\<rparr>"]) auto
qed

section \<open>Served keys\<close>

text \<open>Every cached key comes from a key document entry that is for verifying signatures.\<close>

definition keys_sound :: "net_lib \<Rightarrow> key_cache \<Rightarrow> bool" where
  "keys_sound lib c \<longleftrightarrow> (\<forall>kid ck. hm_get (kc_keys c) kid = Some ck \<longrightarrow> (\<exists>k. cacheable_key lib k = Some (kid, ck)))"

lemma fold_insert_sound:
  assumes "\<forall>(kid, ck) \<in> set kcs. \<exists>k. cacheable_key lib k = Some (kid, ck)"
    and "\<forall>kid ck. hm_get m kid = Some ck \<longrightarrow> (\<exists>k. cacheable_key lib k = Some (kid, ck))"
  shows "hm_get (fold (\<lambda>(kid, ck). hm_insert kid ck) kcs m) kid = Some ck \<Longrightarrow> \<exists>k. cacheable_key lib k = Some (kid, ck)"
  using assms
proof (induction kcs arbitrary: m)
  case (Cons kc kcs)
  obtain kid' ck' where kc: "kc = (kid', ck')" by fastforce
  show ?case
    by (rule Cons.IH [of "hm_insert kid' ck' m"]) (use Cons.prems kc in \<open>auto simp: update_conv' split: if_splits\<close>)
qed auto

lemma fetch_keys_sound:
  assumes "fst (fetch_keys lib send url n) = Inr ks" and "hm_get ks kid = Some ck"
  shows "\<exists>k. cacheable_key lib k = Some (kid, ck)"
proof -
  obtain kl where "ks = fold (\<lambda>(kid, ck). hm_insert kid ck) (List.map_filter (cacheable_key lib) kl) []"
    using assms(1) by (auto simp: fetch_keys_def split: prod.splits sum.splits)
  with assms(2) fold_insert_sound [of "List.map_filter (cacheable_key lib) kl" lib "[]" kid ck] show ?thesis
    by (fastforce simp: map_filter_def)
qed

lemma jwks_refresh_sound:
  assumes "keys_sound lib (hj_cache h)" and "jwks_refresh lib send forced h = (r, h')"
  shows "keys_sound lib (hj_cache h')" and "isl r \<Longrightarrow> kc_keys (hj_cache h') = kc_keys (hj_cache h)"
proof -
  have "fst (fetch_keys lib send uri n1) = Inr ks"
    if "fetch_all lib send issuer known n = (Inr (uri, ks), n2)"
      "(case known of Some uri \<Rightarrow> (Inr uri, n) | None \<Rightarrow> fetch_discovery lib send issuer n) = (Inr uri', n1)"
    for issuer known n uri ks n2 uri' n1
    using that by (auto simp: fetch_all_def split: prod.splits sum.splits)
  then have sound: "keys_sound lib \<lparr>kc_keys = ks, kc_fetched_at = a, kc_jwks_uri = b, kc_last_forced_refresh = c\<rparr>"
    if "fetch_all lib send issuer known n = (Inr (uri, ks), n2)" for issuer known n uri ks n2 a b c
    using that fetch_keys_sound
    by (fastforce simp: keys_sound_def fetch_all_def split: prod.splits sum.splits)
  show "keys_sound lib (hj_cache h')"
    using assms sound by (cases "hj_cache h")
      (auto simp: jwks_refresh_def keys_sound_def Let_def split: if_splits prod.splits sum.splits)
  show "kc_keys (hj_cache h') = kc_keys (hj_cache h)" if "isl r"
    using assms(2) that by (auto simp: jwks_refresh_def Let_def split: if_splits prod.splits sum.splits)
qed

lemma key_for_sound:
  assumes "keys_sound lib (hj_cache h)" and "key_for lib send kid h = (r, h')"
  shows "keys_sound lib (hj_cache h')" and "r = Inr ck \<Longrightarrow> \<exists>k. cacheable_key lib k = Some (kid, ck)"
proof -
  obtain r1 h1 where 1: "refresh_if_needed lib send h = (r1, h1)" by fastforce
  obtain r2 h2 where 2: "jwks_refresh lib send True h1 = (r2, h2)" by fastforce
  have s1: "keys_sound lib (hj_cache h1)"
    using 1 assms(1) jwks_refresh_sound(1) [of lib h send False r1 h1]
      jwks_refresh_sound(1) [of lib "h\<lparr>hj_clock := stl (hj_clock h)\<rparr>" send False r1 h1]
    by (auto simp: refresh_if_needed_def Let_def split: option.splits if_splits)
  have s2: "keys_sound lib (hj_cache h2)" by (rule jwks_refresh_sound(1) [OF s1 2])
  show "keys_sound lib (hj_cache h')" "r = Inr ck \<Longrightarrow> \<exists>k. cacheable_key lib k = Some (kid, ck)"
    using assms(2) s1 s2 unfolding key_for_def 1
    by (auto simp: 2 keys_sound_def split: sum.splits option.splits)
qed


definition demo_key :: jwk where
  "demo_key = \<lparr>jk_use = Some UseSignature, jk_operations = None, jk_id = Some ''kid'', jk_parameters = ECKey P256,
     jk_algorithm = None\<rparr>"

definition demo_key_net :: net_lib where
  "demo_key_net = demo_net\<lparr>nl_key_set := (\<lambda>_. Inr [demo_key])\<rparr>"


end
