(* ===== verification/Jwks_Interleaving.thy ===== *)
theory Jwks_Interleaving
  imports Outbound
begin

text \<open>
  Many key lookups at once (\<open>HttpJwks::key_for\<close> of \<open>src/adapters/http_jwks.rs\<close>). A request is at one of the points
  \<open>lookup\<close>; between two of them it makes one access to what the requests share: the key cache behind its read-write lock, the
  refresh lock, the clock and the network. The requests run in any order, and at any point a
  request may be dropped, which releases the refresh lock if it holds it. The clock is one stream of readings
  for all, in order.

  A request that nobody disturbs does what \<open>key_for\<close> does. The invariant gives the promises of the refresh lock: one
  request at a time talks to the issuer, and the decision a request takes under the lock still holds when it writes.
\<close>

section \<open>Lookups\<close>

datatype lookup =
    Begin
  | Queueing bool
  | Deciding bool
  | Recording instant
  | Locating bool instant
  | Discovering bool instant
  | Fetching bool instant string
  | Storing bool instant string "(string, cached_key) hash_map"
  | Reading bool
  | Answered "jwks_error + cached_key"
  | Abandoned

text \<open>
  One access, with the shared state and whether the refresh lock is held; \<open>None\<close> when the request cannot go on. The flag of a
  phase says whether the refresh is forced.
\<close>

fun lookup_move ::
  "net_lib \<Rightarrow> 'n sender \<Rightarrow> string \<Rightarrow> lookup \<Rightarrow> 'n http_jwks \<times> bool \<Rightarrow> (lookup \<times> 'n http_jwks \<times> bool) option" where
  "lookup_move lib send kid Begin (h, locked) =
     (case kc_fetched_at (hj_cache h) of
        None \<Rightarrow> Some (Queueing False, h, locked)
      | Some fetched \<Rightarrow>
          Some (if hj_refresh_after h \<le> shd (hj_clock h) - fetched then Queueing False else Reading False,
                h\<lparr>hj_clock := stl (hj_clock h)\<rparr>, locked))"
| "lookup_move lib send kid (Queueing forced) (h, locked) = (if locked then None else Some (Deciding forced, h, True))"
| "lookup_move lib send kid (Deciding forced) (h, locked) =
     (let now = shd (hj_clock h); h0 = h\<lparr>hj_clock := stl (hj_clock h)\<rparr> in
      if \<not> refresh_due forced now (hj_refresh_after h) (hj_cache h) then Some (Reading forced, h0, False)
      else Some (if forced then Recording now else Locating False now, h0, locked))"
| "lookup_move lib send kid (Recording now) (h, locked) =
     Some (Locating True now, h\<lparr>hj_cache := (hj_cache h)\<lparr>kc_last_forced_refresh := Some now\<rparr>\<rparr>, locked)"
| "lookup_move lib send kid (Locating forced now) (h, locked) =
     Some (case kc_jwks_uri (hj_cache h) of Some uri \<Rightarrow> Fetching forced now uri | None \<Rightarrow> Discovering forced now, h, locked)"
| "lookup_move lib send kid (Discovering forced now) (h, locked) =
     (case fetch_discovery lib send (hj_issuer h) (hj_network h) of
        (Inl e, n) \<Rightarrow> Some (Answered (Inl e), h\<lparr>hj_network := n\<rparr>, False)
      | (Inr uri, n) \<Rightarrow> Some (Fetching forced now uri, h\<lparr>hj_network := n\<rparr>, locked))"
| "lookup_move lib send kid (Fetching forced now uri) (h, locked) =
     (case fetch_keys lib send uri (hj_network h) of
        (Inl e, n) \<Rightarrow> Some (Answered (Inl e), h\<lparr>hj_network := n\<rparr>, False)
      | (Inr ks, n) \<Rightarrow> Some (Storing forced now uri ks, h\<lparr>hj_network := n\<rparr>, locked))"
| "lookup_move lib send kid (Storing forced now uri ks) (h, locked) =
     Some (Reading forced,
       h\<lparr>hj_cache := (hj_cache h)\<lparr>kc_keys := ks, kc_fetched_at := Some now, kc_jwks_uri := Some uri\<rparr>\<rparr>, False)"
| "lookup_move lib send kid (Reading forced) (h, locked) =
     Some (case hm_get (kc_keys (hj_cache h)) kid of
             Some key \<Rightarrow> Answered (Inr key)
           | None \<Rightarrow> if forced then Answered (Inl JwksNotFound) else Queueing True, h, locked)"
| "lookup_move lib send kid (Answered r) (h, locked) = None"
| "lookup_move lib send kid Abandoned (h, locked) = None"

fun holds_lock :: "lookup \<Rightarrow> bool" where
  "holds_lock (Deciding _) = True"
| "holds_lock (Recording _) = True"
| "holds_lock (Locating _ _) = True"
| "holds_lock (Discovering _ _) = True"
| "holds_lock (Fetching _ _ _) = True"
| "holds_lock (Storing _ _ _ _) = True"
| "holds_lock _ = False"

fun over :: "lookup \<Rightarrow> bool" where
  "over (Answered _) = True"
| "over Abandoned = True"
| "over _ = False"

text \<open>The requests with their key identifiers, and the history of the refreshes: the forced ones that were let
  through, and those that have stored keys, with the flag; latest first.\<close>

record 'n lookups =
  lk_jwks :: "'n http_jwks"
  lk_locked :: bool
  lk_requests :: "(string \<times> lookup) list"
  lk_forced :: "instant list"
  lk_stored :: "(bool \<times> instant) list"

fun log_forced :: "lookup \<Rightarrow> instant list \<Rightarrow> instant list" where
  "log_forced (Recording now) ts = now # ts"
| "log_forced _ ts = ts"

fun log_stored :: "lookup \<Rightarrow> (bool \<times> instant) list \<Rightarrow> (bool \<times> instant) list" where
  "log_stored (Storing forced now _ _) fs = (forced, now) # fs"
| "log_stored _ fs = fs"

inductive lookup_step :: "net_lib \<Rightarrow> 'n sender \<Rightarrow> 'n lookups \<Rightarrow> 'n lookups \<Rightarrow> bool" for lib send where
  arrive: "lookup_step lib send s (s\<lparr>lk_requests := lk_requests s @ [(kid, Begin)]\<rparr>)"
| move: "r < length (lk_requests s) \<Longrightarrow> lk_requests s ! r = (kid, ph) \<Longrightarrow>
    lookup_move lib send kid ph (lk_jwks s, lk_locked s) = Some (ph', h, locked) \<Longrightarrow>
    lookup_step lib send s \<lparr>lk_jwks = h, lk_locked = locked, lk_requests = (lk_requests s)[r := (kid, ph')],
      lk_forced = log_forced ph (lk_forced s), lk_stored = log_stored ph (lk_stored s)\<rparr>"
| abandon: "r < length (lk_requests s) \<Longrightarrow> lk_requests s ! r = (kid, ph) \<Longrightarrow> \<not> over ph \<Longrightarrow>
    lookup_step lib send s (s\<lparr>lk_jwks := (lk_jwks s)\<lparr>hj_network := n\<rparr>, lk_locked := lk_locked s \<and> \<not> holds_lock ph,
      lk_requests := (lk_requests s)[r := (kid, Abandoned)]\<rparr>)"

text \<open>Readings of a clock that does not go back.\<close>

definition ticking :: "instant stream \<Rightarrow> bool" where
  "ticking clock \<longleftrightarrow> (\<forall>i. clock !! i \<le> clock !! Suc i)"

definition lookups_start :: "'n lookups \<Rightarrow> bool" where
  "lookups_start s \<longleftrightarrow> \<not> lk_locked s \<and> lk_requests s = [] \<and> lk_forced s = [] \<and> lk_stored s = []
     \<and> ticking (hj_clock (lk_jwks s))
     \<and> (\<exists>lib issuer refresh_secs n clock. http_jwks_new lib issuer refresh_secs n clock = Inr (lk_jwks s))"

lemma ticking_stl [simp]: "ticking clock \<Longrightarrow> ticking (stl clock)"
  unfolding ticking_def by (metis snth.simps(2))

lemma ticking_shd: "ticking clock \<Longrightarrow> shd clock \<le> shd (stl clock)"
  unfolding ticking_def by (metis snth.simps)

section \<open>Accounting\<close>

text \<open>What holds of the shared state between any two accesses.\<close>

definition cache_ok :: "net_lib \<Rightarrow> 'n http_jwks \<Rightarrow> bool" where
  "cache_ok lib h \<longleftrightarrow> keys_sound lib (hj_cache h) \<and> ticking (hj_clock h)
     \<and> (\<forall>t. kc_fetched_at (hj_cache h) = Some t \<longrightarrow> t \<le> shd (hj_clock h))"

text \<open>A refresh under way: its time has come and is not before the last refresh, and what let it through still does.\<close>

definition underway :: "'n http_jwks \<Rightarrow> bool \<Rightarrow> instant \<Rightarrow> bool" where
  "underway h forced now \<longleftrightarrow> now \<le> shd (hj_clock h) \<and> (\<forall>t. kc_fetched_at (hj_cache h) = Some t \<longrightarrow> t \<le> now)
     \<and> (\<not> forced \<longrightarrow> refresh_due False now (hj_refresh_after h) (hj_cache h))"

fun flight_ok :: "net_lib \<Rightarrow> 'n http_jwks \<Rightarrow> lookup \<Rightarrow> bool" where
  "flight_ok lib h (Recording now) =
     (underway h True now \<and> refresh_due True now (hj_refresh_after h) (hj_cache h))"
| "flight_ok lib h (Locating forced now) = underway h forced now"
| "flight_ok lib h (Discovering forced now) = underway h forced now"
| "flight_ok lib h (Fetching forced now _) = underway h forced now"
| "flight_ok lib h (Storing forced now _ ks) =
     (underway h forced now \<and> (\<forall>kid ck. hm_get ks kid = Some ck \<longrightarrow> (\<exists>k. cacheable_key lib k = Some (kid, ck))))"
| "flight_ok lib h _ = True"

fun answer_ok :: "net_lib \<Rightarrow> string \<Rightarrow> lookup \<Rightarrow> bool" where
  "answer_ok lib kid (Answered (Inr ck)) = (\<exists>k. cacheable_key lib k = Some (kid, ck))"
| "answer_ok lib kid _ = True"

lemma lookup_move_ok:
  assumes "lookup_move lib send kid ph (h, locked) = Some (ph', h', locked')" and "cache_ok lib h" and "flight_ok lib h ph"
  shows "cache_ok lib h'" "flight_ok lib h' ph'" "answer_ok lib kid ph'"
proof -
  have sound: "\<exists>k. cacheable_key lib k = Some (kid, ck)"
    if "fetch_keys lib send uri n = (Inr ks, n1)" "hm_get ks kid = Some ck" for uri n ks n1 kid ck
    using that fetch_keys_sound [of lib send uri n ks kid ck] by simp
  have ticks: "shd (hj_clock h) \<le> shd (stl (hj_clock h))"
    using assms(2) by (simp add: cache_ok_def ticking_shd)
  show "cache_ok lib h'"
    using assms ticks
    by (cases ph) (auto simp: cache_ok_def keys_sound_def underway_def Let_def
        split: option.splits if_splits prod.splits sum.splits intro: order_trans)
  show "flight_ok lib h' ph'"
    using assms ticks sound
    by (cases ph) (auto simp: cache_ok_def underway_def refresh_due_def Let_def
        split: option.splits if_splits prod.splits sum.splits intro: order_trans)
  show "answer_ok lib kid ph'"
    using assms by (cases ph) (auto simp: cache_ok_def keys_sound_def Let_def
        split: option.splits if_splits prod.splits sum.splits)
qed

lemma lookup_move_lock:
  assumes "lookup_move lib send kid ph (h, locked) = Some (ph', h', locked')" and "holds_lock ph \<Longrightarrow> locked"
  shows "(if locked' then 1 else 0) + (if holds_lock ph then 1 else 0)
    = (if locked then 1 else 0) + (if holds_lock ph' then 1 else (0::nat))"
  using assms by (cases ph) (auto simp: Let_def split: option.splits if_splits prod.splits sum.splits)

text \<open>A request without the lock changes nothing a request with the lock relies on.\<close>

lemma lookup_move_outside:
  assumes "lookup_move lib send kid ph (h, locked) = Some (ph', h', locked')" and "\<not> holds_lock ph"
    and "cache_ok lib h" and "flight_ok lib h other"
  shows "flight_ok lib h' other"
proof -
  have "hj_cache h' = hj_cache h" "hj_refresh_after h' = hj_refresh_after h" "shd (hj_clock h) \<le> shd (hj_clock h')"
    using assms(1-3) by (cases ph; auto simp: cache_ok_def ticking_shd split: option.splits if_splits)+
  with assms(4) show ?thesis by (cases other) (auto simp: underway_def)
qed

lemma flight_ok_free: "\<not> holds_lock ph \<Longrightarrow> flight_ok lib h ph"
  by (cases ph) auto

section \<open>History\<close>

text \<open>
  Forced refreshes are thirty seconds apart, and an ordinary refresh that stores keys comes at least the configured age after
  every earlier one, forced or not.
\<close>

definition spaced :: "duration \<Rightarrow> bool \<times> instant \<Rightarrow> bool \<times> instant \<Rightarrow> bool" where
  "spaced age later earlier \<longleftrightarrow> snd earlier \<le> snd later \<and> (\<not> fst later \<longrightarrow> snd earlier + age \<le> snd later)"

definition history_ok :: "'n http_jwks \<Rightarrow> instant list \<Rightarrow> (bool \<times> instant) list \<Rightarrow> bool" where
  "history_ok h forced stored \<longleftrightarrow> jwks_inv \<lparr>jx_jwks = h, jx_now = 0, jx_forced = forced\<rparr>
     \<and> kc_fetched_at (hj_cache h) = (case stored of [] \<Rightarrow> None | (_, t) # _ \<Rightarrow> Some t)
     \<and> sorted_wrt (spaced (hj_refresh_after h)) stored"

lemma stored_spacing:
  assumes "history_ok h forced stored" and "underway h flag now"
  shows "sorted_wrt (spaced (hj_refresh_after h)) ((flag, now) # stored)"
proof (cases stored)
  case (Cons x rest)
  obtain f t where x: "x = (f, t)" by fastforce
  have "kc_fetched_at (hj_cache h) = Some t" using assms(1) Cons x by (simp add: history_ok_def)
  with assms(2) have t: "t \<le> now" "\<not> flag \<longrightarrow> t + hj_refresh_after h \<le> now" by (auto simp: underway_def refresh_due_def)
  moreover have "list_all (\<lambda>y. snd y \<le> t) rest" "sorted_wrt (spaced (hj_refresh_after h)) stored"
    using assms(1) Cons x by (auto simp: history_ok_def spaced_def list_all_iff)
  ultimately show ?thesis using Cons x by (fastforce simp: spaced_def list_all_iff)
qed simp

lemma lookup_move_history:
  assumes "lookup_move lib send kid ph (h, locked) = Some (ph', h', locked')" and "flight_ok lib h ph"
    and "history_ok h forced stored"
  shows "history_ok h' (log_forced ph forced) (log_stored ph stored)"
proof (cases ph)
  case (Recording now)
  with assms have "refresh_due True now (hj_refresh_after h) (hj_cache h)"
      "jwks_inv \<lparr>jx_jwks = h, jx_now = 0, jx_forced = forced\<rparr>" by (simp_all add: history_ok_def)
  with forced_spacing [of "\<lparr>jx_jwks = h, jx_now = 0, jx_forced = forced\<rparr>" now "hj_refresh_after h"] assms(1,3) Recording
  show ?thesis by (auto simp: history_ok_def jwks_inv_def)
next
  case (Storing flag now uri ks)
  with assms stored_spacing [OF assms(3), of flag now] show ?thesis by (auto simp: history_ok_def jwks_inv_def)
qed (use assms(1,3) in \<open>auto simp: history_ok_def jwks_inv_def Let_def split: option.splits if_splits prod.splits sum.splits\<close>)

section \<open>The invariant\<close>

definition lookups_ok :: "net_lib \<Rightarrow> 'n lookups \<Rightarrow> bool" where
  "lookups_ok lib s \<longleftrightarrow>
     tally (\<lambda>rq. holds_lock (snd rq)) (lk_requests s) = (if lk_locked s then 1 else 0)
     \<and> cache_ok lib (lk_jwks s) \<and> history_ok (lk_jwks s) (lk_forced s) (lk_stored s)
     \<and> list_all (\<lambda>(kid, ph). flight_ok lib (lk_jwks s) ph \<and> answer_ok lib kid ph) (lk_requests s)"

lemma list_all_update:
  assumes "r < length xs" and "Q y" and "\<And>i. i < length xs \<Longrightarrow> i \<noteq> r \<Longrightarrow> Q (xs ! i)"
  shows "list_all Q (xs[r := y])"
  using assms by (auto simp: list_all_length nth_list_update)

text \<open>One request goes from one phase to another; the others are left where they are.\<close>

lemma lookups_ok_update:
  assumes "lookups_ok lib s" and "r < length (lk_requests s)" and "lk_requests s ! r = (kid, ph)"
    and lock: "(if locked then 1 else 0) + (if holds_lock ph then 1 else 0)
      = (if lk_locked s then 1 else 0) + (if holds_lock ph' then 1 else (0::nat))"
    and "cache_ok lib h" and "history_ok h forced stored" and "flight_ok lib h ph'" and "answer_ok lib kid ph'"
    and outside: "\<And>other. \<not> holds_lock ph \<Longrightarrow> flight_ok lib (lk_jwks s) other \<Longrightarrow> flight_ok lib h other"
  shows "lookups_ok lib \<lparr>lk_jwks = h, lk_locked = locked, lk_requests = (lk_requests s)[r := (kid, ph')],
    lk_forced = forced, lk_stored = stored\<rparr>"
proof -
  let ?held = "\<lambda>rq :: string \<times> lookup. holds_lock (snd rq)"
  have tally: "tally ?held (lk_requests s) = (if lk_locked s then 1 else 0)" using assms(1) by (simp add: lookups_ok_def)
  have "flight_ok lib h other \<and> answer_ok lib kid' other"
    if i: "i < length (lk_requests s)" "i \<noteq> r" "lk_requests s ! i = (kid', other)" for i kid' other
  proof -
    have "flight_ok lib (lk_jwks s) other \<and> answer_ok lib kid' other"
      using assms(1) i by (auto simp: lookups_ok_def list_all_length)
    moreover have "\<not> holds_lock other" if "holds_lock ph"
      using two_in_tally [of i "lk_requests s" r ?held] tally i assms(2,3) that by (auto split: if_splits)
    ultimately show ?thesis using outside flight_ok_free by blast
  qed
  then have "list_all (\<lambda>(kid, ph). flight_ok lib h ph \<and> answer_ok lib kid ph) ((lk_requests s)[r := (kid, ph')])"
    using assms(2,7,8) by (intro list_all_update) (auto split: prod.splits)
  moreover have "tally ?held ((lk_requests s)[r := (kid, ph')]) = (if locked then 1 else 0)"
    using tally_update [OF assms(2), of ?held "(kid, ph')"] lock tally assms(3) by (auto split: if_splits)
  ultimately show ?thesis using assms(5,6) by (simp add: lookups_ok_def)
qed

lemma holder_locks:
  assumes "lookups_ok lib s" "r < length (lk_requests s)" "lk_requests s ! r = (kid, ph)" "holds_lock ph"
  shows "lk_locked s"
  using assms tally_pos [of r "lk_requests s" "\<lambda>rq. holds_lock (snd rq)"] by (auto simp: lookups_ok_def split: if_splits)

interpretation lookups: step_system lookups_start "lookup_step lib send" "lookups_ok lib"
  for lib and send :: "'n sender"
proof
  fix s t :: "'n lookups"
  show "lookups_ok lib s" if "lookups_start s"
    using that by (auto simp: lookups_start_def lookups_ok_def cache_ok_def history_ok_def jwks_inv_def keys_sound_def tally_def
        dest!: fresh_jwks_cache)
  assume inv: "lookups_ok lib s"
  assume "lookup_step lib send s t"
  then show "lookups_ok lib t"
  proof cases
    case (arrive kid)
    then show ?thesis using inv by (simp add: lookups_ok_def)
  next
    case (move r kid ph ph' h locked)
    have ok: "cache_ok lib (lk_jwks s)" "flight_ok lib (lk_jwks s) ph" "history_ok (lk_jwks s) (lk_forced s) (lk_stored s)"
      using inv move(2,3) by (auto simp: lookups_ok_def list_all_length)
    note moved = lookup_move_ok [OF move(4) ok(1,2)] lookup_move_history [OF move(4) ok(2,3)]
    show ?thesis unfolding move(1)
      by (rule lookups_ok_update [OF inv move(2,3) lookup_move_lock [OF move(4) holder_locks [OF inv move(2,3)]]
            moved(1,4,2,3) lookup_move_outside [OF move(4) _ ok(1)]])
  next
    case (abandon r kid ph n)
    let ?h = "(lk_jwks s)\<lparr>hj_network := n\<rparr>"
    have same: "flight_ok lib ?h other \<longleftrightarrow> flight_ok lib (lk_jwks s) other" for other
      by (cases other) (simp_all add: underway_def)
    have "cache_ok lib ?h" "history_ok ?h (lk_forced s) (lk_stored s)"
      using inv by (simp_all add: lookups_ok_def cache_ok_def history_ok_def jwks_inv_def)
    from lookups_ok_update [OF inv abandon(2,3) _ this, of "lk_locked s \<and> \<not> holds_lock ph" Abandoned]
    show ?thesis using holder_locks [OF inv abandon(2,3)] same unfolding abandon(1) by (cases s) (auto split: if_splits)
  qed
qed

lemma lookup_move_blocked:
  "lookup_move lib send kid ph (h, locked) = None \<Longrightarrow> over ph \<or> locked \<and> \<not> holds_lock ph"
  by (cases ph) (auto simp: Let_def split: option.splits if_splits prod.splits sum.splits)

lemma someone_moves:
  assumes "tally (\<lambda>rq. holds_lock (snd rq)) rqs = (if locked then 1 else 0)"
    and "r < length rqs" "\<not> over (snd (rqs ! r))"
  shows "\<exists>r' < length rqs. case rqs ! r' of (kid, ph) \<Rightarrow> lookup_move lib send kid ph (h, locked) \<noteq> None"
proof -
  have moves: "lookup_move lib send kid ph (h, locked) \<noteq> None" if "\<not> over ph" "locked \<Longrightarrow> holds_lock ph" for kid ph
    using lookup_move_blocked that by blast
  obtain r' where "r' < length rqs" "\<not> over (snd (rqs ! r'))" "locked \<Longrightarrow> holds_lock (snd (rqs ! r'))"
  proof (cases locked)
    case True
    with assms(1) tally_exists [of "\<lambda>rq. holds_lock (snd rq)" rqs] obtain r' where "r' < length rqs" "holds_lock (snd (rqs ! r'))"
      by auto
    moreover from this(2) have "\<not> over (snd (rqs ! r'))" by (cases "snd (rqs ! r')") auto
    ultimately show ?thesis by (auto intro: that)
  qed (use assms(2,3) that in blast)
  then show ?thesis using moves [of "snd (rqs ! r')" "fst (rqs ! r')"] by (intro exI [of _ r']) (simp add: case_prod_beta)
qed

section \<open>What concurrent lookups are promised\<close>

definition talks :: "lookup \<Rightarrow> bool" where
  "talks ph \<longleftrightarrow> (\<exists>forced now. ph = Discovering forced now) \<or> (\<exists>forced now uri. ph = Fetching forced now uri)"

lemma spaced_pair:
  assumes "sorted_wrt (spaced age) (newer @ (False, t) # older)" and "(flag, t') \<in> set older"
  shows "t' + age \<le> t"
  using assms by (auto simp: sorted_wrt_append spaced_def)


text \<open>Runs by explicit events.\<close>

datatype lookup_event = Arrival string | Turn nat | Drop nat

fun run_lookups :: "net_lib \<Rightarrow> 'n sender \<Rightarrow> lookup_event list \<Rightarrow> 'n lookups \<Rightarrow> 'n lookups option" where
  "run_lookups lib send [] s = Some s"
| "run_lookups lib send (Arrival kid # es) s = run_lookups lib send es (s\<lparr>lk_requests := lk_requests s @ [(kid, Begin)]\<rparr>)"
| "run_lookups lib send (Turn r # es) s =
     (if r < length (lk_requests s)
      then (case lk_requests s ! r of (kid, ph) \<Rightarrow>
              (case lookup_move lib send kid ph (lk_jwks s, lk_locked s) of
                 Some (ph', h, locked) \<Rightarrow>
                   run_lookups lib send es \<lparr>lk_jwks = h, lk_locked = locked, lk_requests = (lk_requests s)[r := (kid, ph')],
                     lk_forced = log_forced ph (lk_forced s), lk_stored = log_stored ph (lk_stored s)\<rparr>
               | None \<Rightarrow> None))
      else None)"
| "run_lookups lib send (Drop r # es) s =
     (if r < length (lk_requests s)
      then (case lk_requests s ! r of (kid, ph) \<Rightarrow>
              if over ph then None
              else run_lookups lib send es (s\<lparr>lk_locked := lk_locked s \<and> \<not> holds_lock ph, lk_requests := (lk_requests s)[r := (kid, Abandoned)]\<rparr>))
      else None)"

lemma run_lookups_steps: "run_lookups lib send es s = Some t \<Longrightarrow> (lookup_step lib send)\<^sup>*\<^sup>* s t"
proof (induction lib send es s rule: run_lookups.induct)
  case (2 lib send kid es s)
  then show ?case by (auto intro: converse_rtranclp_into_rtranclp lookup_step.arrive)
next
  case (3 lib send r es s)
  then show ?case
    by (auto intro: converse_rtranclp_into_rtranclp lookup_step.move split: if_splits prod.splits option.splits)
next
  case (4 lib send r es s)
  have "lookup_step lib send s (s\<lparr>lk_locked := lk_locked s \<and> \<not> holds_lock ph, lk_requests := (lk_requests s)[r := (kid, Abandoned)]\<rparr>)"
    if "r < length (lk_requests s)" "lk_requests s ! r = (kid, ph)" "\<not> over ph" for kid ph
    using lookup_step.abandon [OF that, of lib send "hj_network (lk_jwks s)"] by simp
  with 4 show ?case by (auto intro: converse_rtranclp_into_rtranclp split: if_splits prod.splits)
qed simp

text \<open>
  An issuer that publishes the key \<open>old\<close> at first and \<open>new\<close> from the second key document on. A lookup takes the old
  key. A second one wants the new key and is dropped while it fetches; a third, right after, wants it too.
\<close>

definition rotating_lib :: net_lib where
  "rotating_lib = demo_net\<lparr>nl_key_set := (\<lambda>body. Inr [demo_key\<lparr>jk_id := Some body\<rparr>])\<rparr>"

definition rotating :: "nat sender" where
  "rotating request limit n = (OutResponse 200 (Inr (if n < 2 then ''old'' else ''new'')), n + 1)"

definition rotation_start :: "nat lookups" where
  "rotation_start = \<lparr>lk_jwks = projr (http_jwks_new demo_net ''https://issuer'' 300 0 (sconst 0)), lk_locked = False,
     lk_requests = [], lk_forced = [], lk_stored = []\<rparr>"

definition rotation_events :: "lookup_event list" where
  "rotation_events = [Arrival ''old'', Turn 0, Turn 0, Turn 0, Turn 0, Turn 0, Turn 0, Turn 0, Turn 0,
     Arrival ''new'', Turn 1, Turn 1, Turn 1, Turn 1, Turn 1, Turn 1, Drop 1,
     Arrival ''new'', Turn 2, Turn 2, Turn 2, Turn 2, Turn 2]"

lemma rotation_starts: "lookups_start rotation_start"
  unfolding lookups_start_def rotation_start_def
  by (auto simp: ticking_def demo_jwks_unfold intro!: exI [of _ demo_net])

lemma rotation_run:
  "\<exists>t. run_lookups rotating_lib rotating rotation_events rotation_start = Some t
     \<and> lk_requests t = [(''old'', Answered (Inr \<lparr>ck_algorithm = Es256, ck_material = []\<rparr>)), (''new'', Abandoned),
         (''new'', Answered (Inl JwksNotFound))]
     \<and> lk_forced t = [0] \<and> lk_stored t = [(False, 0)] \<and> hj_network (lk_jwks t) = 2"
  by (simp add: rotation_events_def rotation_start_def demo_jwks_unfold refresh_due_def FORCED_REFRESH_INTERVAL_def from_secs_def
      fetch_discovery_def fetch_keys_def jwks_get_def validate_http_url_def request_bytes_def rotating_def rotating_lib_def
      require_success_def demo_key_def cacheable_key_def map_filter_def Let_def)



section \<open>One request alone\<close>

text \<open>The moves of one request while the others stand still.\<close>

definition solo ::
  "net_lib \<Rightarrow> 'n sender \<Rightarrow> string \<Rightarrow> lookup \<times> 'n http_jwks \<times> bool \<Rightarrow> lookup \<times> 'n http_jwks \<times> bool \<Rightarrow> bool" where
  "solo lib send kid x y \<longleftrightarrow> lookup_move lib send kid (fst x) (snd x) = Some y"

lemma solo_first: "lookup_move lib send kid ph sh = Some y \<Longrightarrow> (solo lib send kid)\<^sup>*\<^sup>* y z \<Longrightarrow> (solo lib send kid)\<^sup>*\<^sup>* (ph, sh) z"
  by (rule converse_rtranclp_into_rtranclp) (simp_all add: solo_def)

lemma solo_steps:
  assumes "(solo lib send kid)\<^sup>*\<^sup>* (ph, lk_jwks s, lk_locked s) (ph', h, locked)"
    and "r < length (lk_requests s)" and "lk_requests s ! r = (kid, ph)"
  shows "\<exists>t. (lookup_step lib send)\<^sup>*\<^sup>* s t \<and> lk_jwks t = h \<and> lk_locked t = locked
    \<and> lk_requests t = (lk_requests s)[r := (kid, ph')]"
  using assms(1)
proof (induction "(ph', h, locked)" arbitrary: ph' h locked rule: rtranclp_induct)
  case base
  then show ?case using assms(3) by (intro exI [of _ s]) (metis list_update_id rtranclp.rtrancl_refl)
next
  case (step y)
  obtain ph1 h1 locked1 where y: "y = (ph1, h1, locked1)" by (cases y) auto
  from step(3) [OF y] obtain t where t: "(lookup_step lib send)\<^sup>*\<^sup>* s t" "lk_jwks t = h1" "lk_locked t = locked1"
      "lk_requests t = (lk_requests s)[r := (kid, ph1)]" by blast
  have "lookup_move lib send kid ph1 (lk_jwks t, lk_locked t) = Some (ph', h, locked)"
    using step(2) y t by (simp add: solo_def)
  from lookup_step.move [OF _ _ this, of r] t assms(2) show ?case by (auto intro: rtranclp.rtrancl_into_rtrancl)
qed

lemma solo_fetch:
  "(solo lib send kid)\<^sup>*\<^sup>* (Fetching forced now uri, h, True)
     (case fetch_keys lib send uri (hj_network h) of
        (Inl e, n) \<Rightarrow> (Answered (Inl e), h\<lparr>hj_network := n\<rparr>, False)
      | (Inr ks, n) \<Rightarrow>
          (Reading forced, h\<lparr>hj_cache := (hj_cache h)\<lparr>kc_keys := ks, kc_fetched_at := Some now, kc_jwks_uri := Some uri\<rparr>,
             hj_network := n\<rparr>, False))"
  by (cases h) (auto split: prod.splits sum.splits intro!: solo_first)

lemma solo_locate:
  "(solo lib send kid)\<^sup>*\<^sup>* (Locating forced now, h, True)
     (case fetch_all lib send (hj_issuer h) (kc_jwks_uri (hj_cache h)) (hj_network h) of
        (Inl e, n) \<Rightarrow> (Answered (Inl e), h\<lparr>hj_network := n\<rparr>, False)
      | (Inr (uri, ks), n) \<Rightarrow>
          (Reading forced, h\<lparr>hj_cache := (hj_cache h)\<lparr>kc_keys := ks, kc_fetched_at := Some now, kc_jwks_uri := Some uri\<rparr>,
             hj_network := n\<rparr>, False))"
proof (cases "kc_jwks_uri (hj_cache h)")
  case (Some uri)
  then show ?thesis
    using solo_fetch [of lib send kid forced now uri h]
    by (intro solo_first [OF lookup_move.simps(5)]) (simp add: fetch_all_def split: prod.splits sum.splits)
next
  case None
  obtain d n where d: "fetch_discovery lib send (hj_issuer h) (hj_network h) = (d, n)" by fastforce
  have "(solo lib send kid)\<^sup>*\<^sup>* (Discovering forced now, h, True)
     (case fetch_all lib send (hj_issuer h) None (hj_network h) of
        (Inl e, n) \<Rightarrow> (Answered (Inl e), h\<lparr>hj_network := n\<rparr>, False)
      | (Inr (uri, ks), n) \<Rightarrow>
          (Reading forced, h\<lparr>hj_cache := (hj_cache h)\<lparr>kc_keys := ks, kc_fetched_at := Some now, kc_jwks_uri := Some uri\<rparr>,
             hj_network := n\<rparr>, False))"
  proof (cases d)
    case (Inl e)
    then show ?thesis by (intro solo_first) (auto simp: d fetch_all_def)
  next
    case (Inr uri)
    with solo_fetch [of lib send kid forced now uri "h\<lparr>hj_network := n\<rparr>"] show ?thesis
      by (intro solo_first) (auto simp: d fetch_all_def split: prod.splits sum.splits)
  qed
  with None show ?thesis by (intro solo_first [OF lookup_move.simps(5)]) simp
qed

lemma solo_refresh:
  "(solo lib send kid)\<^sup>*\<^sup>* (Queueing forced, h, False)
     (case jwks_refresh lib send forced h of
        (Inl e, h') \<Rightarrow> (Answered (Inl e), h', False)
      | (Inr _, h') \<Rightarrow> (Reading forced, h', False))"
proof -
  let ?now = "shd (hj_clock h)" and ?h0 = "h\<lparr>hj_clock := stl (hj_clock h)\<rparr>"
  let ?goal = "case jwks_refresh lib send forced h of
        (Inl e, h') \<Rightarrow> (Answered (Inl e), h', False)
      | (Inr _, h') \<Rightarrow> (Reading forced, h', False)"
  have "(solo lib send kid)\<^sup>*\<^sup>* (Deciding forced, h, True) ?goal"
  proof (cases "refresh_due forced ?now (hj_refresh_after h) (hj_cache h)")
    case False
    then show ?thesis by (intro solo_first) (auto simp: jwks_refresh_def)
  next
    case True
    let ?h1 = "?h0\<lparr>hj_cache := (if forced then (hj_cache h)\<lparr>kc_last_forced_refresh := Some ?now\<rparr> else hj_cache h)\<rparr>"
    have "(solo lib send kid)\<^sup>*\<^sup>* (Locating forced ?now, ?h1, True) ?goal"
      using solo_locate [of lib send kid forced ?now ?h1] True
      by (cases forced) (auto simp: jwks_refresh_def Let_def split: prod.splits sum.splits)
    then have "(solo lib send kid)\<^sup>*\<^sup>* (if forced then Recording ?now else Locating False ?now, ?h0, True) ?goal"
      by (cases forced) (auto intro: solo_first)
    with True show ?thesis by (intro solo_first) (simp_all add: Let_def)
  qed
  then show ?thesis by (intro solo_first) simp_all
qed

text \<open>
  A lookup that no other request disturbs answers what \<open>key_for\<close> does and leaves the shared state as it does, wherever the
  others stand.
\<close>

theorem lookup_alone_is_key_for:
  assumes "r < length (lk_requests s)" and "lk_requests s ! r = (kid, Begin)" and "\<not> lk_locked s"
  shows "\<exists>t. (lookup_step lib send)\<^sup>*\<^sup>* s t \<and> \<not> lk_locked t
    \<and> lk_requests t = (lk_requests s)[r := (kid, Answered (fst (key_for lib send kid (lk_jwks s))))]
    \<and> lk_jwks t = snd (key_for lib send kid (lk_jwks s))"
proof -
  have read_forced: "(solo lib send kid)\<^sup>*\<^sup>* (Queueing True, h, False)
      (Answered (case jwks_refresh lib send True h of
          (Inl e, h2) \<Rightarrow> Inl e
        | (Inr _, h2) \<Rightarrow> (case hm_get (kc_keys (hj_cache h2)) kid of Some key \<Rightarrow> Inr key | None \<Rightarrow> Inl JwksNotFound)),
       snd (jwks_refresh lib send True h), False)" for h
    by (rule rtranclp_trans [OF solo_refresh]) (auto intro!: solo_first split: prod.splits sum.splits option.splits)
  have read: "(solo lib send kid)\<^sup>*\<^sup>* (Reading False, h, False)
      (case hm_get (kc_keys (hj_cache h)) kid of
         Some key \<Rightarrow> (Answered (Inr key), h, False)
       | None \<Rightarrow> (Answered (case jwks_refresh lib send True h of
          (Inl e, h2) \<Rightarrow> Inl e
        | (Inr _, h2) \<Rightarrow> (case hm_get (kc_keys (hj_cache h2)) kid of Some key \<Rightarrow> Inr key | None \<Rightarrow> Inl JwksNotFound)),
       snd (jwks_refresh lib send True h), False))" for h
    using read_forced [of h] by (auto intro!: solo_first split: option.splits)
  have "(solo lib send kid)\<^sup>*\<^sup>* (Begin, lk_jwks s, False)
      (case refresh_if_needed lib send (lk_jwks s) of
         (Inl e, h) \<Rightarrow> (Answered (Inl e), h, False) | (Inr _, h) \<Rightarrow> (Reading False, h, False))"
  proof (cases "kc_fetched_at (hj_cache (lk_jwks s))")
    case None
    then have first: "lookup_move lib send kid Begin (lk_jwks s, False) = Some (Queueing False, lk_jwks s, False)" by simp
    show ?thesis using solo_first [OF first solo_refresh] None by (simp add: refresh_if_needed_def)
  next
    case (Some fetched)
    let ?h0 = "(lk_jwks s)\<lparr>hj_clock := stl (hj_clock (lk_jwks s))\<rparr>"
    have first: "lookup_move lib send kid Begin (lk_jwks s, False)
        = Some (if hj_refresh_after (lk_jwks s) \<le> shd (hj_clock (lk_jwks s)) - fetched then Queueing False else Reading False, ?h0, False)"
      using Some by simp
    show ?thesis
      by (rule solo_first [OF first]) (use Some solo_refresh [of lib send kid False ?h0] in \<open>simp add: refresh_if_needed_def Let_def\<close>)
  qed
  then have "(solo lib send kid)\<^sup>*\<^sup>* (Begin, lk_jwks s, False)
      (Answered (fst (key_for lib send kid (lk_jwks s))), snd (key_for lib send kid (lk_jwks s)), False)"
    by (rule rtranclp_trans)
      (use read [of "snd (refresh_if_needed lib send (lk_jwks s))"] in
        \<open>cases "refresh_if_needed lib send (lk_jwks s)"; auto simp: key_for_def split: prod.splits sum.splits option.splits\<close>)
  with assms(3) solo_steps [of lib send kid Begin s "Answered (fst (key_for lib send kid (lk_jwks s)))", OF _ assms(1,2)]
  show ?thesis by auto
qed

theorem lookup_alone_is_key_for_witness:
  "\<exists>t. (lookup_step rotating_lib rotating)\<^sup>*\<^sup>* (rotation_start\<lparr>lk_requests := [(''x'', Abandoned), (''old'', Begin)]\<rparr>) t
     \<and> lk_requests t = [(''x'', Abandoned), (''old'', Answered (Inr \<lparr>ck_algorithm = Es256, ck_material = []\<rparr>))]"
proof -
  let ?s = "rotation_start\<lparr>lk_requests := [(''x'', Abandoned), (''old'', Begin)]\<rparr>"
  have "fst (key_for rotating_lib rotating ''old'' (lk_jwks ?s)) = Inr \<lparr>ck_algorithm = Es256, ck_material = []\<rparr>"
    by (simp add: key_for_def refresh_if_needed_def rotation_start_def demo_jwks_unfold jwks_refresh_def refresh_due_def
        fetch_all_def fetch_discovery_def fetch_keys_def jwks_get_def validate_http_url_def request_bytes_def rotating_def
        rotating_lib_def require_success_def demo_key_def cacheable_key_def map_filter_def Let_def)
  with lookup_alone_is_key_for [of 1 ?s "''old''" rotating_lib rotating] show ?thesis by (auto simp: rotation_start_def)
qed

end
