(* ===== verification/Introspection_Interleaving.thy ===== *)
theory Introspection_Interleaving
  imports Introspection_Cache
begin

text \<open>
  Many introspections at once (\<open>JwtAuth::validate\<close> of \<open>src/adapters/jwt_auth.rs\<close>). A request reads the clock, looks its
  token up in the cache, and on a miss asks the authorization service, reads the clock again and
  records the answer. The accesses of different requests interleave in any order; a clock reading may be old when the
  lock is taken; a request may fail or be dropped while it waits for the service. What the service decides, and when, is
  free; \<open>lag\<close> bounds the time from the decision to the clock reading of the insertion (the five seconds
  of an outbound request and the scheduling of the task).

  The property bounds how long a revoked token is accepted. Records are kept in the order of their insertion, which
  need not be that of the decisions.
\<close>

section \<open>Checks\<close>

datatype check =
    Unchecked
  | LookingUp instant
  | Asking
  | Told bool instant
  | Storing bool instant instant
  | FromCache bool instant
  | FromService bool instant
  | Dropped

text \<open>The requests with the digests of their tokens, and all decisions of the service with their times.\<close>

record checks =
  ck_cache :: introspection_cache
  ck_now :: instant
  ck_requests :: "(bytes \<times> check) list"
  ck_decided :: "(bytes \<times> bool \<times> instant) list"

text \<open>What a request does by itself; the service's decision is made by the environment.\<close>

fun check_move :: "instant \<Rightarrow> bytes \<Rightarrow> check \<Rightarrow> introspection_cache \<Rightarrow> (check \<times> introspection_cache) option" where
  "check_move now d Unchecked c = Some (LookingUp now, c)"
| "check_move now d (LookingUp reading) c =
     (case cache_get reading d c of
        (Some active, c1) \<Rightarrow> Some (FromCache active reading, c1)
      | (None, c1) \<Rightarrow> Some (Asking, c1))"
| "check_move now d (Told active decided) c = Some (Storing active decided now, c)"
| "check_move now d (Storing active decided reading) c =
     Some (FromService active decided, cache_insert reading d active c)"
| "check_move now d _ c = None"

inductive check_step :: "duration \<Rightarrow> checks \<Rightarrow> checks \<Rightarrow> bool" for lag where
  tick: "ck_now s \<le> now \<Longrightarrow> check_step lag s (s\<lparr>ck_now := now\<rparr>)"
| arrive: "check_step lag s (s\<lparr>ck_requests := ck_requests s @ [(d, Unchecked)]\<rparr>)"
| move: "r < length (ck_requests s) \<Longrightarrow> ck_requests s ! r = (d, ph) \<Longrightarrow> check_move (ck_now s) d ph (ck_cache s) = Some (ph', c) \<Longrightarrow>
    (\<And>active decided. ph = Told active decided \<Longrightarrow> ck_now s \<le> decided + lag) \<Longrightarrow>
    check_step lag s (s\<lparr>ck_cache := c, ck_requests := (ck_requests s)[r := (d, ph')]\<rparr>)"
| decide: "r < length (ck_requests s) \<Longrightarrow> ck_requests s ! r = (d, Asking) \<Longrightarrow>
    check_step lag s (s\<lparr>ck_requests := (ck_requests s)[r := (d, Told active (ck_now s))],
      ck_decided := (d, active, ck_now s) # ck_decided s\<rparr>)"
| drop: "r < length (ck_requests s) \<Longrightarrow> ck_requests s ! r = (d, ph) \<Longrightarrow> ph = Asking \<or> (\<exists>active decided. ph = Told active decided) \<Longrightarrow>
    check_step lag s (s\<lparr>ck_requests := (ck_requests s)[r := (d, Dropped)]\<rparr>)"
| swept: "reading \<le> ck_now s \<Longrightarrow> check_step lag s (s\<lparr>ck_cache := snd (cache_sweep reading (ck_cache s))\<rparr>)"

definition checks_start :: "nat \<Rightarrow> checks \<Rightarrow> bool" where
  "checks_start ttl s \<longleftrightarrow> ck_cache s = cache_new ttl \<and> ck_requests s = [] \<and> ck_decided s = []"

section \<open>Where answers come from\<close>

text \<open>An entry goes back to a decision of the service and expires within the lifetime and the lag after it.\<close>

definition backed :: "duration \<Rightarrow> nat \<Rightarrow> (bytes \<times> bool \<times> instant) list \<Rightarrow> bytes \<Rightarrow> bool \<Rightarrow> instant \<Rightarrow> bool" where
  "backed lag ttl decisions d active expires \<longleftrightarrow>
     (\<exists>decided. (d, active, decided) \<in> set decisions \<and> expires \<le> decided + lag + from_secs ttl)"

fun check_ok :: "duration \<Rightarrow> nat \<Rightarrow> (bytes \<times> bool \<times> instant) list \<Rightarrow> bytes \<Rightarrow> check \<Rightarrow> bool" where
  "check_ok lag ttl decisions d (Told active decided) = ((d, active, decided) \<in> set decisions)"
| "check_ok lag ttl decisions d (Storing active decided reading) =
     ((d, active, decided) \<in> set decisions \<and> reading \<le> decided + lag)"
| "check_ok lag ttl decisions d (FromCache active reading) = backed lag ttl decisions d active (Suc reading)"
| "check_ok lag ttl decisions d (FromService active decided) = ((d, active, decided) \<in> set decisions)"
| "check_ok lag ttl decisions d _ = True"

definition entries_ok :: "duration \<Rightarrow> nat \<Rightarrow> (bytes \<times> bool \<times> instant) list \<Rightarrow> introspection_cache \<Rightarrow> bool" where
  "entries_ok lag ttl decisions c \<longleftrightarrow>
     cache_ok c \<and> ic_ttl_secs c = ttl \<and> ic_max_entries c = MAX_INTROSPECTION_ENTRIES
     \<and> length (ic_entries c) \<le> MAX_INTROSPECTION_ENTRIES
     \<and> (\<forall>d e. hm_get (ic_entries c) d = Some e \<longrightarrow> backed lag ttl decisions d (ce_active e) (ce_expires_at e))"

definition checks_ok :: "duration \<Rightarrow> nat \<Rightarrow> checks \<Rightarrow> bool" where
  "checks_ok lag ttl s \<longleftrightarrow> entries_ok lag ttl (ck_decided s) (ck_cache s)
     \<and> list_all (\<lambda>(d, ph). check_ok lag ttl (ck_decided s) d ph) (ck_requests s)"

lemma backed_mono: "backed lag ttl ds d a t \<Longrightarrow> backed lag ttl (x # ds) d a t"
  by (auto simp: backed_def)

lemma check_ok_mono: "check_ok lag ttl ds d ph \<Longrightarrow> check_ok lag ttl (x # ds) d ph"
  by (cases ph) (auto simp: backed_mono)

lemma entries_ok_mono: "entries_ok lag ttl ds c \<Longrightarrow> entries_ok lag ttl (x # ds) c"
  by (auto simp: entries_ok_def backed_mono)

lemma entries_ok_shrink:
  assumes "entries_ok lag ttl ds c" and "cache_ok c'" "ic_ttl_secs c' = ic_ttl_secs c" "ic_max_entries c' = ic_max_entries c"
    and "\<And>d e. hm_get (ic_entries c') d = Some e \<Longrightarrow>
      \<exists>e'. hm_get (ic_entries c) d = Some e' \<and> ce_active e = ce_active e' \<and> ce_expires_at e = ce_expires_at e'"
  shows "entries_ok lag ttl ds c'"
proof -
  have "length (ic_entries c') \<le> length (ic_entries c)"
  proof (rule hm_length_mono)
    show "dom (hm_get (ic_entries c')) \<subseteq> dom (hm_get (ic_entries c))" using assms(5) by (auto simp: dom_def)
  qed (use assms(1,2) in \<open>simp_all add: entries_ok_def cache_ok_def\<close>)
  moreover have "backed lag ttl ds d (ce_active e) (ce_expires_at e)" if found: "hm_get (ic_entries c') d = Some e" for d e
  proof -
    obtain e' where "hm_get (ic_entries c) d = Some e'" and same: "ce_active e = ce_active e'" "ce_expires_at e = ce_expires_at e'"
      using assms(5) [OF found] by blast
    then show ?thesis using assms(1) unfolding entries_ok_def same by blast
  qed
  ultimately show ?thesis using assms(1-4) by (simp add: entries_ok_def)
qed

lemma entries_ok_insert:
  assumes "entries_ok lag ttl ds c" and "(d, active, decided) \<in> set ds" and "reading \<le> decided + lag"
  shows "entries_ok lag ttl ds (cache_insert reading d active c)"
proof -
  have "cache_ok c" "length (ic_entries c) \<le> ic_max_entries c" "0 < ic_max_entries c"
    using assms(1) by (auto simp: entries_ok_def MAX_INTROSPECTION_ENTRIES_def)
  note ok = cache_insert_ok [OF this, of reading d active]
  have "backed lag ttl ds d' (ce_active e) (ce_expires_at e)"
    if "hm_get (ic_entries (cache_insert reading d active c)) d' = Some e" for d' e
    using ok(5) [OF that]
  proof (elim disjE conjE)
    assume "d' = d" "ce_active e = active" "ce_expires_at e = reading + from_secs (ic_ttl_secs c)"
    with assms show ?thesis unfolding backed_def by (intro exI [of _ decided]) (simp add: entries_ok_def)
  qed (use assms(1) in \<open>simp add: entries_ok_def\<close>)
  with ok(1-4) assms(1) show ?thesis by (simp add: entries_ok_def)
qed

lemma check_move_ok:
  assumes "check_move now d ph c = Some (ph', c')" and "entries_ok lag ttl ds c" and "check_ok lag ttl ds d ph"
    and "\<And>active decided. ph = Told active decided \<Longrightarrow> now \<le> decided + lag"
  shows "entries_ok lag ttl ds c' \<and> check_ok lag ttl ds d ph'"
proof (cases ph)
  case (LookingUp reading)
  obtain hit c1 where get: "cache_get reading d c = (hit, c1)" by fastforce
  have "cache_ok c" using assms(2) by (simp add: entries_ok_def)
  note ok = cache_get_ok [OF this get]
  have "c' = c1" using assms(1) LookingUp get by (cases hit) auto
  have "entries_ok lag ttl ds c1" by (rule entries_ok_shrink [OF assms(2)]) (use ok in blast)+
  moreover have "backed lag ttl ds d active (Suc reading)" if found: "hit = Some active" for active
  proof -
    obtain e where e: "hm_get (ic_entries c) d = Some e" "ce_active e = active" "reading < ce_expires_at e" using ok found by blast
    with assms(2) have "backed lag ttl ds d active (ce_expires_at e)" by (auto simp: entries_ok_def)
    with e(3) show ?thesis by (auto simp: backed_def intro: Suc_leI order_trans)
  qed
  ultimately show ?thesis using assms(1) LookingUp get by (cases hit) auto
next
  case (Storing active decided reading)
  with assms entries_ok_insert [OF assms(2), of d active decided reading] show ?thesis by auto
qed (use assms in auto)

lemma checks_ok_update:
  assumes "checks_ok lag ttl s" and "entries_ok lag ttl ds c" and "check_ok lag ttl ds d ph'"
    and "ds = ck_decided s \<or> (\<exists>x. ds = x # ck_decided s)"
  shows "checks_ok lag ttl \<lparr>ck_cache = c, ck_now = now, ck_requests = (ck_requests s)[r := (d, ph')], ck_decided = ds\<rparr>"
proof -
  have "list_all (\<lambda>(d, ph). check_ok lag ttl ds d ph) (ck_requests s)"
    using assms(1,4) unfolding checks_ok_def list_all_iff by (auto intro: check_ok_mono)
  then have "list_all (\<lambda>(d, ph). check_ok lag ttl ds d ph) ((ck_requests s)[r := (d, ph')])"
    using assms(3) by (auto simp: list_all_iff dest!: set_update_subset_insert [THEN subsetD])
  with assms(2) show ?thesis by (simp add: checks_ok_def)
qed

lemma request_ok:
  "checks_ok lag ttl s \<Longrightarrow> r < length (ck_requests s) \<Longrightarrow> ck_requests s ! r = (d, ph) \<Longrightarrow> check_ok lag ttl (ck_decided s) d ph"
  by (auto simp: checks_ok_def list_all_length)

interpretation checks: step_system "checks_start ttl" "check_step lag" "checks_ok lag ttl" for ttl lag
proof
  fix s t
  show "checks_ok lag ttl s" if "checks_start ttl s"
    using that by (simp add: checks_start_def checks_ok_def entries_ok_def cache_new_def cache_ok_def hm_wf_def bt_wf_def)
  assume inv: "checks_ok lag ttl s"
  then have ent: "entries_ok lag ttl (ck_decided s) (ck_cache s)" by (simp add: checks_ok_def)
  assume "check_step lag s t"
  then show "checks_ok lag ttl t"
  proof cases
    case (tick now)
    then show ?thesis using inv by (simp add: checks_ok_def)
  next
    case (arrive d)
    then show ?thesis using inv by (simp add: checks_ok_def)
  next
    case (move r d ph ph' c)
    note ok = check_move_ok [OF move(4) ent request_ok [OF inv move(2,3)] move(5)]
    show ?thesis using checks_ok_update [OF inv, of "ck_decided s" c d ph' "ck_now s" r] ok unfolding move(1) by (cases s) simp
  next
    case (decide r d active)
    have "entries_ok lag ttl ((d, active, ck_now s) # ck_decided s) (ck_cache s)" by (rule entries_ok_mono [OF ent])
    then show ?thesis
      using checks_ok_update [OF inv, of "(d, active, ck_now s) # ck_decided s" "ck_cache s" d "Told active (ck_now s)" "ck_now s" r]
      unfolding decide(1) by (cases s) simp
  next
    case (drop r d ph)
    show ?thesis using checks_ok_update [OF inv ent, of d Dropped "ck_now s" r] unfolding drop(1) by (cases s) simp
  next
    case (swept reading)
    have "cache_ok (ck_cache s)" using ent by (simp add: entries_ok_def)
    from cache_sweep_keeps [OF this] have "entries_ok lag ttl (ck_decided s) (snd (cache_sweep reading (ck_cache s)))"
      by (intro entries_ok_shrink [OF ent]) (auto simp: cache_sweep_def Let_def split: if_splits)
    then show ?thesis using inv swept by (simp add: checks_ok_def)
  qed
qed

section \<open>Revocation\<close>

text \<open>The clock reading at which a request took its token for active, or the time of the service's own verdict.\<close>

fun accepted_at :: "check \<Rightarrow> instant option" where
  "accepted_at (FromCache True reading) = Some reading"
| "accepted_at (FromService True decided) = Some decided"
| "accepted_at _ = None"


text \<open>Runs by explicit events: an arrival, the turn of a request, a decision of the service for it, or time passing.\<close>

datatype check_event = CheckArrival bytes | CheckTurn nat | CheckDecision nat bool | CheckTick instant

fun run_checks :: "check_event list \<Rightarrow> checks \<Rightarrow> checks option" where
  "run_checks [] s = Some s"
| "run_checks (CheckArrival d # es) s = run_checks es (s\<lparr>ck_requests := ck_requests s @ [(d, Unchecked)]\<rparr>)"
| "run_checks (CheckTurn r # es) s =
     (if r < length (ck_requests s)
      then (case ck_requests s ! r of (d, ph) \<Rightarrow>
              (case check_move (ck_now s) d ph (ck_cache s) of
                 Some (ph', c) \<Rightarrow> run_checks es (s\<lparr>ck_cache := c, ck_requests := (ck_requests s)[r := (d, ph')]\<rparr>)
               | None \<Rightarrow> None))
      else None)"
| "run_checks (CheckDecision r active # es) s =
     (if r < length (ck_requests s) \<and> snd (ck_requests s ! r) = Asking
      then (case ck_requests s ! r of (d, _) \<Rightarrow>
              run_checks es (s\<lparr>ck_requests := (ck_requests s)[r := (d, Told active (ck_now s))],
                ck_decided := (d, active, ck_now s) # ck_decided s\<rparr>))
      else None)"
| "run_checks (CheckTick now # es) s = (if ck_now s \<le> now then run_checks es (s\<lparr>ck_now := now\<rparr>) else None)"

text \<open>In a run that never waits longer than the lag every event is a step.\<close>

lemma run_checks_steps:
  assumes "run_checks es s = Some t" and "\<And>now. CheckTick now \<in> set es \<Longrightarrow> now \<le> lag" and "ck_now s \<le> lag"
  shows "(check_step lag)\<^sup>*\<^sup>* s t"
  using assms
proof (induction es s rule: run_checks.induct)
  case (2 d es s)
  then show ?case by (auto intro: converse_rtranclp_into_rtranclp check_step.arrive)
next
  case (3 r es s)
  then obtain d ph ph' c where m: "r < length (ck_requests s)" "ck_requests s ! r = (d, ph)"
      "check_move (ck_now s) d ph (ck_cache s) = Some (ph', c)" by (auto split: if_splits prod.splits option.splits)
  have "check_step lag s (s\<lparr>ck_cache := c, ck_requests := (ck_requests s)[r := (d, ph')]\<rparr>)"
    by (rule check_step.move [OF m]) (use 3 in simp)
  with 3 m show ?case by (auto intro: converse_rtranclp_into_rtranclp)
next
  case (4 r active es s)
  then obtain d where m: "r < length (ck_requests s)" "ck_requests s ! r = (d, Asking)" by (auto split: if_splits prod.splits)
  from check_step.decide [OF m, of lag active] 4 m show ?case by (auto intro: converse_rtranclp_into_rtranclp)
next
  case (5 now es s)
  then show ?case by (auto intro: converse_rtranclp_into_rtranclp check_step.tick split: if_splits)
qed simp

definition race_events :: "check_event list" where
  "race_events = [CheckArrival ''d'', CheckArrival ''d'', CheckTurn 0, CheckTurn 1, CheckTurn 0, CheckTurn 1,
     CheckDecision 0 True, CheckTick 1, CheckDecision 1 False, CheckTurn 1, CheckTurn 1, CheckTurn 0, CheckTurn 0,
     CheckArrival ''d'', CheckTick 2, CheckTurn 2, CheckTurn 2]"

definition race_start :: checks where
  "race_start = \<lparr>ck_cache = cache_new 60, ck_now = 0, ck_requests = [], ck_decided = []\<rparr>"

lemma race_run:
  "\<exists>t. run_checks race_events race_start = Some t \<and> ck_decided t = [(''d'', False, 1), (''d'', True, 0)]
     \<and> ck_requests t = [(''d'', FromService True 0), (''d'', FromService False 1), (''d'', FromCache True 2)]"
  by (simp add: race_events_def race_start_def cache_new_def cache_get_def cache_insert_def cache_make_room_def
      MAX_INTROSPECTION_ENTRIES_def from_secs_def Let_def)

lemma race_steps:
  obtains t where "(check_step 2)\<^sup>*\<^sup>* race_start t" "checks_start 60 race_start"
    "ck_decided t = [(''d'', False, 1), (''d'', True, 0)]"
    "ck_requests t = [(''d'', FromService True 0), (''d'', FromService False 1), (''d'', FromCache True 2)]"
proof -
  obtain t where t: "run_checks race_events race_start = Some t" "ck_decided t = [(''d'', False, 1), (''d'', True, 0)]"
    "ck_requests t = [(''d'', FromService True 0), (''d'', FromService False 1), (''d'', FromCache True 2)]"
    using race_run by blast
  have "(check_step 2)\<^sup>*\<^sup>* race_start t"
    by (rule run_checks_steps [OF t(1)]) (auto simp: race_events_def race_start_def)
  then show ?thesis using that t by (simp add: checks_start_def race_start_def)
qed


text \<open>
  The answer recorded last need not be the one given last: two requests ask, the service calls the token active and then,
  for the second, inactive; the second answer is recorded first and the first overwrites it. A third request, after both, finds
  the token active in the cache.
\<close>

theorem newer_verdict_overwritten:
  "\<exists>lag ttl s t. checks_start ttl s \<and> (check_step lag)\<^sup>*\<^sup>* s t \<and> hd (ck_decided t) = (''d'', False, 1)
     \<and> (''d'', FromService False 1) \<in> set (ck_requests t) \<and> (''d'', FromCache True 2) \<in> set (ck_requests t)"
proof -
  obtain t where t: "(check_step 2)\<^sup>*\<^sup>* race_start t" "checks_start 60 race_start"
    "ck_decided t = [(''d'', False, 1), (''d'', True, 0)]"
    "ck_requests t = [(''d'', FromService True 0), (''d'', FromService False 1), (''d'', FromCache True 2)]"
    by (rule race_steps)
  then show ?thesis by (intro exI [of _ 2] exI [of _ 60] exI [of _ race_start] exI [of _ t]) simp
qed

end
