(* ===== verification/Client_Setup.thy ===== *)
theory Client_Setup
  imports Pool_Manager
begin

text \<open>
  How Redis clients are configured: \<open>PoolManager::build\<close> (\<open>src/adapters/pool_manager.rs\<close>), the function that stands
  behind the parameter \<open>build\<close> of the pool manager, and \<open>FredExecutor::connect\<close> (\<open>src/adapters/fred_executor.rs\<close>). The
  client library is a parameter: reading a URL, making a client or a pool of clients from its settings, and the first connection.
  Settings that the code leaves at the library's default do not appear.
\<close>

section \<open>Settings\<close>

datatype resp_version = RESP2 | RESP3

datatype reconnect_policy = ConstantPolicy nat nat | ExponentialPolicy nat nat nat nat

record 'u client_settings =
  cs_config :: 'u
  cs_version :: resp_version
  cs_default_command_timeout :: duration
  cs_connection_timeout :: duration
  cs_internal_command_timeout :: duration
  cs_max_command_buffer_len :: nat
  cs_policy :: reconnect_policy

record ('u, 'c) fred_lib =
  fl_from_url :: "string \<Rightarrow> fred_error + 'u"
  fl_client :: "'u client_settings \<Rightarrow> 'c"
  fl_init :: "'c \<Rightarrow> fred_error + 'c"
  fl_pool :: "'u client_settings \<Rightarrow> nat \<Rightarrow> fred_error + (nat \<Rightarrow> 'c)"

section \<open>A pool of clients\<close>

definition pool_settings :: "config \<Rightarrow> pool_config \<Rightarrow> 'u \<Rightarrow> 'u client_settings" where
  "pool_settings cfg pc u =
     (let command_timeout = from_millis (command_timeout_ms pc) in
      \<lparr>cs_config = u, cs_version = RESP2, cs_default_command_timeout = command_timeout,
       cs_connection_timeout = from_millis (acquire_timeout_ms pc), cs_internal_command_timeout = command_timeout,
       cs_max_command_buffer_len = max (max_pipeline_commands (cf_server cfg)) 1,
       cs_policy = ExponentialPolicy 0 100 5000 2\<rparr>)"

definition fred_build :: "('u, 'c) fred_lib \<Rightarrow> config \<Rightarrow> pool_config \<Rightarrow> string + (nat \<Rightarrow> 'c)" where
  "fred_build lib cfg pc =
     (case fl_from_url lib (expose (connection_string pc)) of
        Inl e \<Rightarrow> Inl (fe_text e)
      | Inr u \<Rightarrow>
          (case fl_pool lib (pool_settings cfg pc u) (max_connections pc) of
             Inl e \<Rightarrow> Inl (fe_text e)
           | Inr client \<Rightarrow> Inr client))"

section \<open>A single client\<close>

text \<open>An executor that owns its connection task; dropping it aborts the task.\<close>

record 'c fred_owner =
  fo_executor :: "'c fred"
  fo_connection_task :: bool

definition fred_connect ::
  "('u, 'c) fred_lib \<Rightarrow> string \<Rightarrow> duration \<Rightarrow> duration \<Rightarrow> nat \<Rightarrow> exec_error + 'c fred_owner" where
  "fred_connect lib connection connection_timeout command_timeout max_command_buffer_len =
     (case fl_from_url lib connection of
        Inl e \<Rightarrow> Inl (map_fred_error e)
      | Inr u \<Rightarrow>
          (let client = fl_client lib \<lparr>cs_config = u, cs_version = RESP2, cs_default_command_timeout = command_timeout,
             cs_connection_timeout = connection_timeout, cs_internal_command_timeout = command_timeout,
             cs_max_command_buffer_len = max max_command_buffer_len 1, cs_policy = ConstantPolicy 1 100\<rparr> in
           case fl_init lib client of
             Inl e \<Rightarrow> Inl (map_fred_error e)
           | Inr online \<Rightarrow>
               Inr \<lparr>fo_executor = \<lparr>fr_client = online, fr_reset_started = False\<rparr>, fo_connection_task = True\<rparr>))"

definition fred_drop :: "'c fred_owner \<Rightarrow> 'c fred_owner" where
  "fred_drop x = x\<lparr>fo_connection_task := False\<rparr>"

section \<open>What the settings guarantee\<close>

text \<open>
  The client queues at most as many commands as its buffer holds. A pipeline that the parser accepts fits into the
  buffer of every pool; and for a configuration that was accepted, a command and the reset after it time out before the HTTP
  deadline of the request that waits for them, the wait for the connection included.
\<close>

lemma pool_settings_fit:
  assumes "validate parse_url parse_addr cfg = Inr ()" and "hm_get (cf_pools cfg) name = Some pc"
    and "parse_pipeline sj skips deserializer body (max_pipeline_commands (cf_server cfg)) max_elements = Inr cmds"
  shows "length cmds \<le> cs_max_command_buffer_len (pool_settings cfg pc u)
    \<and> cs_connection_timeout (pool_settings cfg pc u) + 2 * cs_default_command_timeout (pool_settings cfg pc u)
       < from_millis (http_timeout_ms (cf_server cfg))"
proof -
  have "pool_sound (http_timeout_ms (cf_server cfg)) pc"
    using assms(1,2) validate_pools_sound by (auto simp: validate_def res_bind_Inr_iff dest: map_of_SomeD)
  then have "acquire_timeout_ms pc + 2 * command_timeout_ms pc < http_timeout_ms (cf_server cfg)"
    by (simp add: pool_sound_def)
  moreover have "length cmds \<le> max_pipeline_commands (cf_server cfg)"
    using parse_pipeline_bounded [OF assms(3)] by simp
  ultimately show ?thesis by (simp add: pool_settings_def from_millis_def Let_def)
qed

end
