(* ===== verification/Redaction.thy ===== *)
theory Redaction
  imports Config
begin

text \<open>
  Debug output. \<open>Debug\<close> is derived for the configuration (\<open>src/config.rs\<close>), where connection strings and the introspection
  secret are of the type \<open>SecretString\<close> with its own implementation, and written out for an identity
  (\<open>src/domain/identity.rs\<close>), where the rate-limit key is hidden. A debug value is the tree that the formatter prints;
  the order in which a hash set prints its elements is left open by keeping it a set.

  The property is noninterference in both directions: two values print the same exactly if they differ in
  secrets only.
\<close>

section \<open>Debug trees\<close>

datatype debug =
    DbgText string
  | DbgBool bool
  | DbgNat nat
  | DbgBytes bytes
  | DbgRaw string
  | DbgNone
  | DbgSome debug
  | DbgSet "string set"
  | DbgMap "(debug \<times> debug) list"
  | DbgStruct string "(string \<times> debug) list"

fun debug_option :: "('a \<Rightarrow> debug) \<Rightarrow> 'a option \<Rightarrow> debug" where
  "debug_option d None = DbgNone"
| "debug_option d (Some x) = DbgSome (d x)"

definition debug_map :: "('k \<Rightarrow> debug) \<Rightarrow> ('v \<Rightarrow> debug) \<Rightarrow> ('k, 'v) hash_map \<Rightarrow> debug" where
  "debug_map dk dv m = DbgMap (map (\<lambda>(k, v). (dk k, dv v)) m)"

section \<open>Identities\<close>

definition identity_debug :: "identity \<Rightarrow> debug" where
  "identity_debug i =
     DbgStruct ''Identity''
       [(''subject'', DbgText (subject i)), (''bucket_key'', DbgText ''<redacted>''), (''pool'', DbgText (pool i)),
        (''read_only'', DbgBool (read_only i)), (''is_admin'', DbgBool (is_admin i)), (''legacy'', DbgBool (legacy i)),
        (''allowed_commands'', debug_option DbgSet (allowed_commands i)),
        (''blocked_commands'', DbgSet (blocked_commands i)),
        (''allowed_script_sha256'', DbgSet (allowed_script_sha256 i)),
        (''key_prefix'', debug_option DbgText (key_prefix i))]"

section \<open>The configuration\<close>

definition tls_config_debug :: "tls_config \<Rightarrow> debug" where
  "tls_config_debug t = DbgStruct ''TlsConfig'' [(''cert'', DbgText (tls_cert t)), (''key'', DbgText (tls_key t))]"

definition rate_limit_config_debug :: "rate_limit_config \<Rightarrow> debug" where
  "rate_limit_config_debug r =
     DbgStruct ''RateLimitConfig'' [(''per_token_commands_per_sec'', DbgNat (per_token_commands_per_sec r))]"

definition load_config_debug :: "load_config \<Rightarrow> debug" where
  "load_config_debug l =
     DbgStruct ''LoadConfig''
       [(''max_in_flight'', DbgNat (max_in_flight l)), (''max_response_bytes'', DbgNat (max_response_bytes l)),
        (''shed_retry_after_secs'', DbgNat (shed_retry_after_secs l)),
        (''body_read_timeout_ms'', DbgNat (body_read_timeout_ms l))]"

definition server_config_debug :: "server_config \<Rightarrow> debug" where
  "server_config_debug sv =
     DbgStruct ''ServerConfig''
       [(''port'', DbgNat (sv_port sv)), (''bind'', DbgText (sv_bind sv)), (''tls'', debug_option tls_config_debug (sv_tls sv)),
        (''max_body_bytes'', DbgNat (max_body_bytes sv)), (''max_pipeline_commands'', DbgNat (max_pipeline_commands sv)),
        (''max_request_elements'', DbgNat (max_request_elements sv)), (''http_timeout_ms'', DbgNat (http_timeout_ms sv)),
        (''rate_limit'', rate_limit_config_debug (sv_rate_limit sv)), (''load'', load_config_debug (sv_load sv)),
        (''metrics_bind'', DbgText (metrics_bind sv))]"

definition introspection_config_debug :: "introspection_config \<Rightarrow> debug" where
  "introspection_config_debug i =
     DbgStruct ''IntrospectionConfig''
       [(''enabled'', DbgBool (in_enabled i)), (''url'', DbgText (in_url i)), (''client_id'', DbgText (in_client_id i)),
        (''client_secret'', DbgRaw (secret_debug (in_client_secret i))), (''cache_secs'', DbgNat (in_cache_secs i))]"

definition jwt_config_debug :: "jwt_config \<Rightarrow> debug" where
  "jwt_config_debug j =
     DbgStruct ''JwtConfig''
       [(''issuer'', DbgText (jw_issuer j)), (''audience'', DbgText (jw_audience j)),
        (''jwks_refresh_secs'', DbgNat (jwks_refresh_secs j)), (''role_prefix'', DbgText (jw_role_prefix j)),
        (''client_id'', DbgText (jw_client_id j)),
        (''introspection'', introspection_config_debug (jw_introspection j))]"

definition static_token_config_debug :: "static_token_config \<Rightarrow> debug" where
  "static_token_config_debug t =
     DbgStruct ''StaticTokenConfig''
       [(''pool'', DbgText (st_pool t)), (''read_only'', DbgBool (st_read_only t)), (''legacy'', DbgBool (st_legacy t)),
        (''allowed_commands'', debug_option DbgSet (st_allowed_commands t)),
        (''blocked_commands'', DbgSet (st_blocked_commands t)),
        (''allowed_script_sha256'', DbgSet (st_allowed_script_sha256 t)),
        (''key_prefix'', debug_option DbgText (st_key_prefix t))]"

definition auth_config_debug :: "auth_config \<Rightarrow> debug" where
  "auth_config_debug a =
     DbgStruct ''AuthConfig''
       [(''jwt'', debug_option jwt_config_debug (au_jwt a)),
        (''static_tokens'', debug_map DbgBytes static_token_config_debug (au_static_tokens a))]"

definition breaker_config_debug :: "breaker_config \<Rightarrow> debug" where
  "breaker_config_debug b =
     DbgStruct ''BreakerConfig''
       [(''failure_threshold'', DbgNat (bc_failure_threshold b)), (''cooldown_ms'', DbgNat (bc_cooldown_ms b))]"

definition pool_config_debug :: "pool_config \<Rightarrow> debug" where
  "pool_config_debug p =
     DbgStruct ''PoolConfig''
       [(''connection_string'', DbgRaw (secret_debug (connection_string p))),
        (''max_connections'', DbgNat (max_connections p)), (''command_timeout_ms'', DbgNat (command_timeout_ms p)),
        (''acquire_timeout_ms'', DbgNat (acquire_timeout_ms p)), (''max_waiters'', DbgNat (max_waiters p)),
        (''breaker'', breaker_config_debug (pc_breaker p)),
        (''allowed_script_sha256'', DbgSet (pc_allowed_script_sha256 p))]"

definition config_debug :: "config \<Rightarrow> debug" where
  "config_debug c =
     DbgStruct ''Config''
       [(''server'', server_config_debug (cf_server c)), (''auth'', auth_config_debug (cf_auth c)),
        (''pools'', debug_map DbgText pool_config_debug (cf_pools c))]"

section \<open>What the secrets are\<close>

definition no_secret :: secret_string where
  "no_secret = SecretString []"

definition without_introspection_secret :: "introspection_config \<Rightarrow> introspection_config" where
  "without_introspection_secret i = i\<lparr>in_client_secret := no_secret\<rparr>"

definition without_jwt_secret :: "jwt_config \<Rightarrow> jwt_config" where
  "without_jwt_secret j = j\<lparr>jw_introspection := without_introspection_secret (jw_introspection j)\<rparr>"

definition without_pool_secret :: "pool_config \<Rightarrow> pool_config" where
  "without_pool_secret p = p\<lparr>connection_string := no_secret\<rparr>"

definition without_secrets :: "config \<Rightarrow> config" where
  "without_secrets c =
     c\<lparr>cf_auth := (cf_auth c)\<lparr>au_jwt := map_option without_jwt_secret (au_jwt (cf_auth c))\<rparr>,
       cf_pools := map (\<lambda>(name, p). (name, without_pool_secret p)) (cf_pools c)\<rparr>"

named_theorems prints

lemma debug_option_iff:
  assumes "\<And>x y. d x = d y \<longleftrightarrow> g x = g y"
  shows "debug_option d a = debug_option d b \<longleftrightarrow> map_option g a = map_option g b"
  using assms by (cases a; cases b) auto

lemma debug_option_inj [prints]:
  assumes "\<And>x y. d x = d y \<longleftrightarrow> x = y"
  shows "debug_option d a = debug_option d b \<longleftrightarrow> a = b"
  using debug_option_iff [of d "\<lambda>x. x"] assms by (simp add: option.map_ident)

lemma debug_map_iff:
  assumes "\<And>k l. dk k = dk l \<longleftrightarrow> k = l" and "\<And>v w. dv v = dv w \<longleftrightarrow> g v = g w"
  shows "debug_map dk dv m = debug_map dk dv n \<longleftrightarrow> map (\<lambda>(k, v). (k, g v)) m = map (\<lambda>(k, v). (k, g v)) n"
  unfolding debug_map_def debug.inject
proof (induction m arbitrary: n)
  case (Cons x m)
  then show ?case using assms by (cases x; cases n) auto
qed simp

lemma debug_map_inj [prints]:
  assumes "\<And>k l. dk k = dk l \<longleftrightarrow> k = l" and "\<And>v w. dv v = dv w \<longleftrightarrow> v = w"
  shows "debug_map dk dv m = debug_map dk dv n \<longleftrightarrow> m = n"
  using debug_map_iff [of dk dv "\<lambda>v. v"] assms by simp

lemma plain_prints [prints]:
  "tls_config_debug t = tls_config_debug t' \<longleftrightarrow> t = t'"
  "rate_limit_config_debug r = rate_limit_config_debug r' \<longleftrightarrow> r = r'"
  "load_config_debug l = load_config_debug l' \<longleftrightarrow> l = l'"
  "static_token_config_debug st = static_token_config_debug st' \<longleftrightarrow> st = st'"
  "breaker_config_debug b = breaker_config_debug b' \<longleftrightarrow> b = b'"
  by (auto simp: tls_config_debug_def rate_limit_config_debug_def load_config_debug_def static_token_config_debug_def
      breaker_config_debug_def debug_option_inj)

lemma server_prints [prints]: "server_config_debug sv = server_config_debug sv' \<longleftrightarrow> sv = sv'"
  by (auto simp: server_config_debug_def debug_option_inj plain_prints)

lemma introspection_prints [prints]:
  "introspection_config_debug i = introspection_config_debug i' \<longleftrightarrow>
   without_introspection_secret i = without_introspection_secret i'"
  by (cases i; cases i') (auto simp: introspection_config_debug_def without_introspection_secret_def secret_debug_def)

lemma jwt_prints [prints]: "jwt_config_debug j = jwt_config_debug j' \<longleftrightarrow> without_jwt_secret j = without_jwt_secret j'"
  by (cases j; cases j') (auto simp: jwt_config_debug_def without_jwt_secret_def introspection_prints)

lemma pool_prints [prints]: "pool_config_debug p = pool_config_debug p' \<longleftrightarrow> without_pool_secret p = without_pool_secret p'"
  by (cases p; cases p') (auto simp: pool_config_debug_def without_pool_secret_def secret_debug_def plain_prints)

lemma auth_prints:
  "auth_config_debug a = auth_config_debug a' \<longleftrightarrow>
     map_option without_jwt_secret (au_jwt a) = map_option without_jwt_secret (au_jwt a')
     \<and> au_static_tokens a = au_static_tokens a'"
  by (simp add: auth_config_debug_def debug_option_iff [OF jwt_prints] debug_map_inj plain_prints)

lemma config_prints: "config_debug c = config_debug c' \<longleftrightarrow> without_secrets c = without_secrets c'"
  by (cases c; cases c'; cases "cf_auth c"; cases "cf_auth c'")
    (auto simp: config_debug_def without_secrets_def auth_prints server_prints debug_map_iff [OF _ pool_prints])

text \<open>
  C34. Debug output reveals exactly what is not secret. Two configurations print the same text exactly if they differ at
  most in their connection strings and the introspection secret; two identities exactly if they differ at most in the
  rate-limit key. So no debug line depends on a secret, and none hides a setting that is not one.
\<close>

theorem debug_redacts_exactly:
  "(config_debug c = config_debug c' \<longleftrightarrow> without_secrets c = without_secrets c')
   \<and> (identity_debug i = identity_debug i' \<longleftrightarrow> i\<lparr>bucket_key := ''''\<rparr> = i'\<lparr>bucket_key := ''''\<rparr>)"
proof
  show "identity_debug i = identity_debug i' \<longleftrightarrow> i\<lparr>bucket_key := ''''\<rparr> = i'\<lparr>bucket_key := ''''\<rparr>"
    by (cases i; cases i') (auto simp: identity_debug_def debug_option_inj)
qed (rule config_prints)

end
