(* ===== verification/Handlers.thy ===== *)
theory Handlers
  imports App_State
begin

text \<open>
  The request handlers: \<open>src/http/command.rs\<close>, \<open>src/http/pipeline.rs\<close>,
  \<open>src/http/multi_exec.rs\<close>, \<open>src/http/health.rs\<close> and the routes of \<open>src/http/mod.rs\<close>.
  Each handler is the whole \<open>execute\<close> function, in the order of its calls and with all its early
  returns. \<open>serve_api\<close> is a route: the identity extractor, the handler, and the conversion of an
  error to a response.
\<close>

section \<open>Slots and the shared budget\<close>

datatype slot = SlotResult resp_value encoding | SlotError string

fun slot_json :: "(bytes \<Rightarrow> bytes) \<Rightarrow> slot \<Rightarrow> 'f json" where
  "slot_json encode (SlotResult v enc) = JObject [(''result'', response_json encode enc v)]"
| "slot_json encode (SlotError message) = JObject [(''error'', JString message)]"

text \<open>One result of a pipeline or a transaction, charged to what is left of the budget.\<close>

definition result_slot :: "encoding \<Rightarrow> exec_result \<Rightarrow> nat \<Rightarrow> (app_error + slot) \<times> nat" where
  "result_slot enc r budget =
     (case r of
        Inr v \<Rightarrow>
          (case charge_response_budget enc v budget of
             (Inl e, budget1) \<Rightarrow> (Inl (from_conversion_error e), budget1)
           | (Inr _, budget1) \<Rightarrow> (Inr (SlotResult v enc), budget1))
      | Inl (ExecRedis message) \<Rightarrow> (Inr (SlotError message), budget)
      | Inl ExecResponseTooLarge \<Rightarrow> (Inl ResponseTooLarge, budget)
      | Inl ExecTimeout \<Rightarrow> (Inr (SlotError ''Redis command timed out''), budget)
      | Inl (ExecTransport message) \<Rightarrow> (Inr (SlotError ''Internal server error''), budget))"

definition ok_response :: "'f json \<Rightarrow> 'f http_response" where
  "ok_response body = \<lparr>rs_status = 200, rs_body = body, rs_retry_after = None\<rparr>"

definition slots_response :: "(bytes \<Rightarrow> bytes) \<Rightarrow> slot list \<Rightarrow> 'f http_response" where
  "slots_response encode slots = ok_response (JArray (map (slot_json encode) slots))"

section \<open>A single command\<close>

fun command_parse_error :: "parse_error \<Rightarrow> app_error" where
  "command_parse_error ParseRequestTooComplex = BadRequest ''Request too complex''"
| "command_parse_error _ = BadRequest ''Invalid command''"

definition command_reply :: "'f libs \<Rightarrow> config \<Rightarrow> request \<Rightarrow> resp_value \<Rightarrow> app_error + 'f http_response" where
  "command_reply lib cfg rq v =
     (let enc = response_encoding lib rq in
      case charge_response_budget enc v (max_response_bytes (sv_load (cf_server cfg))) of
        (Inl e, _) \<Rightarrow> Inl (from_conversion_error e)
      | (Inr _, _) \<Rightarrow> Inr (ok_response (JObject [(''result'', response_json (lib_base64 lib) enc v)])))"

definition command_execute ::
  "'f libs \<Rightarrow> config \<Rightarrow> ('p, 'h) provider \<Rightarrow> identity \<Rightarrow> request
    \<Rightarrow> (('p, 's) app_state, app_error, 'f http_response) call" where
  "command_execute lib cfg pv ident rq =
     try_call (note_audit (audit_identity ident)) (\<lambda>_.
     try_call (read_body cfg rq) (\<lambda>body.
     case parse_command (lib_serde lib) (lib_deserializer lib) body (max_request_elements (cf_server cfg)) of
       Inl e \<Rightarrow> try_call (charge_rate_limit (bucket_key ident) 1) (\<lambda>_. return (Inl (command_parse_error e)))
     | Inr command \<Rightarrow>
         try_call (note_audit (audit_command (Some (cmd_name command)) 1)) (\<lambda>_.
         try_call (charge_rate_limit (bucket_key ident) 1) (\<lambda>_.
         case acl_check (lib_sha256 lib) ident command of
           Inl e \<Rightarrow> return (Inl (from_acl_error e))
         | Inr _ \<Rightarrow>
             try_call (acquire cfg pv (pool ident)) (\<lambda>h s.
             case on_provider (execute_and_release pv h (normalize command)) s of
               (Inl e, s1) \<Rightarrow> (Inl (map_exec_error cfg e), s1)
             | (Inr v, s1) \<Rightarrow> return (command_reply lib cfg rq v) s1)))))"

section \<open>Pipelines\<close>

fun pipeline_parse_error :: "parse_error \<Rightarrow> app_error" where
  "pipeline_parse_error ParseInvalid = BadRequest ''Invalid command''"
| "pipeline_parse_error ParsePipelineTooLarge = BadRequest ''Pipeline too large''"
| "pipeline_parse_error ParseRequestTooComplex = BadRequest ''Request too complex''"

text \<open>The commands that are let through, and the slots with those of the refused commands filled.\<close>

fun check_commands ::
  "(bytes \<Rightarrow> bytes) \<Rightarrow> identity \<Rightarrow> redis_command list \<Rightarrow> app_error + redis_command list \<times> slot option list" where
  "check_commands sha256 ident [] = Inr ([], [])"
| "check_commands sha256 ident (command # commands) =
     (case acl_check sha256 ident command of
        Inl AclInvalidCommand \<Rightarrow> Inl (from_acl_error AclInvalidCommand)
      | Inl (AclForbidden message) \<Rightarrow>
          res_bind (check_commands sha256 ident commands) (\<lambda>(allowed, slots).
            Inr (allowed, Some (SlotError message) # slots))
      | Inr _ \<Rightarrow>
          res_bind (check_commands sha256 ident commands) (\<lambda>(allowed, slots).
            Inr (normalize command # allowed, None # slots)))"

fun fill_slots ::
  "encoding \<Rightarrow> slot option list \<Rightarrow> exec_result list \<Rightarrow> nat \<Rightarrow> app_error + slot list" where
  "fill_slots enc [] results budget =
     (if results = [] then Inr [] else Inl (Internal ''pipeline executor returned too many results''))"
| "fill_slots enc (Some refused # slots) results budget =
     res_bind (fill_slots enc slots results budget) (\<lambda>rest. Inr (refused # rest))"
| "fill_slots enc (None # slots) [] budget = Inl (Internal ''pipeline executor returned too few results'')"
| "fill_slots enc (None # slots) (r # results) budget =
     (case result_slot enc r budget of
        (Inl e, _) \<Rightarrow> Inl e
      | (Inr slot, budget1) \<Rightarrow> res_bind (fill_slots enc slots results budget1) (\<lambda>rest. Inr (slot # rest)))"

definition pipeline_reply ::
  "'f libs \<Rightarrow> config \<Rightarrow> request \<Rightarrow> slot option list \<Rightarrow> exec_result list \<Rightarrow> app_error + 'f http_response" where
  "pipeline_reply lib cfg rq slots results =
     res_bind (fill_slots (response_encoding lib rq) slots results (max_response_bytes (sv_load (cf_server cfg))))
       (\<lambda>response. Inr (slots_response (lib_base64 lib) response))"

definition pipeline_execute ::
  "'f libs \<Rightarrow> config \<Rightarrow> ('p, 'h) provider \<Rightarrow> identity \<Rightarrow> request
    \<Rightarrow> (('p, 's) app_state, app_error, 'f http_response) call" where
  "pipeline_execute lib cfg pv ident rq =
     try_call (note_audit (audit_identity ident)) (\<lambda>_.
     try_call (read_body cfg rq) (\<lambda>body.
     case parse_pipeline (lib_serde lib) (lib_skips lib) (lib_deserializer lib) body
            (max_pipeline_commands (cf_server cfg)) (max_request_elements (cf_server cfg)) of
       Inl e \<Rightarrow> try_call (charge_rate_limit (bucket_key ident) 1) (\<lambda>_. return (Inl (pipeline_parse_error e)))
     | Inr commands \<Rightarrow>
         try_call (note_audit (audit_command (Some ''PIPELINE'') (length commands))) (\<lambda>_.
         try_call (charge_rate_limit (bucket_key ident) (length commands)) (\<lambda>_.
         case check_commands (lib_sha256 lib) ident commands of
           Inl e \<Rightarrow> return (Inl e)
         | Inr (allowed, slots) \<Rightarrow>
             if commands = [] then return (Inr (slots_response (lib_base64 lib) []))
             else if allowed = [] then return (pipeline_reply lib cfg rq slots [])
             else try_call (acquire cfg pv (pool ident)) (\<lambda>h s.
               case on_provider (pipeline_and_release pv h allowed) s of
                 (results, s1) \<Rightarrow> return (pipeline_reply lib cfg rq slots results) s1)))))"

section \<open>Transactions\<close>

fun check_all :: "(bytes \<Rightarrow> bytes) \<Rightarrow> identity \<Rightarrow> redis_command list \<Rightarrow> app_error + unit" where
  "check_all sha256 ident [] = Inr ()"
| "check_all sha256 ident (command # commands) =
     (case acl_check sha256 ident command of
        Inl e \<Rightarrow> Inl (from_acl_error e)
      | Inr _ \<Rightarrow> check_all sha256 ident commands)"

fun collect_slots :: "encoding \<Rightarrow> exec_result list \<Rightarrow> nat \<Rightarrow> app_error + slot list" where
  "collect_slots enc [] budget = Inr []"
| "collect_slots enc (r # results) budget =
     (case result_slot enc r budget of
        (Inl e, _) \<Rightarrow> Inl e
      | (Inr slot, budget1) \<Rightarrow> res_bind (collect_slots enc results budget1) (\<lambda>rest. Inr (slot # rest)))"

definition multi_exec_execute ::
  "'f libs \<Rightarrow> config \<Rightarrow> ('p, 'h) provider \<Rightarrow> identity \<Rightarrow> request
    \<Rightarrow> (('p, 's) app_state, app_error, 'f http_response) call" where
  "multi_exec_execute lib cfg pv ident rq =
     try_call (note_audit (audit_identity ident)) (\<lambda>_.
     try_call (read_body cfg rq) (\<lambda>body.
     case parse_pipeline (lib_serde lib) (lib_skips lib) (lib_deserializer lib) body
            (max_pipeline_commands (cf_server cfg)) (max_request_elements (cf_server cfg)) of
       Inl e \<Rightarrow> try_call (charge_rate_limit (bucket_key ident) 1) (\<lambda>_. return (Inl (pipeline_parse_error e)))
     | Inr commands \<Rightarrow>
         try_call (note_audit (audit_command (Some ''MULTI-EXEC'') (length commands))) (\<lambda>_.
         if commands = []
         then try_call (charge_rate_limit (bucket_key ident) 1) (\<lambda>_. return (Inl (BadRequest ''Invalid command'')))
         else
         try_call (charge_rate_limit (bucket_key ident) (length commands)) (\<lambda>_.
         case check_all (lib_sha256 lib) ident commands of
           Inl e \<Rightarrow> return (Inl e)
         | Inr _ \<Rightarrow>
             try_call (acquire cfg pv (pool ident)) (\<lambda>h s.
             case on_provider (transaction_and_release pv h (map normalize commands)) s of
               (Inl e, s1) \<Rightarrow> (Inl (map_exec_error cfg e), s1)
             | (Inr results, s1) \<Rightarrow>
                 return (res_bind (collect_slots (response_encoding lib rq) results
                                     (max_response_bytes (sv_load (cf_server cfg))))
                           (\<lambda>response. Inr (slots_response (lib_base64 lib) response))) s1)))))"

section \<open>Health\<close>

definition health :: "'f http_response" where
  "health = ok_response (JObject [(''status'', JString ''ok'')])"

definition not_found :: "'f http_response" where
  "not_found = \<lparr>rs_status = 404, rs_body = error_body ''Not found'', rs_retry_after = None\<rparr>"

definition method_not_allowed :: "'f http_response" where
  "method_not_allowed = \<lparr>rs_status = 405, rs_body = error_body ''Method not allowed'', rs_retry_after = None\<rparr>"

fun readiness_json :: "pool_readiness_status \<Rightarrow> 'f json" where
  "readiness_json Ready = JObject [(''status'', JString ''ready'')]"
| "readiness_json (Unavailable reason) =
     JObject [(''error'', JString reason), (''status'', JString ''unavailable'')]"

definition ready :: "('p, 'h) provider \<Rightarrow> bool \<Rightarrow> ('p, 's) app_state \<Rightarrow> 'f http_response \<times> ('p, 's) app_state" where
  "ready pv peer_is_loopback s =
     (if \<not> peer_is_loopback then (not_found, s)
      else case on_provider (pv_readiness pv) s of
        (pools, s1) \<Rightarrow>
          (let all_ready = list_all (\<lambda>p. pr_status p = Ready) pools;
               by_name = fold (\<lambda>p m. bt_insert (pr_pool p) (readiness_json (pr_status p)) m) pools [] in
           (\<lparr>rs_status = (if all_ready then 200 else 503),
             rs_body = JObject [(''pools'', JObject by_name),
                                (''status'', JString (if all_ready then ''ready'' else ''not_ready''))],
             rs_retry_after = None\<rparr>, s1)))"

section \<open>Routes\<close>

datatype endpoint = CommandRoute | PipelineRoute | MultiExecRoute

definition handler ::
  "'f libs \<Rightarrow> config \<Rightarrow> ('p, 'h) provider \<Rightarrow> endpoint \<Rightarrow> identity \<Rightarrow> request
    \<Rightarrow> (('p, 's) app_state, app_error, 'f http_response) call" where
  "handler lib cfg pv ep =
     (case ep of CommandRoute \<Rightarrow> command_execute lib cfg pv | PipelineRoute \<Rightarrow> pipeline_execute lib cfg pv
      | MultiExecRoute \<Rightarrow> multi_exec_execute lib cfg pv)"

datatype target = Api endpoint | HealthTarget | ReadyTarget | NotFoundTarget | MethodNotAllowedTarget

text \<open>A \<open>get\<close> route also answers \<open>HEAD\<close> requests.\<close>

definition route :: "string \<Rightarrow> string \<Rightarrow> target" where
  "route verb path =
     (let api = (\<lambda>ep. if verb = ''POST'' then Api ep else MethodNotAllowedTarget);
          get = (\<lambda>t. if verb \<in> {''GET'', ''HEAD''} then t else MethodNotAllowedTarget) in
      if path = ''/'' then api CommandRoute
      else if path = ''/pipeline'' then api PipelineRoute
      else if path = ''/multi-exec'' then api MultiExecRoute
      else if path = ''/health'' then get HealthTarget
      else if path = ''/ready'' then get ReadyTarget
      else NotFoundTarget)"

definition respond :: "'f libs \<Rightarrow> (app_error + 'f http_response) \<times> ('p, 's) app_state
    \<Rightarrow> 'f http_response \<times> ('p, 's) app_state" where
  "respond lib res =
     (case res of
        (Inr response, s) \<Rightarrow> (response, s)
      | (Inl e, s) \<Rightarrow> (into_response (lib_header_value lib) e, s\<lparr>as_metrics := error_metrics e @ as_metrics s\<rparr>))"

definition serve_api ::
  "'f libs \<Rightarrow> config \<Rightarrow> 's authenticator \<Rightarrow> ('p, 'h) provider \<Rightarrow> endpoint \<Rightarrow> request
    \<Rightarrow> ('p, 's) app_state \<Rightarrow> 'f http_response \<times> ('p, 's) app_state" where
  "serve_api lib cfg authenticate pv ep rq s =
     respond lib (try_call (authed_identity lib authenticate rq) (\<lambda>ident. handler lib cfg pv ep ident rq) s)"

text \<open>
  An error of the admission layers, where \<open>shed\<close> says that it is the load shedder's: a shed
  request and one that overran the HTTP timeout get the same answer.
\<close>

definition admission_error :: "config \<Rightarrow> bool \<Rightarrow> ('p, 's) app_state \<Rightarrow> app_error \<times> ('p, 's) app_state" where
  "admission_error cfg shed s =
     (Overloaded (shed_retry_after_secs (sv_load (cf_server cfg))),
      if shed then count_metric (''srh_shed_total'', ''global_limit'', 1) s else s)"

definition serve ::
  "'f libs \<Rightarrow> config \<Rightarrow> 's authenticator \<Rightarrow> ('p, 'h) provider \<Rightarrow> string \<Rightarrow> string \<Rightarrow> bool \<Rightarrow> request
    \<Rightarrow> ('p, 's) app_state \<Rightarrow> 'f http_response \<times> ('p, 's) app_state" where
  "serve lib cfg authenticate pv verb path peer_is_loopback rq s =
     (case route verb path of
        Api ep \<Rightarrow> serve_api lib cfg authenticate pv ep rq s
      | HealthTarget \<Rightarrow> (health, s)
      | ReadyTarget \<Rightarrow> ready pv peer_is_loopback s
      | NotFoundTarget \<Rightarrow> (not_found, s)
      | MethodNotAllowedTarget \<Rightarrow> (method_not_allowed, s))"

end
