(* ===== verification/Request_Safety.thy ===== *)
theory Request_Safety
  imports Handlers
begin

text \<open>
  What a request can do. The provider is wrapped so that it keeps the list of what was done with
  it, and the effect of every call of a handler on the ports is described by a relation between
  the states before and after; the rules for sequencing compose these to the effect of a
  whole request.
\<close>

section \<open>A provider that keeps a log\<close>

datatype event = Acquired string | Ran string "redis_command list" | Released string

definition recorded :: "('p, 'h) provider \<Rightarrow> ('p \<times> event list, string \<times> 'h) provider" where
  "recorded pv =
     \<lparr>pv_acquire = (\<lambda>name (p, log).
        (case pv_acquire pv name p of
           (Inl e, p1) \<Rightarrow> (Inl e, (p1, log)) | (Inr h, p1) \<Rightarrow> (Inr (name, h), (p1, Acquired name # log)))),
      pv_execute = (\<lambda>cmd ((name, h), (p, log)).
        (case pv_execute pv cmd (h, p) of (r, h1, p1) \<Rightarrow> (r, (name, h1), (p1, Ran name [cmd] # log)))),
      pv_pipeline = (\<lambda>cmds ((name, h), (p, log)).
        (case pv_pipeline pv cmds (h, p) of (r, h1, p1) \<Rightarrow> (r, (name, h1), (p1, Ran name cmds # log)))),
      pv_transaction = (\<lambda>cmds ((name, h), (p, log)).
        (case pv_transaction pv cmds (h, p) of (r, h1, p1) \<Rightarrow> (r, (name, h1), (p1, Ran name cmds # log)))),
      pv_drop = (\<lambda>(name, h) (p, log). (pv_drop pv h p, Released name # log)),
      pv_readiness = (\<lambda>(p, log). (case pv_readiness pv p of (r, p1) \<Rightarrow> (r, (p1, log))))\<rparr>"

abbreviation history :: "('p \<times> event list, 's) app_state \<Rightarrow> event list" where
  "history s \<equiv> snd (as_provider s)"

section \<open>Effects\<close>

definition effect :: "('s \<Rightarrow> 's \<Rightarrow> bool) \<Rightarrow> ('s, 'e, 'a) call \<Rightarrow> bool" where
  "effect R m \<longleftrightarrow> (\<forall>s. R s (snd (m s)))"

definition same_ports :: "('p, 's) app_state \<Rightarrow> ('p, 's) app_state \<Rightarrow> bool" where
  "same_ports s s' \<longleftrightarrow> as_provider s' = as_provider s \<and> as_authenticator s' = as_authenticator s"

text \<open>At most one execution, of commands that \<open>Q\<close> admits, on a handle that is given back.\<close>

definition at_most_one ::
  "(string \<Rightarrow> redis_command list \<Rightarrow> bool) \<Rightarrow> ('p \<times> event list, 's) app_state
    \<Rightarrow> ('p \<times> event list, 's) app_state \<Rightarrow> bool" where
  "at_most_one Q s s' \<longleftrightarrow>
     as_authenticator s' = as_authenticator s
     \<and> (history s' = history s
        \<or> (\<exists>name cmds. Q name cmds \<and> history s' = [Released name, Ran name cmds, Acquired name] @ history s))"

lemma effect_try_call:
  assumes "effect same_ports m" and "\<And>a. effect (at_most_one Q) (k a)"
  shows "effect (at_most_one Q) (try_call m k)"
  unfolding effect_def
proof
  fix s
  obtain r s1 where m: "m s = (r, s1)" by fastforce
  have "same_ports s s1" using assms(1) m by (metis effect_def snd_conv)
  moreover have "at_most_one Q s1 (snd (k a s1))" for a using assms(2) by (simp add: effect_def)
  ultimately show "at_most_one Q s (snd (try_call m k s))"
    by (cases r) (auto simp: try_call_def m same_ports_def at_most_one_def)
qed

lemma effect_case_sum:
  assumes "\<And>e. x = Inl e \<Longrightarrow> effect R (f e)" and "\<And>c. x = Inr c \<Longrightarrow> effect R (g c)"
  shows "effect R (case x of Inl e \<Rightarrow> f e | Inr c \<Rightarrow> g c)"
  using assms by (cases x) auto

lemma effect_if: "(b \<Longrightarrow> effect R f) \<Longrightarrow> (\<not> b \<Longrightarrow> effect R g) \<Longrightarrow> effect R (if b then f else g)"
  by simp

lemma effect_case_prod:
  "(\<And>a b. x = (a, b) \<Longrightarrow> effect R (f a b)) \<Longrightarrow> effect R (case x of (a, b) \<Rightarrow> f a b)"
  by (cases x) simp

lemma effect_try_return:
  assumes "\<And>a. r = Inr a \<Longrightarrow> effect (at_most_one Q) (k a)"
  shows "effect (at_most_one Q) (try_call (return r) k)"
  using assms by (cases r) (auto simp: effect_def return_def at_most_one_def)

lemma effect_return: "effect (at_most_one Q) (return r)"
  by (simp add: effect_def return_def at_most_one_def)

lemma record_debt_forgiveness_ports [simp]:
  "as_provider (record_debt_forgiveness s) = as_provider s"
  "as_authenticator (record_debt_forgiveness s) = as_authenticator s"
  by (simp_all add: record_debt_forgiveness_def count_metric_def Let_def split: prod.splits)

lemma effect_limited_access: "effect same_ports (limited_access access)"
  by (auto simp: effect_def limited_access_def same_ports_def count_metric_def Let_def
      split: prod.splits sum.splits)

lemma effect_charge: "effect same_ports (charge_rate_limit key n)"
  by (simp add: charge_rate_limit_def effect_limited_access)

lemma effect_note: "effect same_ports (note_audit f)"
  by (simp add: effect_def note_audit_def same_ports_def)

lemma effect_acquire:
  fixes k :: "string \<times> 'h \<Rightarrow> (('p \<times> event list, 's) app_state, app_error, 'a) call"
  assumes "\<And>h. effect (\<lambda>s s'. as_authenticator s' = as_authenticator s
      \<and> history s' = [Released name, Ran name cmds] @ history s) (k (name, h))"
    and "Q name cmds"
  shows "effect (at_most_one Q) (try_call (acquire cfg (recorded pv) name) k)"
  unfolding effect_def
proof
  fix s :: "('p \<times> event list, 's) app_state"
  obtain p log where s: "as_provider s = (p, log)" by fastforce
  show "at_most_one Q s (snd (try_call (acquire cfg (recorded pv) name) k s))"
  proof (cases "fst (pv_acquire pv name p)")
    case (Inl e)
    then show ?thesis
      by (auto simp: try_call_def acquire_def on_provider_def recorded_def s at_most_one_def split: prod.splits)
  next
    case (Inr h)
    then show ?thesis
      using assms(1) [of h] assms(2)
      by (auto simp: try_call_def acquire_def on_provider_def recorded_def s at_most_one_def effect_def
          split: prod.splits) blast
  qed
qed

section \<open>The handlers\<close>

text \<open>The commands a request asks for, when its body can be read and parsed.\<close>

definition requested_commands :: "'f libs \<Rightarrow> config \<Rightarrow> endpoint \<Rightarrow> request \<Rightarrow> redis_command list option" where
  "requested_commands lib cfg ep rq =
     (case rq_body rq (body_read_timeout_ms (sv_load (cf_server cfg))) (max_body_bytes (cf_server cfg)) of
        BodyRead body \<Rightarrow>
          (if ep = CommandRoute
           then (case parse_command (lib_serde lib) (lib_deserializer lib) body (max_request_elements (cf_server cfg)) of
                   Inr cmd \<Rightarrow> Some [cmd] | Inl _ \<Rightarrow> None)
           else (case parse_pipeline (lib_serde lib) (lib_skips lib) (lib_deserializer lib) body
                        (max_pipeline_commands (cf_server cfg)) (max_request_elements (cf_server cfg)) of
                   Inr cmds \<Rightarrow> Some cmds | Inl _ \<Rightarrow> None))
      | _ \<Rightarrow> None)"

abbreviation acl_ok :: "'f libs \<Rightarrow> identity \<Rightarrow> redis_command \<Rightarrow> bool" where
  "acl_ok lib ident cmd \<equiv> acl_check (lib_sha256 lib) ident cmd = Inr ()"

definition may_run :: "'f libs \<Rightarrow> config \<Rightarrow> endpoint \<Rightarrow> request \<Rightarrow> identity \<Rightarrow> string \<Rightarrow> redis_command list \<Rightarrow> bool" where
  "may_run lib cfg ep rq ident name cmds \<longleftrightarrow>
     name = pool ident \<and> cmds \<noteq> []
     \<and> (\<exists>asked. requested_commands lib cfg ep rq = Some asked
          \<and> cmds = map normalize (filter (acl_ok lib ident) asked)
          \<and> (ep = PipelineRoute \<or> list_all (acl_ok lib ident) asked))"

lemma read_body_return:
  "read_body cfg rq =
     return (case rq_body rq (body_read_timeout_ms (sv_load (cf_server cfg))) (max_body_bytes (cf_server cfg)) of
        BodyTimedOut \<Rightarrow> Inl RequestBodyTimeout
      | BodyFailed \<Rightarrow> Inl (BadRequest ''Invalid command'')
      | BodyRead body \<Rightarrow> Inr body)"
  by (simp add: read_body_def)

lemma check_commands_allowed:
  "check_commands sha256 ident cmds = Inr (allowed, slots) \<Longrightarrow>
     allowed = map normalize (filter (\<lambda>cmd. acl_check sha256 ident cmd = Inr ()) cmds)"
  by (induction sha256 ident cmds arbitrary: allowed slots rule: check_commands.induct)
    (auto simp: res_bind_Inr_iff split: sum.splits acl_error.splits)

lemma check_all_Inr_iff:
  "check_all sha256 ident cmds = Inr u \<longleftrightarrow> list_all (\<lambda>cmd. acl_check sha256 ident cmd = Inr ()) cmds"
  by (induction sha256 ident cmds rule: check_all.induct) (auto split: sum.splits)

lemmas effect_run_defs = effect_def on_provider_def execute_and_release_def pipeline_and_release_def
  transaction_and_release_def recorded_def return_def

lemma effect_execute:
  assumes "Q name [normalize cmd]"
  shows "effect (at_most_one Q) (try_call (acquire cfg (recorded pv) name) (\<lambda>h s.
      case on_provider (execute_and_release (recorded pv) h (normalize cmd)) s of
         (Inl e, s1) \<Rightarrow> (Inl (f e), s1) | (Inr v, s1) \<Rightarrow> return (g v) s1))"
  by (rule effect_acquire [where cmds = "[normalize cmd]"])
    (auto simp: assms effect_run_defs split: prod.splits sum.splits)

lemma effect_pipeline:
  assumes "Q name cmds"
  shows "effect (at_most_one Q) (try_call (acquire cfg (recorded pv) name) (\<lambda>h s.
      case on_provider (pipeline_and_release (recorded pv) h cmds) s of (rs, s1) \<Rightarrow> return (g rs) s1))"
  by (rule effect_acquire [where cmds = cmds]) (auto simp: assms effect_run_defs split: prod.splits sum.splits)

lemma effect_transaction:
  assumes "Q name cmds"
  shows "effect (at_most_one Q) (try_call (acquire cfg (recorded pv) name) (\<lambda>h s.
      case on_provider (transaction_and_release (recorded pv) h cmds) s of
         (Inl e, s1) \<Rightarrow> (Inl (f e), s1) | (Inr rs, s1) \<Rightarrow> return (g rs) s1))"
  by (rule effect_acquire [where cmds = cmds]) (auto simp: assms effect_run_defs split: prod.splits sum.splits)

lemmas effect_rules = effect_case_sum effect_try_return effect_return effect_try_call [OF effect_charge]
  effect_try_call [OF effect_note]

lemma command_effect:
  "effect (at_most_one (may_run lib cfg CommandRoute rq ident)) (command_execute lib cfg (recorded pv) ident rq)"
  unfolding command_execute_def read_body_return
  by (intro effect_rules effect_execute)
    (auto simp: may_run_def requested_commands_def split: body_outcome.splits)

lemma multi_exec_effect:
  "effect (at_most_one (may_run lib cfg MultiExecRoute rq ident)) (multi_exec_execute lib cfg (recorded pv) ident rq)"
  unfolding multi_exec_execute_def read_body_return
  by (intro effect_rules effect_if effect_transaction)
    (auto simp: may_run_def requested_commands_def check_all_Inr_iff list_all_iff split: body_outcome.splits)

lemma pipeline_effect:
  "effect (at_most_one (may_run lib cfg PipelineRoute rq ident)) (pipeline_execute lib cfg (recorded pv) ident rq)"
  unfolding pipeline_execute_def read_body_return
  by (intro effect_rules effect_case_prod effect_if effect_pipeline)
    (auto simp: may_run_def requested_commands_def dest!: check_commands_allowed split: body_outcome.splits)

lemma handler_effect:
  "effect (at_most_one (may_run lib cfg ep rq ident)) (handler lib cfg (recorded pv) ep ident rq)"
  using command_effect multi_exec_effect pipeline_effect by (cases ep) (simp_all add: handler_def)

section \<open>The whole request\<close>

lemma authed_identity_ports:
  assumes "authed_identity lib authenticate rq s = (r, s')"
  shows "as_provider s' = as_provider s
    \<and> (\<forall>ident. r = Inr ident \<longrightarrow>
        (\<exists>bearer. bearer_of lib rq = Some bearer
           \<and> authenticate bearer (as_authenticator s) = (Inr (Some ident), as_authenticator s')))"
proof (cases "bearer_of lib rq")
  case None
  with assms show ?thesis by (auto simp: authed_identity_def unauthorized_def count_metric_def)
next
  case (Some bearer)
  obtain q s1 where q: "run_authenticator authenticate bearer s = (q, s1)" by fastforce
  have 1: "as_provider s1 = as_provider s
      \<and> (\<forall>ident. q = Inr ident \<longrightarrow> authenticate bearer (as_authenticator s) = (Inr (Some ident), as_authenticator s1))"
    using q by (auto simp: run_authenticator_def unauthorized_def count_metric_def Let_def
        split: prod.splits sum.splits auth_error.splits option.splits)
  show ?thesis
  proof (cases q)
    case (Inl e)
    with 1 assms q Some show ?thesis by (auto simp: authed_identity_def try_call_def)
  next
    case (Inr ident)
    obtain l s2 where l: "limited_access (rl_probe (bucket_key ident)) s1 = (l, s2)" by fastforce
    have "same_ports s1 s2"
      using effect_limited_access [of "rl_probe (bucket_key ident)"] l by (metis effect_def snd_conv)
    with 1 assms q Some Inr l show ?thesis
      by (cases l) (auto simp: authed_identity_def try_call_def return_def same_ports_def)
  qed
qed

text \<open>
  C1. The central safety property. Whatever a client sends to an API route, the backend sees at
  most one execution. If there is one, then the request carried a bearer token that the
  authenticator accepted for an identity, the commands are commands of the parsed body that the
  access control list accepts for that identity, in their order and normalised, they run
  on a handle of the identity's own pool, and the handle is given back. A single command and a transaction
  run only if the list accepts all their commands; a pipeline runs the accepted ones.
\<close>

theorem only_permitted_commands_run:
  assumes "serve_api lib cfg authenticate (recorded pv) ep rq s = (response, s')"
  shows "history s' = history s
    \<or> (\<exists>bearer ident cmds.
         bearer_of lib rq = Some bearer
         \<and> authenticate bearer (as_authenticator s) = (Inr (Some ident), as_authenticator s')
         \<and> may_run lib cfg ep rq ident (pool ident) cmds
         \<and> history s' = [Released (pool ident), Ran (pool ident) cmds, Acquired (pool ident)] @ history s)"
proof -
  obtain r s1 where r: "authed_identity lib authenticate rq s = (r, s1)" by fastforce
  note a = authed_identity_ports [OF r]
  have keep: "as_provider (snd (respond lib (x, t))) = as_provider t
      \<and> as_authenticator (snd (respond lib (x, t))) = as_authenticator t" for x t
    by (simp add: respond_def split: sum.splits)
  show ?thesis
  proof (cases r)
    case (Inl e)
    then have "as_provider s' = as_provider s1"
      using assms r keep [of "Inl e" s1] by (simp add: serve_api_def try_call_def)
    with a show ?thesis by simp
  next
    case (Inr ident)
    obtain x s2 where x: "handler lib cfg (recorded pv) ep ident rq s1 = (x, s2)" by fastforce
    have "at_most_one (may_run lib cfg ep rq ident) s1 s2"
      using handler_effect [of lib cfg ep rq ident pv] x by (metis effect_def snd_conv)
    moreover have "as_provider s' = as_provider s2" "as_authenticator s' = as_authenticator s2"
      using assms r x Inr keep [of x s2] by (simp_all add: serve_api_def try_call_def)
    ultimately show ?thesis
      using a Inr by (auto simp: at_most_one_def may_run_def)
  qed
qed

text \<open>A small server: no rate limit, one token, a backend that answers every command with \<open>OK\<close>.\<close>

definition demo_libs :: "unit doc \<times> bool \<Rightarrow> unit libs" where
  "demo_libs doc =
     \<lparr>lib_sha256 = (\<lambda>b. b), lib_base64 = (\<lambda>b. replicate (base64_len (length b)) CHR ''A''), lib_serde = plain_serde,
      lib_deserializer = (\<lambda>_. doc), lib_skips = (\<lambda>_. True), lib_to_str = Some, lib_header_value = Some\<rparr>"

definition demo_cfg :: config where
  "demo_cfg = \<lparr>cf_server = default_server_config, cf_auth = \<lparr>au_jwt = None, au_static_tokens = []\<rparr>, cf_pools = []\<rparr>"

definition demo_identity :: identity where
  "demo_identity = \<lparr>subject = ''s'', bucket_key = ''b'', pool = ''default'', read_only = False, is_admin = False,
     legacy = False, allowed_commands = None, blocked_commands = {}, allowed_script_sha256 = {}, key_prefix = None\<rparr>"

definition demo_auth :: "unit authenticator" where
  "demo_auth bearer s = (Inr (if bearer = ''t'' then Some demo_identity else None), s)"

definition demo_provider :: "(unit, unit) provider" where
  "demo_provider =
     \<lparr>pv_acquire = (\<lambda>_ p. (Inr (), p)), pv_execute = (\<lambda>_ p. (Inr (RespSimple ''OK''), p)),
      pv_pipeline = (\<lambda>cmds p. (map (\<lambda>_. Inr (RespSimple ''OK'')) cmds, p)),
      pv_transaction = (\<lambda>cmds p. (Inr (map (\<lambda>_. Inr (RespSimple ''OK'')) cmds), p)),
      pv_drop = (\<lambda>_ p. p), pv_readiness = (\<lambda>p. ([], p))\<rparr>"

definition demo_request :: request where
  "demo_request = \<lparr>rq_authorization = Some ''Bearer t'', rq_upstash_encoding = None, rq_body = (\<lambda>_ _. BodyRead ''x'')\<rparr>"

definition demo_state :: "nat \<Rightarrow> (unit \<times> event list, unit) app_state" where
  "demo_state rate =
     \<lparr>as_provider = ((), []), as_authenticator = (), as_clock = sconst 0, as_rate_limiter = rate_limiter_new rate,
      as_metrics = [], as_audit = audit_default\<rparr>"

definition demo_run :: "unit http_response \<times> (unit \<times> event list, unit) app_state" where
  "demo_run = serve_api (demo_libs (command_doc (''PING'', []), True)) demo_cfg demo_auth (recorded demo_provider)
     CommandRoute demo_request (demo_state 0)"

lemmas demo_defs = demo_libs_def demo_cfg_def demo_auth_def demo_provider_def demo_request_def demo_state_def
  default_server_config_def

lemma demo_bearer: "bearer_of (demo_libs doc) demo_request = Some ''t''"
  by (simp add: bearer_of_def demo_defs split_once_space_def eq_ignore_ascii_case_def to_ascii_lowercase_def
      ascii_lower_char_def byte_of_def)

lemma no_limit_access [simp]:
  "rl_probe key now (rate_limiter_new 0) = (Inr (), rate_limiter_new 0)"
  "rl_charge key n now (rate_limiter_new 0) = (Inr (), rate_limiter_new 0)"
  "take_debt_forgiven_evictions (rate_limiter_new 0) = (0, rate_limiter_new 0)"
  by (simp_all add: rl_probe_def rl_charge_def rl_access_def rate_limiter_new_def with_max_buckets_def
      take_debt_forgiven_evictions_def)

lemma demo_ping:
  "parse_command plain_serde (\<lambda>_. (DSeq [DStr ''PING''] True, True)) body 10000
     = Inr \<lparr>cmd_name = ''PING'', cmd_args = []\<rparr>"
  by (simp add: parse_command_def command_seed_def name_seed_def parse_charge_def new_cells_def finish_def
      checked_sub_def try_step_def)

lemma demo_ping_ok: "acl_check sha256 demo_identity \<lparr>cmd_name = ''PING'', cmd_args = []\<rparr> = Inr ()"
  by (simp add: acl_check_def demo_identity_def to_ascii_uppercase_def ascii_upper_char_def byte_of_def HARD_DENY_def
      check_scripting_def SCRIPTING_def DEFAULT_BLOCK_def)

lemma demo_pool: "pool demo_identity = ''default''"
  by (simp add: demo_identity_def)

lemma demo_reply: "charge_response_budget EncNone (RespSimple ''OK'') 33554432 = (Inr (), 33554422)"
  by (simp add: charge_response_budget_def charge_within_depth.simps charge_def MAX_DEPTH_def NODE_COST_def checked_sub_def)

lemma demo_history:
  "demo_run = (ok_response (JObject [(''result'', JString ''OK'')]), snd demo_run)
   \<and> history (snd demo_run) =
      [Released ''default'', Ran ''default'' [\<lparr>cmd_name = ''PING'', cmd_args = []\<rparr>], Acquired ''default'']"
  by (simp add: demo_run_def serve_api_def authed_identity_def demo_bearer)
    (simp add: demo_defs run_authenticator_def try_call_def return_def limited_access_def
      record_debt_forgiveness_def handler_def command_execute_def note_audit_def read_body_def demo_ping demo_ping_ok
      charge_rate_limit_def acquire_def on_provider_def execute_and_release_def recorded_def normalize_def
      command_reply_def response_encoding_def demo_reply respond_def demo_pool Let_def)

theorem only_permitted_commands_run_witness:
  "\<exists>bearer ident cmds. demo_auth bearer () = (Inr (Some ident), ())
     \<and> may_run (demo_libs (command_doc (''PING'', []), True)) demo_cfg CommandRoute demo_request ident (pool ident) cmds
     \<and> history (snd demo_run) = [Released (pool ident), Ran (pool ident) cmds, Acquired (pool ident)]"
proof -
  have run: "serve_api (demo_libs (command_doc (''PING'', []), True)) demo_cfg demo_auth (recorded demo_provider)
      CommandRoute demo_request (demo_state 0) = (fst demo_run, snd demo_run)"
    by (simp add: demo_run_def)
  have "history (demo_state 0) = []" by (simp add: demo_state_def)
  moreover have "history (snd demo_run) \<noteq> []" using demo_history by simp
  ultimately show ?thesis
    using only_permitted_commands_run [OF run] by (simp del: command_doc.simps) blast
qed

section \<open>Charging a request\<close>

text \<open>What a request whose body was read costs: at least one command, except an empty pipeline.\<close>

definition request_cost :: "'f libs \<Rightarrow> config \<Rightarrow> endpoint \<Rightarrow> request \<Rightarrow> nat" where
  "request_cost lib cfg ep rq =
     (case requested_commands lib cfg ep rq of
        None \<Rightarrow> 1
      | Some cmds \<Rightarrow> if ep = PipelineRoute then length cmds else max 1 (length cmds))"

definition same_limiter :: "('p, 's) app_state \<Rightarrow> ('p, 's) app_state \<Rightarrow> bool" where
  "same_limiter s s' \<longleftrightarrow> as_rate_limiter s' = as_rate_limiter s"

text \<open>The limiter was charged once, its debt counter was read, and a refusal ended the request.\<close>

definition charged_once ::
  "string \<Rightarrow> nat \<Rightarrow> ('p, 's) app_state \<Rightarrow> (app_error + 'a) \<times> ('p, 's) app_state \<Rightarrow> bool" where
  "charged_once key cost s out \<longleftrightarrow>
     (case rl_charge key cost (shd (as_clock s)) (as_rate_limiter s) of
        (x, l) \<Rightarrow>
          as_rate_limiter (snd out) = l\<lparr>debt_forgiven_evictions := 0\<rparr>
          \<and> (\<forall>e. x = Inl e \<longrightarrow> fst out = Inl (RateLimited (retry_after_secs e)) \<and> as_provider (snd out) = as_provider s))"

lemma charged_try_call:
  assumes "\<And>a. effect same_limiter (k a)"
  shows "charged_once key n s (try_call (charge_rate_limit key n) k s)"
proof -
  obtain x l where x: "rl_charge key n (shd (as_clock s)) (as_rate_limiter s) = (x, l)" by fastforce
  have "same_limiter t (snd (k a t))" for a t using assms by (simp add: effect_def)
  then show ?thesis
    by (auto simp: charged_once_def try_call_def charge_rate_limit_def limited_access_def x same_limiter_def
        record_debt_forgiveness_def take_debt_forgiven_evictions_def count_metric_def Let_def split: sum.splits)
qed

lemma charged_note:
  "charged_once key n s (try_call (note_audit f) k s) = charged_once key n (s\<lparr>as_audit := f (as_audit s)\<rparr>)
     (k () (s\<lparr>as_audit := f (as_audit s)\<rparr>))"
  by (simp add: charged_once_def try_call_def note_audit_def)

lemma charged_audit [simp]: "charged_once key n (s\<lparr>as_audit := a\<rparr>) out = charged_once key n s out"
  by (simp add: charged_once_def)

lemma charged_try_call_audited:
  "(\<And>a. effect same_limiter (k a)) \<Longrightarrow>
     charged_once key n s (try_call (charge_rate_limit key n) k (s\<lparr>as_audit := b\<rparr>))"
  using charged_try_call [of k key n "s\<lparr>as_audit := b\<rparr>"] by simp

lemma limiter_return: "effect same_limiter (return r)"
  by (simp add: effect_def return_def same_limiter_def)

lemma limiter_acquire:
  assumes "\<And>h. effect same_limiter (k h)"
  shows "effect same_limiter (try_call (acquire cfg pv name) k)"
  using assms by (auto simp: effect_def try_call_def acquire_def on_provider_def same_limiter_def
      split: prod.splits sum.splits)

lemma limiter_provider:
  "effect same_limiter (\<lambda>s. case on_provider f s of (Inl e, s1) \<Rightarrow> (Inl (g e), s1) | (Inr v, s1) \<Rightarrow> return (g' v) s1)"
  "effect same_limiter (\<lambda>s. case on_provider f' s of (rs, s1) \<Rightarrow> return (g'' rs) s1)"
  by (auto simp: effect_def on_provider_def same_limiter_def return_def split: prod.splits sum.splits)

lemmas charge_rules = charged_try_call_audited effect_case_sum effect_case_prod effect_if limiter_return limiter_acquire
  limiter_provider

lemma handler_charged:
  assumes "rq_body rq (body_read_timeout_ms (sv_load (cf_server cfg))) (max_body_bytes (cf_server cfg)) = BodyRead body"
  shows "charged_once (bucket_key ident) (request_cost lib cfg ep rq) s (handler lib cfg pv ep ident rq s)"
proof (cases ep)
  case CommandRoute
  show ?thesis
  proof (cases "parse_command (lib_serde lib) (lib_deserializer lib) body (max_request_elements (cf_server cfg))")
    case (Inl e)
    then show ?thesis
      by (auto simp: CommandRoute handler_def command_execute_def read_body_def assms charged_note request_cost_def
          requested_commands_def intro!: charge_rules)
  next
    case (Inr cmd)
    then show ?thesis
      by (auto simp: CommandRoute handler_def command_execute_def read_body_def assms charged_note request_cost_def
          requested_commands_def intro!: charge_rules)
  qed
next
  case PipelineRoute
  show ?thesis
    by (cases "parse_pipeline (lib_serde lib) (lib_skips lib) (lib_deserializer lib) body
            (max_pipeline_commands (cf_server cfg)) (max_request_elements (cf_server cfg))")
      (auto simp: PipelineRoute handler_def pipeline_execute_def read_body_def assms charged_note request_cost_def
          requested_commands_def intro!: charge_rules)
next
  case MultiExecRoute
  show ?thesis
    by (cases "parse_pipeline (lib_serde lib) (lib_skips lib) (lib_deserializer lib) body
            (max_pipeline_commands (cf_server cfg)) (max_request_elements (cf_server cfg))")
      (auto simp: MultiExecRoute handler_def multi_exec_execute_def read_body_def assms charged_note request_cost_def
          requested_commands_def max_def Suc_le_eq intro!: charge_rules)
qed


lemma demo_authed:
  "authed_identity (demo_libs doc) demo_auth demo_request (demo_state 0)
     = (Inr demo_identity, (demo_state 0)\<lparr>as_clock := sconst 0\<rparr>)"
  by (simp add: authed_identity_def demo_bearer)
    (simp add: demo_defs run_authenticator_def try_call_def return_def limited_access_def record_debt_forgiveness_def)


section \<open>Slots of a pipeline\<close>

text \<open>The slot a result becomes when it fits the budget.\<close>

fun slot_of :: "encoding \<Rightarrow> exec_result \<Rightarrow> slot" where
  "slot_of enc (Inr v) = SlotResult v enc"
| "slot_of enc (Inl (ExecRedis message)) = SlotError message"
| "slot_of enc (Inl ExecTimeout) = SlotError ''Redis command timed out''"
| "slot_of enc (Inl _) = SlotError ''Internal server error''"

lemma charge_too_large: "fst (charge n budget) = Inl e \<Longrightarrow> e = ConvResponseTooLarge"
  by (auto simp: charge_def split: option.splits)

lemma charge_encoded_too_large: "fst (charge_encoded n budget) = Inl e \<Longrightarrow> e = ConvResponseTooLarge"
  by (auto simp: charge_encoded_def base64_encoded_len_def dest: charge_too_large split: sum.splits option.splits)

lemma charge_fails_too_large:
  "fst (charge_within_depth enc depth v budget) = Inl e \<Longrightarrow> e = ConvResponseTooLarge"
  "fst (charge_values enc depth vs budget) = Inl e \<Longrightarrow> e = ConvResponseTooLarge"
proof (induction enc depth v budget and enc depth vs budget rule: charge_within_depth_charge_values.induct)
  case (1 enc depth v budget)
  show ?case
  proof (cases depth)
    case 0
    with 1(2) show ?thesis by (simp add: charge_within_depth.simps)
  next
    case (Suc d)
    obtain x b1 where x: "charge NODE_COST budget = (x, b1)" by fastforce
    show ?thesis
    proof (cases x)
      case (Inl e')
      with Suc x 1(2) charge_too_large [of NODE_COST budget] show ?thesis by (simp add: charge_within_depth.simps)
    next
      case (Inr u)
      with Suc x 1 show ?thesis
        by (cases v) (auto simp: charge_within_depth.simps dest: charge_too_large charge_encoded_too_large
            split: if_splits)
    qed
  qed
qed (auto split: prod.splits sum.splits)

lemma result_slot_cases:
  "result_slot enc r budget = (x, left) \<Longrightarrow> x = Inl ResponseTooLarge \<or> x = Inr (slot_of enc r)"
proof (cases r)
  case (Inr v)
  assume s: "result_slot enc r budget = (x, left)"
  show ?thesis
  proof (cases "fst (charge_response_budget enc v budget)")
    case (Inl e)
    with s Inr show ?thesis
      using charge_fails_too_large(1) [of enc MAX_DEPTH v budget e]
      by (cases "charge_response_budget enc v budget") (auto simp: result_slot_def charge_response_budget_def)
  qed (use s Inr in \<open>auto simp: result_slot_def split: prod.splits\<close>)
qed (auto simp: result_slot_def split: exec_error.splits)

lemma fill_slots_positional:
  assumes "length results = length (filter (\<lambda>x. x = None) slots)"
  shows "case fill_slots enc slots results budget of
      Inl e \<Rightarrow> e = ResponseTooLarge
    | Inr response \<Rightarrow> length response = length slots
        \<and> (\<forall>i < length slots. response ! i =
             (case slots ! i of Some refused \<Rightarrow> refused
              | None \<Rightarrow> slot_of enc (results ! length (filter (\<lambda>x. x = None) (take i slots)))))"
  using assms
proof (induction enc slots results budget rule: fill_slots.induct)
  case (2 enc refused slots results budget)
  then show ?case
    by (cases "fill_slots enc slots results budget") (auto simp: nth_Cons split: nat.splits option.splits)
next
  case (4 enc slots r results budget)
  obtain x left where x: "result_slot enc r budget = (x, left)" by fastforce
  show ?case
  proof (cases x)
    case (Inl e)
    with x result_slot_cases [OF x] show ?thesis by simp
  next
    case (Inr slot)
    with result_slot_cases [OF x] have slot: "slot = slot_of enc r" by simp
    with x Inr 4 show ?thesis
      by (cases "fill_slots enc slots results left") (auto simp: nth_Cons split: nat.splits option.splits)
  qed
qed auto

lemma check_commands_named:
  "check_commands sha256 ident cmds = Inr r \<Longrightarrow> cmd \<in> set cmds \<Longrightarrow> acl_check sha256 ident cmd \<noteq> Inl AclInvalidCommand"
  by (induction sha256 ident cmds arbitrary: r rule: check_commands.induct)
    (auto simp: res_bind_Inr_iff split: sum.splits acl_error.splits)

lemma check_commands_slots:
  "check_commands sha256 ident cmds = Inr (allowed, slots) \<Longrightarrow>
     slots = map (\<lambda>cmd. case acl_check sha256 ident cmd of Inl (AclForbidden m) \<Rightarrow> Some (SlotError m) | _ \<Rightarrow> None) cmds"
  by (induction sha256 ident cmds arbitrary: allowed slots rule: check_commands.induct)
    (auto simp: res_bind_Inr_iff split: sum.splits acl_error.splits)

lemma check_commands_open:
  assumes "check_commands sha256 ident cmds = Inr (allowed, slots)"
  shows "map (\<lambda>x. x = None) slots = map (\<lambda>cmd. acl_check sha256 ident cmd = Inr ()) cmds"
  using check_commands_named [OF assms]
  by (auto simp: check_commands_slots [OF assms] split: sum.splits acl_error.splits)

lemma filter_via_map: "length (filter P xs) = length (filter id (map P xs))"
  by (induction xs) auto

text \<open>
  C17. The slots of a pipeline response are in the order of the request. Whatever subset of the
  commands the access control list let through, if the executor gave one result for each of these, the
  response has one slot for each command of the request: the refusal if the command was
  refused, else the result of this very command (the one that was executed as the \<open>k\<close>th for the \<open>k\<close>th accepted). The only
  other outcome is \<open>ResponseTooLarge\<close>; the two internal errors about a miscount do not occur.
\<close>

theorem pipeline_slots_positional:
  assumes "check_commands sha256 ident cmds = Inr (allowed, slots)" and "length results = length allowed"
  shows "case fill_slots enc slots results budget of
      Inl e \<Rightarrow> e = ResponseTooLarge
    | Inr response \<Rightarrow> length response = length cmds
        \<and> (\<forall>i < length cmds. response ! i =
             (case acl_check sha256 ident (cmds ! i) of
                Inl (AclForbidden m) \<Rightarrow> SlotError m
              | _ \<Rightarrow> slot_of enc (results ! length (filter (\<lambda>cmd. acl_check sha256 ident cmd = Inr ()) (take i cmds)))))"
proof -
  let ?ok = "\<lambda>cmd. acl_check sha256 ident cmd = Inr ()"
  note S = check_commands_slots [OF assms(1)]
  have count: "length (filter (\<lambda>x. x = None) (take i slots)) = length (filter ?ok (take i cmds))" for i
    using check_commands_open [OF assms(1)] filter_via_map [of "\<lambda>x. x = None" "take i slots"] filter_via_map [of ?ok "take i cmds"]
    by (metis take_map)
  have "length results = length (filter (\<lambda>x. x = None) slots)"
    using count [of "length cmds"] S assms(2) check_commands_allowed [OF assms(1)] by simp
  from fill_slots_positional [OF this, of enc budget] show ?thesis
    using S count by (auto split: sum.splits acl_error.splits)
qed

text \<open>A read-only identity: of three commands the second is refused.\<close>

definition demo_pipeline :: "redis_command list" where
  "demo_pipeline = [\<lparr>cmd_name = ''GET'', cmd_args = [''a'']\<rparr>, \<lparr>cmd_name = ''DEL'', cmd_args = [''a'']\<rparr>,
     \<lparr>cmd_name = ''PING'', cmd_args = []\<rparr>]"

lemma demo_pipeline_checked:
  "check_commands (\<lambda>b. b) (demo_identity\<lparr>read_only := True\<rparr>) demo_pipeline =
     Inr ([\<lparr>cmd_name = ''GET'', cmd_args = [''a'']\<rparr>, \<lparr>cmd_name = ''PING'', cmd_args = []\<rparr>],
       [None, Some (SlotError (''NOPERM this token does not have permission to run '' @ quote @ ''DEL'' @ quote)), None])"
  by (simp add: demo_pipeline_def acl_check_def demo_identity_def to_ascii_uppercase_def ascii_upper_char_def byte_of_def
      HARD_DENY_def check_scripting_def SCRIPTING_def DEFAULT_BLOCK_def READ_COMMANDS_def denied_def normalize_def)

theorem pipeline_slots_positional_witness:
  "case fill_slots EncNone
       [None, Some (SlotError (''NOPERM this token does not have permission to run '' @ quote @ ''DEL'' @ quote)), None]
       [Inr (RespInt 1), Inr (RespInt 2)] 100 of
     Inl e \<Rightarrow> e = ResponseTooLarge
   | Inr response \<Rightarrow> length response = 3 \<and> response ! 2 = SlotResult (RespInt 2) EncNone"
proof -
  have ok: "acl_check (\<lambda>b. b) (demo_identity\<lparr>read_only := True\<rparr>) (demo_pipeline ! i) =
      (if i = 1 then Inl (denied ''DEL'') else Inr ())" if "i < 3" for i
    using that
    by (auto simp: less_Suc_eq numeral_3_eq_3 demo_pipeline_def acl_check_def demo_identity_def to_ascii_uppercase_def
        ascii_upper_char_def byte_of_def HARD_DENY_def check_scripting_def SCRIPTING_def DEFAULT_BLOCK_def
        READ_COMMANDS_def)
  have take2: "take 2 demo_pipeline = [demo_pipeline ! 0, demo_pipeline ! 1]" "length demo_pipeline = 3"
    by (simp_all add: demo_pipeline_def)
  show ?thesis
    using pipeline_slots_positional [OF demo_pipeline_checked, of "[Inr (RespInt 1), Inr (RespInt 2)]" EncNone 100]
      ok [of 0] ok [of 1] ok [of 2]
    by (auto simp: take2 split: sum.splits)
qed

end
