(* ===== verification/Router.thy ===== *)
theory Router
  imports Request_Safety
begin

text \<open>
  The whole router of \<open>src/http/mod.rs\<close>: the routes of \<open>Handlers\<close>, around those of the API the
  admission layers, and around everything the \<open>Observe\<close> layer of \<open>src/http/observability.rs\<close>. What the third-party
  layers decide for a request is an argument: it is shed by the concurrency limit, it overruns
  the HTTP timeout and its handler is dropped in some state, its declared length exceeds the body limit, or it
  passes. The future of a request may also be abandoned because the client went away.

  The properties follow the audit trail: each completed request is counted and logged once, with the status
  the client gets and the identity whose commands ran.
\<close>

section \<open>Layers\<close>

datatype ('f, 'st) admission = Passed | Shed | TimedOut 'st | BodyTooLarge "'f http_response"

definition api_path :: "string \<Rightarrow> bool" where
  "api_path path \<longleftrightarrow> path \<in> {''/'', ''/pipeline'', ''/multi-exec''}"

text \<open>
  The order of the layers: the error handler, load shedding and the concurrency limit, the timeout, the body limit.
\<close>

definition apply_admission_controls ::
  "'f libs \<Rightarrow> config \<Rightarrow> ('f, ('p, 's) app_state) admission
    \<Rightarrow> (('p, 's) app_state \<Rightarrow> 'f http_response \<times> ('p, 's) app_state)
    \<Rightarrow> ('p, 's) app_state \<Rightarrow> 'f http_response \<times> ('p, 's) app_state" where
  "apply_admission_controls lib cfg adm inner s =
     (let handle_error = (\<lambda>shed t. case admission_error cfg shed t of (e, t1) \<Rightarrow> respond lib (Inl e, t1)) in
      case adm of
        Shed \<Rightarrow> handle_error True s
      | TimedOut t \<Rightarrow> handle_error False t
      | BodyTooLarge response \<Rightarrow> (response, s)
      | Passed \<Rightarrow> inner s)"

definition router_serve ::
  "'f libs \<Rightarrow> config \<Rightarrow> 's authenticator \<Rightarrow> ('p, 'h) provider \<Rightarrow> ('f, ('p, 's) app_state) admission
    \<Rightarrow> string \<Rightarrow> string \<Rightarrow> bool \<Rightarrow> request \<Rightarrow> ('p, 's) app_state \<Rightarrow> 'f http_response \<times> ('p, 's) app_state" where
  "router_serve lib cfg authenticate pv adm verb path peer_is_loopback rq =
     (let inner = serve lib cfg authenticate pv verb path peer_is_loopback rq in
      if api_path path then apply_admission_controls lib cfg adm inner else inner)"

text \<open>
  One request through the observed router. \<open>abandoned\<close> is the state in which the request was
  dropped, when it was.
\<close>

definition router ::
  "'f libs \<Rightarrow> config \<Rightarrow> 's authenticator \<Rightarrow> ('p, 'h) provider \<Rightarrow> ('f, ('p, 's) app_state) admission
    \<Rightarrow> ('p, 's) app_state option \<Rightarrow> duration \<Rightarrow> string \<Rightarrow> string \<Rightarrow> bool \<Rightarrow> request
    \<Rightarrow> ('p, 's) app_state \<times> registry \<Rightarrow> 'f http_response option \<times> ('p, 's) app_state \<times> registry" where
  "router lib cfg authenticate pv adm abandoned elapsed verb path peer_is_loopback rq =
     (\<lambda>(s, rg). case abandoned of
        Some t \<Rightarrow> (None, t, observe elapsed path (\<lambda>_. None) rg)
      | None \<Rightarrow>
          (let call = (\<lambda>audit. router_serve lib cfg authenticate pv adm verb path peer_is_loopback rq (s\<lparr>as_audit := audit\<rparr>)) in
           (Some (fst (call audit_default)), snd (call audit_default),
            observe elapsed path (\<lambda>audit. Some (as_audit (snd (call audit)), rs_status (fst (call audit)))) rg)))"

section \<open>Who is recorded as the caller\<close>

definition same_caller :: "('p, 's) app_state \<Rightarrow> ('p, 's) app_state \<Rightarrow> bool" where
  "same_caller s s' \<longleftrightarrow> au_identity (as_audit s') = au_identity (as_audit s)"

named_theorems caller_rules

lemma caller_try_call:
  assumes "effect same_caller m" and "\<And>a. effect same_caller (k a)"
  shows "effect same_caller (try_call m k)"
  unfolding effect_def
proof
  fix s
  obtain r s1 where m: "m s = (r, s1)" by fastforce
  have "same_caller s s1" using assms(1) m by (metis effect_def snd_conv)
  moreover have "same_caller s1 (snd (k a s1))" for a using assms(2) by (simp add: effect_def)
  ultimately show "same_caller s (snd (try_call m k s))"
    by (cases r) (auto simp: try_call_def m same_caller_def)
qed

lemma caller_return [caller_rules]: "effect same_caller (return r)"
  by (simp add: effect_def return_def same_caller_def)

lemma caller_debt [simp]: "as_audit (record_debt_forgiveness s) = as_audit s"
  by (simp add: record_debt_forgiveness_def count_metric_def Let_def split: prod.splits)

lemma caller_limited_access [caller_rules]: "effect same_caller (limited_access access)"
  by (auto simp: effect_def limited_access_def same_caller_def count_metric_def Let_def split: prod.splits sum.splits)

lemma caller_charge [caller_rules]: "effect same_caller (charge_rate_limit key n)"
  by (simp add: charge_rate_limit_def caller_limited_access)

lemma caller_note_command [caller_rules]: "effect same_caller (note_audit (audit_command command len))"
  by (simp add: effect_def note_audit_def same_caller_def audit_command_def)

lemma caller_read_body [caller_rules]: "effect same_caller (read_body cfg rq)"
  by (simp add: read_body_def caller_return)

lemma caller_acquire [caller_rules]: "effect same_caller (acquire cfg pv name)"
  by (auto simp: effect_def acquire_def on_provider_def same_caller_def split: prod.splits sum.splits)

lemma caller_run [caller_rules]:
  "effect same_caller (\<lambda>s. case on_provider f s of (Inl e, s1) \<Rightarrow> (Inl (g e), s1) | (Inr v, s1) \<Rightarrow> return (h v) s1)"
  "effect same_caller (\<lambda>s. case on_provider f' s of (v, s1) \<Rightarrow> return (h v) s1)"
  by (auto simp: effect_def on_provider_def return_def same_caller_def split: prod.splits sum.splits)

lemma caller_run_authenticator: "effect same_caller (run_authenticator authenticate bearer)"
  by (auto simp: effect_def same_caller_def run_authenticator_def unauthorized_def count_metric_def Let_def
      split: prod.splits sum.splits auth_error.splits option.splits)

lemma caller_authed_identity: "effect same_caller (authed_identity lib authenticate rq)"
proof (cases "bearer_of lib rq")
  case None
  then show ?thesis by (simp add: authed_identity_def effect_def unauthorized_def count_metric_def same_caller_def)
next
  case (Some bearer)
  then show ?thesis
    by (simp add: authed_identity_def) (intro caller_try_call caller_run_authenticator caller_rules)
qed

text \<open>Every handler records its caller first, and nothing after that changes it.\<close>

definition records_caller :: "identity \<Rightarrow> (('p, 's) app_state, 'e, 'a) call \<Rightarrow> bool" where
  "records_caller ident c \<longleftrightarrow> (\<forall>s. au_identity (as_audit (snd (c s))) = Some ident)"

lemma records_caller_note:
  assumes "\<And>a. effect same_caller (k a)"
  shows "records_caller ident (try_call (note_audit (audit_identity ident)) k)"
  using assms by (simp add: records_caller_def effect_def try_call_def note_audit_def audit_identity_def same_caller_def)

lemma handler_records_caller: "records_caller ident (handler lib cfg pv ep ident rq)"
  by (cases ep; simp only: handler_def endpoint.case command_execute_def pipeline_execute_def multi_exec_execute_def)
    (intro records_caller_note caller_try_call caller_rules effect_case_sum effect_case_prod effect_if)+

section \<open>The audit trail\<close>

lemma respond_audit [simp]: "as_audit (snd (respond lib x)) = as_audit (snd x)"
  "as_provider (snd (respond lib x)) = as_provider (snd x)"
  by (auto simp: respond_def split: prod.splits sum.splits)

lemma serve_api_caller:
  fixes s :: "('p \<times> event list, 's) app_state"
  assumes "s' = snd (serve_api lib cfg authenticate (recorded pv) ep rq s)"
  shows "history s' = history s
    \<or> (\<exists>bearer ident cmds. bearer_of lib rq = Some bearer
         \<and> fst (authenticate bearer (as_authenticator s)) = Inr (Some ident)
         \<and> au_identity (as_audit s') = Some ident
         \<and> history s' = [Released (pool ident), Ran (pool ident) cmds, Acquired (pool ident)] @ history s)"
proof -
  obtain r s1 where r: "authed_identity lib authenticate rq s = (r, s1)" by fastforce
  note ports = authed_identity_ports [OF r]
  show ?thesis
  proof (cases r)
    case (Inl e)
    then show ?thesis using assms r ports by (simp add: serve_api_def try_call_def)
  next
    case (Inr ident)
    let ?s2 = "snd (handler lib cfg (recorded pv) ep ident rq s1)"
    have s': "as_provider s' = as_provider ?s2" "as_audit s' = as_audit ?s2"
      using assms r Inr by (simp_all add: serve_api_def try_call_def)
    have "at_most_one (may_run lib cfg ep rq ident) s1 ?s2"
      by (rule handler_effect [unfolded effect_def, rule_format])
    moreover have "au_identity (as_audit ?s2) = Some ident"
      by (rule handler_records_caller [unfolded records_caller_def, rule_format])
    moreover obtain bearer where "bearer_of lib rq = Some bearer"
        "fst (authenticate bearer (as_authenticator s)) = Inr (Some ident)"
      using ports Inr by fastforce
    ultimately show ?thesis using ports s' by (auto simp: at_most_one_def may_run_def)
  qed
qed

lemma serve_caller:
  fixes lib :: "'f libs" and s :: "('p \<times> event list, 's) app_state"
  assumes "s' = snd (serve lib cfg authenticate (recorded pv) verb path loopback rq s)" and "history s' \<noteq> history s"
  shows "api_path path \<and> (\<exists>bearer ident cmds. bearer_of lib rq = Some bearer
         \<and> fst (authenticate bearer (as_authenticator s)) = Inr (Some ident)
         \<and> au_identity (as_audit s') = Some ident
         \<and> history s' = [Released (pool ident), Ran (pool ident) cmds, Acquired (pool ident)] @ history s)"
proof -
  have ready: "history (snd (ready (recorded pv) loopback s :: 'f http_response \<times> _)) = history s"
    by (auto simp: ready_def on_provider_def recorded_def Let_def split: prod.splits)
  from assms ready obtain ep where ep: "route verb path = Api ep"
    by (cases "route verb path") (simp_all add: serve_def)
  then have "api_path path" by (auto simp: route_def api_path_def Let_def split: if_splits)
  with serve_api_caller [of s' lib cfg authenticate pv ep rq s] assms ep show ?thesis by (simp add: serve_def)
qed

lemma router_serve_history:
  fixes s :: "('p \<times> event list, 's) app_state"
  assumes "s' = snd (router_serve lib cfg authenticate (recorded pv) adm verb path loopback rq s)"
    and "history s' \<noteq> history s" and "\<And>t. adm \<noteq> TimedOut t"
  shows "s' = snd (serve lib cfg authenticate (recorded pv) verb path loopback rq s) \<and> (api_path path \<longrightarrow> adm = Passed)"
  using assms by (cases adm) (auto simp: router_serve_def apply_admission_controls_def admission_error_def count_metric_def
      Let_def split: if_splits)

lemma record_request_trail:
  "rg_completed (record_request elapsed endpoint audit status rg) = (endpoint, status_label status, elapsed) # rg_completed rg"
  "rg_in_flight (record_request elapsed endpoint audit status rg) = rg_in_flight rg"
  "\<not> (is_probe endpoint \<and> 200 \<le> status \<and> status < 300) \<Longrightarrow>
     \<exists>ev. rg_log (record_request elapsed endpoint audit status rg) = ev # rg_log rg
        \<and> ev_status ev = status \<and> ev_endpoint ev = endpoint
        \<and> (\<forall>ident. au_identity audit = Some ident \<longrightarrow> ev_subject ev = subject ident \<and> ev_pool ev = pool ident)"
  "is_probe endpoint \<and> 200 \<le> status \<and> status < 300 \<Longrightarrow> rg_log (record_request elapsed endpoint audit status rg) = rg_log rg"
  by (auto simp: record_request_def Let_def)

lemma api_path_no_probe: "api_path path \<Longrightarrow> \<not> is_probe (endpoint_label path)"
  by (auto simp: api_path_def endpoint_label_def is_probe_def)


definition demo_registry :: registry where
  "demo_registry = \<lparr>rg_completed = [], rg_in_flight = 0, rg_log = []\<rparr>"

definition routed_ping ::
  "unit http_response option \<times> (unit \<times> event list, unit) app_state \<times> registry" where
  "routed_ping = router (demo_libs (command_doc (''PING'', []), True)) demo_cfg demo_auth (recorded demo_provider)
     Passed None 5 ''POST'' ''/'' False demo_request (demo_state 0, demo_registry)"

lemma routed_ping_run:
  "routed_ping = (Some (fst demo_run), snd demo_run, snd (snd routed_ping))"
  by (simp add: routed_ping_def router_def router_serve_def apply_admission_controls_def api_path_def serve_def route_def
      demo_run_def demo_state_def Let_def del: command_doc.simps)


end
