(* ===== verification/Leases.thy ===== *)
theory Leases
  imports Handlers
begin

text \<open>
  What the handlers do with a provider, as an interface. \<open>lease_provider\<close> is a provider with an
  invariant \<open>idle\<close> between requests and, for a handle, a condition \<open>leased\<close> while it is held: a failed acquisition
  keeps the first, a successful one gives the second, executing keeps it, and the drop of
  the handle gives the first again. Inside the locale every route of the server is shown to keep \<open>idle\<close>:
  no handler forgets a handle, on any of its early returns.
\<close>

definition keeps :: "('p \<Rightarrow> bool) \<Rightarrow> (('p, 's) app_state, 'e, 'a) call \<Rightarrow> bool" where
  "keeps I c \<longleftrightarrow> (\<forall>s. I (as_provider s) \<longrightarrow> I (as_provider (snd (c s))))"

named_theorems keeps_rules

lemma keepsI [intro]: "(\<And>s. I (as_provider s) \<Longrightarrow> I (as_provider (snd (c s)))) \<Longrightarrow> keeps I c"
  by (simp add: keeps_def)

lemma keepsD: "keeps I c \<Longrightarrow> I (as_provider s) \<Longrightarrow> c s = (r, s') \<Longrightarrow> I (as_provider s')"
  by (metis keeps_def snd_conv)

lemma keeps_try_call:
  fixes m :: "(('p, 's) app_state, 'e, 'b) call"
  assumes "keeps I m" and "\<And>a. keeps I (k a)"
  shows "keeps I (try_call m k)"
proof
  fix s :: "('p, 's) app_state"
  assume s: "I (as_provider s)"
  obtain r s1 where m: "m s = (r, s1)" by fastforce
  have "I (as_provider s1)" by (rule keepsD [OF assms(1) s m])
  then show "I (as_provider (snd (try_call m k s)))"
    using assms(2) by (cases r) (simp_all add: try_call_def m keeps_def)
qed

lemma keeps_return [keeps_rules]: "keeps I (return r)"
  by (simp add: keeps_def return_def)

lemma keeps_case_sum [keeps_rules]:
  "(\<And>e. keeps I (f e)) \<Longrightarrow> (\<And>c. keeps I (g c)) \<Longrightarrow> keeps I (case x of Inl e \<Rightarrow> f e | Inr c \<Rightarrow> g c)"
  by (cases x) auto

lemma keeps_case_prod [keeps_rules]: "(\<And>a b. keeps I (f a b)) \<Longrightarrow> keeps I (case x of (a, b) \<Rightarrow> f a b)"
  by (cases x) simp

lemma keeps_case_option [keeps_rules]:
  "keeps I f \<Longrightarrow> (\<And>c. keeps I (g c)) \<Longrightarrow> keeps I (case x of None \<Rightarrow> f | Some c \<Rightarrow> g c)"
  by (cases x) auto

lemma keeps_if [keeps_rules]: "keeps I f \<Longrightarrow> keeps I g \<Longrightarrow> keeps I (if b then f else g)"
  by simp

lemma provider_record_debt [simp]: "as_provider (record_debt_forgiveness s) = as_provider s"
  by (simp add: record_debt_forgiveness_def count_metric_def Let_def split: prod.splits)

lemma keeps_limited_access [keeps_rules]: "keeps I (limited_access access)"
  by (auto simp: keeps_def limited_access_def count_metric_def Let_def split: prod.splits sum.splits)

lemma keeps_charge [keeps_rules]: "keeps I (charge_rate_limit key n)"
  by (simp add: charge_rate_limit_def keeps_limited_access)

lemma keeps_note [keeps_rules]: "keeps I (note_audit f)"
  by (simp add: keeps_def note_audit_def)

lemma keeps_read_body [keeps_rules]: "keeps I (read_body cfg rq)"
  by (simp add: read_body_def keeps_return)

lemma keeps_unauthorized [keeps_rules]: "keeps I (unauthorized kind)"
  by (simp add: keeps_def unauthorized_def count_metric_def)

lemma keeps_run_authenticator [keeps_rules]: "keeps I (run_authenticator authenticate bearer)"
  by (auto simp: keeps_def run_authenticator_def unauthorized_def count_metric_def Let_def
      split: prod.splits sum.splits auth_error.splits option.splits)

lemma keeps_authed_identity [keeps_rules]: "keeps I (authed_identity lib authenticate rq)"
  unfolding authed_identity_def by (intro keeps_rules keeps_try_call)

text \<open>The calls that do not touch the provider, in front of the rest of a handler.\<close>

lemmas keeps_try = keeps_try_call [OF keeps_charge] keeps_try_call [OF keeps_note] keeps_try_call [OF keeps_read_body]
  keeps_try_call [OF keeps_authed_identity]

locale lease_provider =
  fixes pv :: "('p, 'h) provider"
    and idle :: "'p \<Rightarrow> bool"
    and leased :: "'h \<Rightarrow> 'p \<Rightarrow> bool"
  assumes acquire_refused: "idle p \<Longrightarrow> pv_acquire pv name p = (Inl e, p') \<Longrightarrow> idle p'"
    and acquire_granted: "idle p \<Longrightarrow> pv_acquire pv name p = (Inr h, p') \<Longrightarrow> leased h p'"
    and execute_leased: "leased h p \<Longrightarrow> pv_execute pv cmd (h, p) = (r, h', p') \<Longrightarrow> leased h' p'"
    and pipeline_leased: "leased h p \<Longrightarrow> pv_pipeline pv cmds (h, p) = (rs, h', p') \<Longrightarrow> leased h' p'"
    and transaction_leased: "leased h p \<Longrightarrow> pv_transaction pv cmds (h, p) = (q, h', p') \<Longrightarrow> leased h' p'"
    and drop_idle: "leased h p \<Longrightarrow> idle (pv_drop pv h p)"
    and readiness_idle: "idle p \<Longrightarrow> idle (snd (pv_readiness pv p))"
begin

lemma release_idle:
  "leased h p \<Longrightarrow> idle (snd (execute_and_release pv h cmd p))"
  "leased h p \<Longrightarrow> idle (snd (pipeline_and_release pv h cmds p))"
  "leased h p \<Longrightarrow> idle (snd (transaction_and_release pv h cmds p))"
  by (auto simp: execute_and_release_def pipeline_and_release_def transaction_and_release_def split: prod.splits
      intro: drop_idle execute_leased pipeline_leased transaction_leased)

lemma released_idle:
  "leased h (as_provider s) \<Longrightarrow> on_provider (execute_and_release pv h cmd) s = (r, s') \<Longrightarrow> idle (as_provider s')"
  "leased h (as_provider s) \<Longrightarrow> on_provider (pipeline_and_release pv h cmds) s = (rs, s') \<Longrightarrow> idle (as_provider s')"
  "leased h (as_provider s) \<Longrightarrow> on_provider (transaction_and_release pv h cmds) s = (q, s') \<Longrightarrow> idle (as_provider s')"
  using release_idle(1) [of h "as_provider s" cmd] release_idle(2) [of h "as_provider s" cmds]
    release_idle(3) [of h "as_provider s" cmds]
  by (auto simp: on_provider_def split: prod.splits)

lemma keeps_acquire:
  fixes k :: "'h \<Rightarrow> (('p, 's) app_state, app_error, 'a) call"
  assumes "\<And>h s. leased h (as_provider s) \<Longrightarrow> idle (as_provider (snd (k h s)))"
  shows "keeps idle (try_call (acquire cfg pv name) k)"
proof
  fix s :: "('p, 's) app_state"
  assume s: "idle (as_provider s)"
  obtain r p where r: "pv_acquire pv name (as_provider s) = (r, p)" by fastforce
  show "idle (as_provider (snd (try_call (acquire cfg pv name) k s)))"
    using acquire_refused [OF s] acquire_granted [OF s] assms [of _ "s\<lparr>as_provider := p\<rparr>"] r
    by (cases r) (auto simp: try_call_def acquire_def on_provider_def)
qed

lemma keeps_command: "keeps idle (command_execute lib cfg pv ident rq)"
  unfolding command_execute_def
  by (intro keeps_rules keeps_try keeps_acquire)
    (auto simp: return_def dest: released_idle split: prod.splits sum.splits)

lemma keeps_pipeline: "keeps idle (pipeline_execute lib cfg pv ident rq)"
  unfolding pipeline_execute_def
  by (intro keeps_rules keeps_try keeps_acquire)
    (auto simp: return_def dest: released_idle split: prod.splits sum.splits)

lemma keeps_multi_exec: "keeps idle (multi_exec_execute lib cfg pv ident rq)"
  unfolding multi_exec_execute_def
  by (intro keeps_rules keeps_try keeps_acquire)
    (auto simp: return_def dest: released_idle split: prod.splits sum.splits)

lemma keeps_handler: "keeps idle (handler lib cfg pv ep ident rq)"
  by (cases ep) (simp_all add: handler_def keeps_command keeps_pipeline keeps_multi_exec)

lemma serve_keeps_idle:
  assumes "idle (as_provider s)" and "serve lib cfg authenticate pv verb path loopback rq s = (response, s')"
  shows "idle (as_provider s')"
proof -
  have respond: "as_provider (snd (respond lib x)) = as_provider (snd x)" for x
    by (auto simp: respond_def split: prod.splits sum.splits)
  have "keeps idle (try_call (authed_identity lib authenticate rq) (\<lambda>ident. handler lib cfg pv ep ident rq))" for ep
    by (intro keeps_try keeps_handler)
  then have "idle (as_provider (snd (serve_api lib cfg authenticate pv ep rq s)))" for ep
    using assms(1) by (simp add: keeps_def serve_api_def respond)
  moreover have "idle (as_provider (snd (ready pv loopback s)))"
    using assms(1) readiness_idle [of "as_provider s"] by (auto simp: ready_def on_provider_def Let_def split: prod.splits)
  ultimately have "idle (as_provider (snd (serve lib cfg authenticate pv verb path loopback rq s)))"
    using assms(1) by (cases "route verb path") (simp_all add: serve_def)
  with assms(2) show ?thesis by simp
qed

end

end
