(* ===== verification/Profile_Inproc.thy ===== *)
theory Profile_Inproc
  imports Router Leases Auth
begin

text \<open>
  The in-process profiling harness \<open>src/bin/profile-inproc.rs\<close>: its constant executor and provider, its command line, the
  state it builds around them, the request it sends, and the hand-written client that counts responses on a
  keep-alive connection. Runtimes, threads and the duplex transport are not modelled: what the transport
  delivers is a list of reads. Reading a number of seconds as a duration is a parameter.

  The provider keeps the interfaces \<open>command_executor\<close> and \<open>lease_provider\<close>, so everything shown of the handlers
  holds for the harness. The client counts every response once, wherever the transport
  cuts the bytes, and a run without a failure ends with its report.
\<close>

section \<open>The constant executor\<close>

definition const_execute :: "resp_value \<Rightarrow> redis_command \<Rightarrow> 's \<Rightarrow> exec_result \<times> 's" where
  "const_execute reply command s = (Inr reply, s)"

definition const_pipeline :: "resp_value \<Rightarrow> redis_command list \<Rightarrow> 's \<Rightarrow> exec_result list \<times> 's" where
  "const_pipeline reply commands s = (map (\<lambda>_. Inr reply) commands, s)"

definition const_transaction :: "resp_value \<Rightarrow> redis_command list \<Rightarrow> 's \<Rightarrow> (exec_error + exec_result list) \<times> 's" where
  "const_transaction reply commands s = (Inr (map (\<lambda>_. Inr reply) commands), s)"

text \<open>The handle has the executor and a lease without content.\<close>

definition const_provider :: "resp_value \<Rightarrow> (unit, unit) provider" where
  "const_provider reply =
     \<lparr>pv_acquire = (\<lambda>_ p. (Inr (), p)), pv_execute = const_execute reply, pv_pipeline = const_pipeline reply,
      pv_transaction = const_transaction reply, pv_drop = (\<lambda>_ p. p), pv_readiness = (\<lambda>p. ([], p))\<rparr>"

interpretation const: command_executor "pv_execute (const_provider (RespBulk b))" "pv_pipeline (const_provider (RespBulk b))"
    "pv_transaction (const_provider (RespBulk b))"
  for b
  by unfold_locales
    (auto simp: const_provider_def const_execute_def const_pipeline_def const_transaction_def MAX_DEPTH_def)

interpretation harness: lease_provider "const_provider reply" "\<lambda>_. True" "\<lambda>_ _. True"
  for reply
  by unfold_locales simp_all

section \<open>The command line\<close>

record args =
  ag_duration :: duration
  ag_connections :: nat
  ag_config_path :: string
  ag_token :: string
  ag_body :: string
  ag_path :: string
  ag_reply :: string
  ag_server_threads :: nat
  ag_loadgen_threads :: nat

abbreviation dquote :: char where
  "dquote \<equiv> CHR 0x22"

definition default_args :: args where
  "default_args =
     \<lparr>ag_duration = from_secs 30, ag_connections = 32, ag_config_path = ''profiling/config.json'',
      ag_token = ''phase9-load-token'',
      ag_body = ''['' @ [dquote] @ ''GET'' @ [dquote] @ '','' @ [dquote] @ ''load:key'' @ [dquote] @ '']'',
      ag_path = ''/'', ag_reply = ''phase9-value'', ag_server_threads = 0, ag_loadgen_threads = 0\<rparr>"

datatype args_outcome = ArgsParsed args | HelpShown | ArgsPanicked string

definition value_flags :: "string list" where
  "value_flags = [''--duration'', ''--connections'', ''--config'', ''--token'', ''--body'', ''--path'', ''--reply'',
     ''--server-threads'', ''--loadgen-threads'']"

definition parse_count :: "string \<Rightarrow> nat option" where
  "parse_count v = (case parse_unsigned u64_max v of Inr n \<Rightarrow> Some n | Inl _ \<Rightarrow> None)"

text \<open>
  What a flag does with its value; \<open>None\<close> when the value cannot be read. A panic carries the message of the code, without the
  description of the parse error that follows it.
\<close>

definition set_flag :: "(string \<Rightarrow> duration option) \<Rightarrow> string \<Rightarrow> string \<Rightarrow> args \<Rightarrow> args option" where
  "set_flag read_secs flag v args =
     (if flag = ''--duration'' then map_option (\<lambda>d. args\<lparr>ag_duration := d\<rparr>) (read_secs v)
      else if flag = ''--connections'' then map_option (\<lambda>n. args\<lparr>ag_connections := n\<rparr>) (parse_count v)
      else if flag = ''--config'' then Some (args\<lparr>ag_config_path := v\<rparr>)
      else if flag = ''--token'' then Some (args\<lparr>ag_token := v\<rparr>)
      else if flag = ''--body'' then Some (args\<lparr>ag_body := v\<rparr>)
      else if flag = ''--path'' then Some (args\<lparr>ag_path := v\<rparr>)
      else if flag = ''--reply'' then Some (args\<lparr>ag_reply := v\<rparr>)
      else if flag = ''--server-threads'' then map_option (\<lambda>n. args\<lparr>ag_server_threads := n\<rparr>) (parse_count v)
      else map_option (\<lambda>n. args\<lparr>ag_loadgen_threads := n\<rparr>) (parse_count v))"

fun args_parse :: "(string \<Rightarrow> duration option) \<Rightarrow> string list \<Rightarrow> args \<Rightarrow> args_outcome" where
  "args_parse read_secs [] args =
     (if 0 < ag_connections args then ArgsParsed args else ArgsPanicked ''--connections must be positive'')"
| "args_parse read_secs (flag # raw) args =
     (if flag \<in> set value_flags
      then (case raw of
              [] \<Rightarrow> ArgsPanicked (''flag '' @ flag @ '' requires a value'')
            | v # rest \<Rightarrow>
                (case set_flag read_secs flag v args of
                   Some args1 \<Rightarrow> args_parse read_secs rest args1
                 | None \<Rightarrow> ArgsPanicked (flag @ (if flag = ''--duration'' then '' must be seconds'' else '' must be a count''))))
      else if flag \<in> {''--help'', ''-h''} then HelpShown
      else ArgsPanicked (''unknown flag '' @ flag))"

lemma args_parse_connections: "args_parse read_secs raw args = ArgsParsed args' \<Longrightarrow> 0 < ag_connections args'"
  by (induction read_secs raw args rule: args_parse.induct) (auto split: if_splits list.splits option.splits)

section \<open>The state\<close>

definition build_state ::
  "'f config_io \<Rightarrow> args \<Rightarrow> instant stream \<Rightarrow> string + config \<times> unit authenticator \<times> (unit, unit) provider \<times> (unit, unit) app_state" where
  "build_state cio args clock =
     res_bind (map_sum (\<lambda>_. ''failed to load '' @ ag_config_path args) (\<lambda>c. c) (from_path cio (ag_config_path args))) (\<lambda>cfg.
     res_bind (map_sum (\<lambda>_. ''profiling config is invalid'') (\<lambda>c. c) (config_validate cio cfg)) (\<lambda>_.
     Inr (cfg, static_authenticate (io_sha256 cio) (static_auth_new (au_static_tokens (cf_auth cfg))),
          const_provider (RespBulk (ag_reply args)),
          \<lparr>as_provider = (), as_authenticator = (), as_clock = clock,
           as_rate_limiter = rate_limiter_new (per_token_commands_per_sec (sv_rate_limit (cf_server cfg))),
           as_metrics = [], as_audit = audit_default\<rparr>)))"

text \<open>Loading has validated the configuration: the second check never fails.\<close>

lemma build_state_fails_on_load:
  assumes "build_state cio args clock = Inl message"
  shows "message = ''failed to load '' @ ag_config_path args"
proof (cases "from_path cio (ag_config_path args)")
  case (Inl e)
  with assms show ?thesis by (simp add: build_state_def res_bind_def)
next
  case (Inr c)
  then have "config_validate cio c = Inr c"
    by (auto simp: from_path_def from_json_def res_bind_Inr_iff config_validate_def split: option.splits)
  with Inr assms show ?thesis by (simp add: build_state_def res_bind_def)
qed

section \<open>The client\<close>

abbreviation crlf :: string where
  "crlf \<equiv> [CHR 0x0D, CHR 0x0A]"

definition profile_request_bytes :: "args \<Rightarrow> bytes" where
  "profile_request_bytes args =
     ''POST '' @ ag_path args @ '' HTTP/1.1'' @ crlf
     @ ''Host: profile.invalid'' @ crlf
     @ ''Authorization: Bearer '' @ ag_token args @ crlf
     @ ''Content-Type: application/json'' @ crlf
     @ ''Content-Length: '' @ nat_text (length (ag_body args)) @ crlf
     @ ''Connection: keep-alive'' @ crlf @ crlf @ ag_body args"

fun window_position :: "bytes \<Rightarrow> nat option" where
  "window_position [] = None"
| "window_position (c # s) =
     (if take 4 (c # s) = crlf @ crlf then Some 0 else map_option Suc (window_position s))"

definition find_head_end :: "bytes \<Rightarrow> nat option" where
  "find_head_end buffer = map_option (\<lambda>start. start + 4) (window_position buffer)"

text \<open>\<open>str::lines\<close>: a line ends at a line feed, with the carriage return before it; the rest is a line too, if there is one.\<close>

lemma dropWhile_shorter: "dropWhile P s = x # rest \<Longrightarrow> length rest < length s"
  by (metis Suc_le_lessD length_Cons length_dropWhile_le)

function str_lines :: "string \<Rightarrow> string list" where
  "str_lines s =
     (let line = takeWhile (\<lambda>c. c \<noteq> CHR 0x0A) s in
      case dropWhile (\<lambda>c. c \<noteq> CHR 0x0A) s of
        [] \<Rightarrow> if line = [] then [] else [line]
      | _ # rest \<Rightarrow>
          (if line \<noteq> [] \<and> last line = CHR 0x0D then butlast line else line) # str_lines rest)"
  by auto
termination by (relation "measure length") (auto dest: dropWhile_shorter)

declare str_lines.simps [simp del]

text \<open>\<open>str::trim\<close>: white space is dropped in front and, from where only white space is left, at the end.\<close>

fun trim_end :: "string \<Rightarrow> string" where
  "trim_end [] = []"
| "trim_end (c # s) = (if skip_whitespace (c # s) = [] then [] else c # trim_end s)"

definition str_trim :: "string \<Rightarrow> string" where
  "str_trim s = trim_end (skip_whitespace s)"

definition content_length_of :: "string \<Rightarrow> nat option" where
  "content_length_of line =
     (case dropWhile (\<lambda>c. c \<noteq> CHR '':'') line of
        [] \<Rightarrow> None
      | _ # v \<Rightarrow>
          if eq_ignore_ascii_case (str_trim (takeWhile (\<lambda>c. c \<noteq> CHR '':'') line)) ''content-length''
          then parse_count (str_trim v) else None)"

definition parse_content_length :: "bytes \<Rightarrow> nat" where
  "parse_content_length head =
     (let text = (case from_utf8 head of Some s \<Rightarrow> s | None \<Rightarrow> []) in
      case List.map_filter content_length_of (str_lines text) of n # _ \<Rightarrow> n | [] \<Rightarrow> 0)"

text \<open>One read of the transport: some bytes, or the end of the connection or an error. The sum of the two lengths wraps.\<close>

datatype read_result = ReadBytes bytes | ReadClosed

datatype read_outcome = Complete "read_result list" | ReadFailed | ReadPending

fun read_response :: "bytes \<Rightarrow> nat option \<Rightarrow> nat \<Rightarrow> read_result list \<Rightarrow> read_outcome" where
  "read_response buffer head_end content_length reads =
     (let (head_end, content_length) =
            (case (head_end, find_head_end buffer) of
               (None, Some position) \<Rightarrow> (Some position, parse_content_length (take position buffer))
             | _ \<Rightarrow> (head_end, content_length)) in
      if (case head_end of Some position \<Rightarrow> (position + content_length) mod 2 ^ 64 \<le> length buffer | None \<Rightarrow> False)
      then Complete reads
      else (case reads of
              [] \<Rightarrow> ReadPending
            | ReadClosed # _ \<Rightarrow> ReadFailed
            | ReadBytes chunk # rest \<Rightarrow> read_response (buffer @ chunk) head_end content_length rest))"

declare read_response.simps [simp del]

text \<open>
  The turns of the loop: whether the stop flag was seen, and whether the request could be written. The counters
  are those of the completed and the failed requests.
\<close>

fun drive :: "(bool \<times> bool) list \<Rightarrow> read_result list \<Rightarrow> nat \<times> nat \<Rightarrow> nat \<times> nat" where
  "drive [] reads counters = counters"
| "drive ((stop, written) # turns) reads (completed, failed) =
     (if stop then (completed, failed)
      else if \<not> written then (completed, failed + 1)
      else (case read_response [] None 0 reads of
              Complete rest \<Rightarrow> drive turns rest (completed + 1, failed)
            | ReadFailed \<Rightarrow> (completed, failed + 1)
            | ReadPending \<Rightarrow> (completed, failed)))"

section \<open>The run\<close>

definition worker_threads :: "nat \<Rightarrow> nat \<Rightarrow> nat" where
  "worker_threads requested available = (if 0 < requested then requested else (available + 1) div 2)"

definition peer_port :: "nat \<Rightarrow> nat" where
  "peer_port index = (let port = 40000 + index mod 20000 in if port \<le> 65535 then port else 40000)"

lemma peer_port_distinct: "i < 20000 \<Longrightarrow> j < 20000 \<Longrightarrow> peer_port i = peer_port j \<longleftrightarrow> i = j"
  by (simp add: peer_port_def)

text \<open>
  The whole run: every connection has the turns of its driver and what its transport delivers, and the two counters are shared.
  \<open>baseline\<close> is the count of completed requests read when the measured window opens and \<open>closing\<close> the one read when it closes;
  the report has the difference and the numerator of the rate, which saturates at 32 bits. The failures are read at the end, after the drivers
  have stopped; one makes the run panic.
\<close>

datatype profile_exit = ProfileHelp | ProfilePanicked string | ProfileReported nat nat nat

fun drive_all :: "((bool \<times> bool) list \<times> read_result list) list \<Rightarrow> nat \<times> nat \<Rightarrow> nat \<times> nat" where
  "drive_all [] counters = counters"
| "drive_all ((turns, reads) # connections) counters = drive_all connections (drive turns reads counters)"

definition profile_report :: "args \<Rightarrow> nat \<Rightarrow> nat \<Rightarrow> nat \<Rightarrow> profile_exit" where
  "profile_report args baseline closing failures =
     (let measured = closing - baseline in
      if failures = 0 then ProfileReported measured (min measured (2 ^ 32 - 1)) (ag_connections args)
      else ProfilePanicked ''in-process harness must not drop connections'')"

definition profile_main ::
  "(string \<Rightarrow> duration option) \<Rightarrow> 'f config_io \<Rightarrow> instant stream \<Rightarrow> string list
    \<Rightarrow> (bytes \<Rightarrow> ((bool \<times> bool) list \<times> read_result list) list) \<Rightarrow> nat \<Rightarrow> nat \<Rightarrow> profile_exit" where
  "profile_main read_secs cio clock raw transport baseline closing =
     (case args_parse read_secs raw default_args of
        ArgsPanicked message \<Rightarrow> ProfilePanicked message
      | HelpShown \<Rightarrow> ProfileHelp
      | ArgsParsed args \<Rightarrow>
          (case build_state cio args clock of
             Inl message \<Rightarrow> ProfilePanicked message
           | Inr _ \<Rightarrow>
               (case drive_all (take (ag_connections args) (transport (profile_request_bytes args))) (0, 0) of
                  (completed, failures) \<Rightarrow> profile_report args baseline closing failures)))"

section \<open>Framing\<close>

lemma window_position_append: "window_position s = Some n \<Longrightarrow> window_position (s @ t) = Some n \<and> n + 4 \<le> length s"
proof (induction s arbitrary: n)
  case (Cons c s)
  show ?case
  proof (cases "take 4 (c # s) = crlf @ crlf")
    case True
    have "4 \<le> length (c # s)" using arg_cong [OF True, of length] by (simp add: min_def split: if_splits)
    with True Cons.prems show ?thesis by simp
  next
    case False
    with Cons.prems obtain k where k: "window_position s = Some k" "n = Suc k" by auto
    with Cons.IH [OF k(1)] have "k + 4 \<le> length s" "window_position (s @ t) = Some k" by auto
    moreover from this(1) have "take 4 (c # s @ t) = take 4 (c # s)" by simp
    ultimately show ?thesis using False k(2) by simp
  qed
qed simp

lemma find_head_end_append: "find_head_end s = Some p \<Longrightarrow> find_head_end (s @ t) = Some p \<and> p \<le> length s"
  using window_position_append [of s] by (auto simp: find_head_end_def)

text \<open>A response whose declared length is the length of what follows its head.\<close>

definition framed :: "bytes \<Rightarrow> bool" where
  "framed response \<longleftrightarrow>
     (case find_head_end response of
        Some p \<Rightarrow> p + parse_content_length (take p response) = length response \<and> length response < 2 ^ 64
      | None \<Rightarrow> False)"

definition cut_into :: "bytes list \<Rightarrow> bytes \<Rightarrow> bool" where
  "cut_into chunks response \<longleftrightarrow> [] \<notin> set chunks \<and> concat chunks = response"

lemma read_response_framed:
  assumes "framed response" and "response = buffer @ concat chunks" and "[] \<notin> set chunks"
    and "(head_end, content_length) = (None, 0)
      \<or> find_head_end buffer = head_end \<and> (\<exists>p. head_end = Some p \<and> content_length = parse_content_length (take p buffer))"
  shows "read_response buffer head_end content_length (map ReadBytes chunks @ rest) = Complete rest"
  using assms
proof (induction chunks arbitrary: buffer head_end content_length)
  case Nil
  then show ?case by (subst read_response.simps) (auto simp: framed_def split: option.splits)
next
  case (Cons chunk chunks)
  have longer: "length buffer < length response" using Cons.prems(2,3) by (cases chunk) auto
  let ?rest = "map ReadBytes chunks @ rest"
  show ?case
  proof (cases "find_head_end buffer")
    case None
    with Cons.prems(4) have "head_end = None" "content_length = 0" by auto
    with Cons.IH [OF Cons.prems(1), of "buffer @ chunk" None 0] Cons.prems(2,3) None show ?thesis
      by (subst read_response.simps) simp
  next
    case (Some p)
    let ?n = "parse_content_length (take p buffer)"
    have p: "find_head_end response = Some p" "p \<le> length buffer" "take p (buffer @ t) = take p buffer" for t
      using find_head_end_append [OF Some, of "concat (chunk # chunks)"] Cons.prems(2) by auto
    then have "p + ?n = length response" "length response < 2 ^ 64"
      using Cons.prems(1,2) by (auto simp: framed_def)
    with longer have more: "\<not> (p + ?n) mod 2 ^ 64 \<le> length buffer" by simp
    have next_read: "read_response (buffer @ chunk) (Some p) ?n ?rest = Complete rest"
      by (rule Cons.IH [OF Cons.prems(1)]) (use Cons.prems(2,3) find_head_end_append [OF Some, of chunk] p(3) in auto)
    from Cons.prems(4) Some have "head_end = None \<or> head_end = Some p \<and> content_length = ?n" by auto
    with next_read more Some show ?thesis by (subst read_response.simps) auto
  qed
qed

text \<open>
  The load generator counts exactly: however the transport cuts the responses of a connection into reads, as many
  requests are counted as completed as responses with a correct length were sent, and none as failed; no byte of one response is taken
  for part of the next.
\<close>

theorem drive_counts_responses:
  assumes "list_all framed responses" and "list_all2 cut_into chunkings responses"
  shows "drive (replicate (length responses) (False, True)) (map ReadBytes (concat chunkings)) (completed, failed)
    = (completed + length responses, failed)"
  using assms(2,1)
proof (induction chunkings responses arbitrary: completed rule: list_all2_induct)
  case (Cons chunks chunkings response responses)
  have "read_response [] None 0 (map ReadBytes chunks @ map ReadBytes (concat chunkings)) = Complete (map ReadBytes (concat chunkings))"
    by (rule read_response_framed) (use Cons in \<open>auto simp: cut_into_def\<close>)
  with Cons show ?case by simp
qed simp

text \<open>A run in which every transport delivers correct responses counts all of them and ends with its report.\<close>

definition delivers :: "(bool \<times> bool) list \<times> read_result list \<Rightarrow> bytes list \<Rightarrow> bool" where
  "delivers connection responses \<longleftrightarrow> list_all framed responses
     \<and> (\<exists>chunkings. list_all2 cut_into chunkings responses
          \<and> connection = (replicate (length responses) (False, True), map ReadBytes (concat chunkings)))"

lemma drive_all_counts:
  "list_all2 delivers connections answers \<Longrightarrow>
     drive_all connections (completed, failed) = (completed + length (concat answers), failed)"
proof (induction connections answers arbitrary: completed rule: list_all2_induct)
  case (Cons connection connections responses answers)
  then obtain chunkings where "list_all framed responses" "list_all2 cut_into chunkings responses"
      "connection = (replicate (length responses) (False, True), map ReadBytes (concat chunkings))" by (auto simp: delivers_def)
  with drive_counts_responses [of responses chunkings completed failed] Cons.IH show ?case by simp
qed simp

lemma profile_main_reports:
  assumes "args_parse read_secs raw default_args = ArgsParsed args" and "build_state cio args clock = Inr state"
    and "list_all2 delivers (take (ag_connections args) (transport (profile_request_bytes args))) answers"
  shows "profile_main read_secs cio clock raw transport baseline closing
    = ProfileReported (closing - baseline) (min (closing - baseline) (2 ^ 32 - 1)) (ag_connections args)"
  using assms drive_all_counts [OF assms(3), of 0 0] by (simp add: profile_main_def profile_report_def Let_def)

definition sample_head :: bytes where
  "sample_head = ''HTTP/1.1 200 OK'' @ crlf @ ''Content-Length: 2'' @ crlf @ crlf"

lemma sample_content_length: "content_length_of ''Content-Length: 2'' = Some 2"
proof -
  have "str_trim ''Content-Length'' = ''Content-Length''" "str_trim '' 2'' = ''2''"
    "eq_ignore_ascii_case ''Content-Length'' ''content-length''" by code_simp+
  then show ?thesis by (simp add: content_length_of_def parse_count_def parse_unsigned_def byte_of_def u64_max_def)
qed

lemma sample_framed: "framed (sample_head @ ''{}'')"
proof -
  have "from_utf8 sample_head = Some sample_head" by code_simp
  moreover have "str_lines sample_head = [''HTTP/1.1 200 OK'', ''Content-Length: 2'', [] ]"
    unfolding sample_head_def by (simp add: str_lines.simps)
  ultimately have "parse_content_length sample_head = 2"
    by (simp add: parse_content_length_def List.map_filter_def sample_content_length)
      (simp add: content_length_of_def)
  moreover have "find_head_end (sample_head @ ''{}'') = Some 38" "length sample_head = 38"
    by (simp_all add: find_head_end_def sample_head_def)
  ultimately show ?thesis by (simp add: framed_def)
qed

theorem drive_counts_responses_witness:
  "drive [(False, True), (False, True)]
     [ReadBytes (take 9 sample_head), ReadBytes (drop 9 sample_head @ ''{''), ReadBytes ''}'', ReadBytes (sample_head @ ''{}'')] (0, 0)
     = (2, 0)"
proof -
  let ?chunkings = "[[take 9 sample_head, drop 9 sample_head @ ''{'', ''}''], [sample_head @ ''{}'']]"
  have "list_all2 cut_into ?chunkings [sample_head @ ''{}'', sample_head @ ''{}'']"
    by (simp add: cut_into_def sample_head_def)
  with drive_counts_responses [of "[sample_head @ ''{}'', sample_head @ ''{}'']" ?chunkings 0 0] sample_framed
  show ?thesis by (simp add: numeral_2_eq_2)
qed

end
