(* ===== verification/Server.thy ===== *)
theory Server
  imports Handlers Pool_Manager Outbound
begin

text \<open>
  How \<open>src/main.rs\<close> puts the server together: everything that can fail before the first connection in the order of
  the code, the authenticator chain of the configuration, the initial state of the handlers, the periodic maintenance
  and the orderly end. What the operating system answers is a parameter (\<open>main_io\<close>), and the loops are functions of
  the events they select on. The clock is the one of \<open>src/adapters/system_clock.rs\<close>.
\<close>

section \<open>The system clock\<close>

text \<open>A \<open>SystemTime\<close> is the nanoseconds since the epoch; before the epoch the code uses the default duration.\<close>

definition system_unix_secs :: "int \<Rightarrow> nat" where
  "system_unix_secs now = (let since_epoch = (if 0 \<le> now then nat now else 0) in since_epoch div 1000000000)"

lemma system_unix_secs_mono: "now \<le> now' \<Longrightarrow> system_unix_secs now \<le> system_unix_secs now'"
  by (auto simp: system_unix_secs_def Let_def intro!: div_le_mono)

section \<open>Start\<close>

datatype start_error =
    ConfigurationFailed config_error
  | TlsNotImplemented
  | MetricsBindUnparsed string
  | MetricsListenerFailed string
  | JwksClient jwks_error
  | IntrospectionClient introspect_error
  | ListenFailed string string
  | SigtermHandlerFailed string

text \<open>
  The environment, the log filter it asks for, whether a text is the address of a loopback interface, and what comes of starting the metrics
  listener, of binding the server's address, and of installing the signal handler.
\<close>

record main_io =
  mi_env :: "string \<Rightarrow> string option"
  mi_log_filter :: "string option"
  mi_is_loopback :: "string \<Rightarrow> bool"
  mi_metrics_listener :: "string \<Rightarrow> string + unit"
  mi_listen :: "string \<Rightarrow> string + unit"
  mi_sigterm :: "string + unit"

datatype log_format = TextLog | JsonLog

definition initialize_tracing :: "main_io \<Rightarrow> string \<times> log_format" where
  "initialize_tracing io =
     (case mi_log_filter io of Some f \<Rightarrow> f | None \<Rightarrow> ''info'',
      if mi_env io ''SRH_LOG_FORMAT'' = Some ''json'' then JsonLog else TextLog)"

definition warn_for_insecure_public_bind :: "main_io \<Rightarrow> string \<Rightarrow> string list" where
  "warn_for_insecure_public_bind io bind =
     (if \<not> mi_is_loopback io bind then [''binding to a non-loopback interface without TLS''] else [])"

definition bind_address :: "string \<Rightarrow> nat \<Rightarrow> string" where
  "bind_address bind port =
     (if CHR '':'' \<in> set bind \<and> (bind = [] \<or> hd bind \<noteq> CHR ''['')
      then ''['' @ bind @ '']:'' @ nat_text port
      else bind @ '':'' @ nat_text port)"

definition server_introspector ::
  "net_lib \<Rightarrow> 'n sender \<Rightarrow> jwt_config \<Rightarrow> start_error + 'n introspector option" where
  "server_introspector nl send jc =
     (let i = jw_introspection jc in
      if in_enabled i
      then (case http_introspector_new nl (in_url i) (in_client_id i) (in_client_secret i) of
              Inl e \<Rightarrow> Inl (IntrospectionClient e)
            | Inr hi \<Rightarrow> Inr (Some (is_active nl send hi)))
      else Inr None)"

text \<open>
  The key source and the introspector are each on their own network state. The authenticator comes
  with the state of the JWT link, when the configuration asks for one.
\<close>

type_synonym 'n auth_state = "('n http_jwks, 'n) jwt_state"

definition server_authenticator ::
  "(bytes \<Rightarrow> bytes) \<Rightarrow> 'k jwt_lib \<Rightarrow> net_lib \<Rightarrow> 'n sender \<Rightarrow> 'n \<Rightarrow> instant stream \<Rightarrow> config
    \<Rightarrow> start_error + 'n auth_state option \<times> 'n auth_state authenticator" where
  "server_authenticator sha256 jlib nl send network clock cfg =
     (let static = static_authenticate sha256 (static_auth_new (au_static_tokens (cf_auth cfg))) in
      case au_jwt (cf_auth cfg) of
        Some jc \<Rightarrow>
          (case http_jwks_new nl (jw_issuer jc) (jwks_refresh_secs jc) network clock of
             Inl e \<Rightarrow> Inl (JwksClient e)
           | Inr jwks \<Rightarrow>
               res_bind (server_introspector nl send jc) (\<lambda>intro.
                 Inr (Some (jwt_state_new jc jwks network clock),
                      auth_chain [jwt_authenticate jlib (key_for nl send) intro (jwt_auth_new jc (cf_pools cfg)), static])))
      | None \<Rightarrow> Inr (None, auth_chain [static]))"

text \<open>What a server that has started works with.\<close>

record 'n started =
  sd_log :: "string \<times> log_format"
  sd_config :: config
  sd_warnings :: "string list"
  sd_metrics :: "(string \<times> string) list"
  sd_jwt :: "'n auth_state option"
  sd_authenticator :: "'n auth_state authenticator"
  sd_address :: string

abbreviation failing :: "('e \<Rightarrow> 'g) \<Rightarrow> 'e + 'a \<Rightarrow> 'g + 'a" where
  "failing f r \<equiv> map_sum f (\<lambda>a. a) r"

definition server_start ::
  "'f config_io \<Rightarrow> main_io \<Rightarrow> 'k jwt_lib \<Rightarrow> net_lib \<Rightarrow> 'n sender \<Rightarrow> 'n \<Rightarrow> instant stream \<Rightarrow> start_error + 'n started" where
  "server_start cio io jlib nl send network clock =
     (let log = initialize_tracing io in
      res_bind (failing ConfigurationFailed (from_environment cio (mi_env io))) (\<lambda>cfg.
      if sv_tls (cf_server cfg) \<noteq> None then Inl TlsNotImplemented
      else
       (let warnings = warn_for_insecure_public_bind io (sv_bind (cf_server cfg));
            metrics_address = metrics_bind (cf_server cfg) in
        res_bind (case io_parse_addr cio metrics_address of
                    Some complaint \<Rightarrow> Inl (MetricsBindUnparsed complaint) | None \<Rightarrow> Inr ()) (\<lambda>_.
        res_bind (failing MetricsListenerFailed (mi_metrics_listener io metrics_address)) (\<lambda>_.
        res_bind (server_authenticator (io_sha256 cio) jlib nl send network clock cfg) (\<lambda>(jwt, authenticator).
        let address = bind_address (sv_bind (cf_server cfg)) (sv_port (cf_server cfg)) in
        res_bind (failing (ListenFailed address) (mi_listen io address)) (\<lambda>_.
        res_bind (failing SigtermHandlerFailed (mi_sigterm io)) (\<lambda>_.
        Inr \<lparr>sd_log = log, sd_config = cfg, sd_warnings = warnings, sd_metrics = register_metrics cfg,
             sd_jwt = jwt, sd_authenticator = authenticator, sd_address = address\<rparr>))))))))"

definition app_state_new :: "config \<Rightarrow> 's \<Rightarrow> instant stream \<Rightarrow> ('c pool_manager, 's) app_state" where
  "app_state_new cfg auth clock =
     \<lparr>as_provider = pool_manager_new, as_authenticator = auth, as_clock = clock,
      as_rate_limiter = rate_limiter_new (per_token_commands_per_sec (sv_rate_limit (cf_server cfg))),
      as_metrics = [], as_audit = audit_default\<rparr>"

section \<open>Maintenance\<close>

text \<open>The JWT authenticator, when there is one, is the authenticator state of the handlers.\<close>

definition maintenance_pass ::
  "config \<Rightarrow> nat \<Rightarrow> ('c pool_manager, 'n auth_state) app_state \<Rightarrow> ('c pool_manager, 'n auth_state) app_state" where
  "maintenance_pass cfg unix_secs s =
     (let s1 = s\<lparr>as_provider := snd (evict_idle unix_secs (as_provider s))\<rparr>;
          s2 = s1\<lparr>as_rate_limiter := snd (sweep_idle (shd (as_clock s1)) (as_rate_limiter s1)),
                  as_clock := stl (as_clock s1)\<rparr> in
      case au_jwt (cf_auth cfg) of
        Some _ \<Rightarrow> s2\<lparr>as_authenticator := snd (sweep_introspection_cache (as_authenticator s2))\<rparr>
      | None \<Rightarrow> s2)"

datatype maintenance_event = Tick nat | StopChanged bool | StopSenderGone

fun run_pool_maintenance ::
  "config \<Rightarrow> maintenance_event list \<Rightarrow> ('c pool_manager, 'n auth_state) app_state
    \<Rightarrow> ('c pool_manager, 'n auth_state) app_state" where
  "run_pool_maintenance cfg [] s = s"
| "run_pool_maintenance cfg (Tick unix_secs # events) s = run_pool_maintenance cfg events (maintenance_pass cfg unix_secs s)"
| "run_pool_maintenance cfg (StopChanged stop # events) s = (if stop then s else run_pool_maintenance cfg events s)"
| "run_pool_maintenance cfg (StopSenderGone # events) s = s"

section \<open>Accepting and stopping\<close>

text \<open>
  The accept loop by the events it selects on: the peers whose connections are served, up to the shutdown signal. After
  it the maintenance task is told to stop, which it does after what it was doing, and the pools are shut down.
\<close>

datatype shutdown_event = CtrlC "string + unit" | Terminate

text \<open>What the wait for a signal logs before it ends; a failure to listen for the interrupt ends it too.\<close>

definition shutdown_signal :: "shutdown_event \<Rightarrow> string list" where
  "shutdown_signal ev = (case ev of CtrlC (Inl error) \<Rightarrow> [''failed to listen for SIGINT''] | _ \<Rightarrow> [])"

datatype 'peer accept_event =
    AcceptFailed string
  | NoDelayFailed 'peer string
  | Connected 'peer
  | ShutdownSignal shutdown_event

fun accept_loop :: "'peer accept_event list \<Rightarrow> 'peer list" where
  "accept_loop [] = []"
| "accept_loop (AcceptFailed error # events) = accept_loop events"
| "accept_loop (NoDelayFailed peer error # events) = accept_loop events"
| "accept_loop (Connected peer # events) = peer # accept_loop events"
| "accept_loop (ShutdownSignal ev # events) = []"

definition server_end ::
  "config \<Rightarrow> maintenance_event list \<Rightarrow> ('c pool_manager, 'n auth_state) app_state
    \<Rightarrow> ('c pool_manager, 'n auth_state) app_state" where
  "server_end cfg pending s =
     (let s1 = run_pool_maintenance cfg (pending @ [StopChanged True]) s in
      s1\<lparr>as_provider := pool_manager_shutdown (as_provider s1)\<rparr>)"

section \<open>Identities and pools\<close>

lemma hm_get_jwt_pools:
  "hm_get (ja_pools (jwt_auth_new jc pools)) name = map_option pc_allowed_script_sha256 (hm_get pools name)"
  by (induction pools) (auto simp: jwt_auth_new_def)

abbreviation pool_configured :: "config \<Rightarrow> identity \<Rightarrow> bool" where
  "pool_configured c ident \<equiv> \<exists>p. hm_get (cf_pools c) (pool ident) = Some p"

lemma static_link_configured:
  assumes "validate parse_url parse_addr c = Inr ()"
  shows "authenticator (static_authenticate sha256 (static_auth_new (au_static_tokens (cf_auth c)))) (\<lambda>_. True)
    (pool_configured c)"
  by (rule static.weaken)
    (auto simp: static_identities_def static_identity_def Let_def dest: validated_token_pool [OF assms])

lemma jwt_link_configured:
  "authenticator (jwt_authenticate jlib keys intro (jwt_auth_new jc (cf_pools c))) (\<lambda>_. True) (pool_configured c)"
  by (rule jwt.weaken) (auto simp: hm_get_jwt_pools)

lemma server_authenticator_configured:
  assumes "validate parse_url parse_addr c = Inr ()" and "server_authenticator sha256 jlib nl send network clock c = Inr (js, authenticate)"
  shows "authenticator authenticate (\<lambda>_. True) (pool_configured c)"
proof (cases "au_jwt (cf_auth c)")
  case None
  then show ?thesis
    using assms(2) authenticator.chained [OF static_link_configured [OF assms(1)], of "[]"]
    by (auto simp: server_authenticator_def Let_def)
next
  case (Some jc)
  then obtain intro where "authenticate = auth_chain
      [jwt_authenticate jlib (key_for nl send) intro (jwt_auth_new jc (cf_pools c)),
       static_authenticate sha256 (static_auth_new (au_static_tokens (cf_auth c)))]"
    using assms(2) by (auto simp: server_authenticator_def Let_def res_bind_Inr_iff split: sum.splits)
  then show ?thesis
    by (simp only:)
      (rule authenticator.chained [OF jwt_link_configured]; simp add: static_link_configured [OF assms(1)])
qed

text \<open>A server that has started went through every check on the way.\<close>

lemma server_start_started:
  assumes "server_start cio io jlib nl send network clock = Inr sd"
  shows "from_environment cio (mi_env io) = Inr (sd_config sd)"
    and "server_authenticator (io_sha256 cio) jlib nl send network clock (sd_config sd) = Inr (sd_jwt sd, sd_authenticator sd)"
    and "sv_tls (cf_server (sd_config sd)) = None"
  using assms
  by (auto simp: server_start_def res_bind_Inr_iff map_sum_def Let_def split: if_splits sum.splits prod.splits)

text \<open>The parse of the metrics address, which validation has done before, does not fail after it.\<close>

lemma metrics_bind_parses:
  "server_start cio io jlib nl send network clock \<noteq> Inl (MetricsBindUnparsed complaint)"
proof
  assume fail: "server_start cio io jlib nl send network clock = Inl (MetricsBindUnparsed complaint)"
  show False
  proof (cases "from_environment cio (mi_env io)")
    case (Inl e)
    with fail show False by (simp add: server_start_def res_bind_def)
  next
    case (Inr c)
    then have "validate_server (io_parse_addr cio) (cf_server c) = Inr ()"
      using from_environment_validated [OF Inr] by (auto simp: validate_def res_bind_Inr_iff)
    then have "io_parse_addr cio (metrics_bind (cf_server c)) = None"
      by (auto simp: validate_server_def res_bind_Inr_iff split: option.splits)
    with fail Inr show False
      by (auto simp: server_start_def res_bind_def map_sum_def server_authenticator_def server_introspector_def Let_def
          split: if_splits sum.splits option.splits)
  qed
qed

lemma acquire_entry_errors: "acquire_entry now i e = (Inl err, e') \<Longrightarrow> err = AcqOverloaded \<or> (\<exists>secs. err = AcqPoolOpen secs)"
  by (auto simp: acquire_entry_def split: prod.splits sum.splits option.splits)

lemma configured_pool_known:
  assumes "hm_get (cf_pools c) name = Some p"
  shows "fst (pool_acquire build c unix_secs now name m) \<noteq> Inl (UnknownPool n)"
  using assms acquire_entry_errors
  by (fastforce simp: pool_acquire_def get_or_build_def pool_build_def split: prod.splits sum.splits option.splits)

end
