(* ===== verification/Pool_Leases.thy ===== *)
theory Pool_Leases
  imports Leases Pool_Manager
begin

text \<open>
  The pool manager keeps the interface \<open>lease_provider\<close>: between requests every pool has all its permits, an
  empty queue, no leased client, a gauge of zero and a breaker that is not half open; a handle is
  exactly one permit, one client lease and one breaker permit of its entry; and only
  configured pools are built. Eviction and shutdown keep this too.
\<close>

section \<open>Entries\<close>

definition entry_idle :: "'c pool_entry \<Rightarrow> bool" where
  "entry_idle e \<longleftrightarrow>
     pe_permits e = pe_permit_count e \<and> pe_waiters e = 0 \<and> pe_permits_in_use e = 0
     \<and> pe_client_leases e = replicate (pe_permit_count e) False \<and> length (pe_clients e) = pe_permit_count e
     \<and> breaker_state_of (pe_breaker e) \<noteq> HalfOpen"

definition probe_owned :: "pool_handle \<Rightarrow> breaker \<Rightarrow> bool" where
  "probe_owned h b \<longleftrightarrow>
     (breaker_state_of b = HalfOpen \<longrightarrow>
        \<not> ph_recorded h \<and> pm_probe (ph_permit h) \<and> pm_generation (ph_permit h) = breaker_generation b)"

definition entry_leased :: "pool_handle \<Rightarrow> 'c pool_entry \<Rightarrow> bool" where
  "entry_leased h e \<longleftrightarrow>
     pe_permits e + 1 = pe_permit_count e \<and> pe_waiters e = 0 \<and> pe_permits_in_use e = 1
     \<and> pe_client_leases e = (replicate (pe_permit_count e) False)[ph_client h := True] \<and> ph_client h < pe_permit_count e
     \<and> length (pe_clients e) = pe_permit_count e \<and> probe_owned h (pe_breaker e)"

lemma breaker_admit_half_open:
  assumes "breaker_admit now b = (r, b')" and "breaker_state_of b \<noteq> HalfOpen"
  shows "(case r of
      Inl _ \<Rightarrow> b' = b
    | Inr adm \<Rightarrow> breaker_state_of b' = HalfOpen \<longrightarrow>
        pm_probe (ad_permit adm) \<and> pm_generation (ad_permit adm) = breaker_generation b')"
  using assms by (auto simp: breaker_admit_def Let_def split: breaker_state.splits if_splits)

lemma breaker_cancel_resolves:
  assumes "breaker_state_of b = HalfOpen \<longrightarrow> pm_probe permit \<and> pm_generation permit = breaker_generation b"
  shows "breaker_state_of (breaker_cancel permit b) \<noteq> HalfOpen"
  using assms by (auto simp: breaker_cancel_def Let_def)

lemma breaker_record_resolves:
  assumes "breaker_state_of b = HalfOpen \<longrightarrow> pm_probe permit \<and> pm_generation permit = breaker_generation b"
  shows "breaker_state_of (snd (breaker_record now permit failed b)) \<noteq> HalfOpen"
  using assms by (auto simp: breaker_record_def Let_def)

lemma scan_leases_free [simp]: "0 < n \<Longrightarrow> start < n \<Longrightarrow> scan_leases start (replicate n False) = Some start"
  by (simp add: scan_leases_def upt_rec [of 0 n])

lemma acquire_entry_idle:
  assumes "entry_idle e" and "acquire_entry now i e = (r, e')"
  shows "case r of Inl _ \<Rightarrow> entry_idle e' | Inr h \<Rightarrow> ph_entry h = i \<and> entry_leased h e'"
proof (cases "fst (breaker_admit now (pe_breaker e))")
  case (Inl secs)
  then show ?thesis
    using assms breaker_admit_half_open [of now "pe_breaker e"]
    by (auto simp: acquire_entry_def entry_admit_def entry_idle_def split: prod.splits)
next
  case (Inr adm)
  then obtain b where b: "breaker_admit now (pe_breaker e) = (Inr adm, b)" by (metis prod.collapse)
  with assms(1) breaker_admit_half_open [OF b]
  have own: "breaker_state_of b = HalfOpen \<longrightarrow> pm_probe (ad_permit adm) \<and> pm_generation (ad_permit adm) = breaker_generation b"
    by (simp add: entry_idle_def)
  show ?thesis
  proof (cases "pe_max_waiters e = 0 \<or> pe_permits e = 0")
    case True
    then show ?thesis
      using assms b breaker_cancel_resolves [OF own]
      by (auto simp: acquire_entry_def entry_admit_def entry_idle_def waiter_enter_def permit_take_def waiter_drop_def
          admission_drop_def restart_connection_task_def Let_def split: prod.splits if_splits)
  next
    case False
    then show ?thesis
      using assms b own
      by (auto simp: acquire_entry_def entry_admit_def entry_idle_def entry_leased_def probe_owned_def waiter_enter_def
          permit_take_def waiter_drop_def restart_connection_task_def acquire_client_def next_start_def lease_lock_def
          gauge_add_def Let_def split: prod.splits if_splits option.splits)
  qed
qed

section \<open>Handles\<close>

lemma be_ops_handle:
  assumes "probe_owned h (be_breaker x)" and "be_permit x = ph_permit h"
  shows "breaker_state_of (be_breaker (be_record now errors x)) \<noteq> HalfOpen"
proof -
  have "breaker_state_of (be_breaker x) = HalfOpen \<longrightarrow>
      pm_probe (be_permit x) \<and> pm_generation (be_permit x) = breaker_generation (be_breaker x)"
    using assms by (simp add: probe_owned_def)
  from breaker_record_resolves [OF this, of now "list_ex counts_as_failure errors"] show ?thesis
    by (auto simp: be_record_def split: prod.splits)
qed

text \<open>An operation of the wrapper records once and resolves the breaker.\<close>

definition resolves :: "('p breaker_executor \<Rightarrow> 'r \<times> 'p breaker_executor) \<Rightarrow> bool" where
  "resolves f \<longleftrightarrow> (\<forall>x. \<exists>now errors p. snd (f x) = be_record now errors (x\<lparr>be_inner := p\<rparr>))"

lemma be_ops_resolve:
  "resolves (be_execute now execute cmd)"
  "resolves (be_pipeline now pipeline cmds)"
  "resolves (be_transaction now transaction cmds)"
  by (auto simp: resolves_def be_execute_def be_pipeline_def be_transaction_def split: prod.splits)

lemma with_executor_leased:
  assumes "resolves f" and "entry_leased h (pm_entries m ! ph_entry h)" and "ph_entry h < length (pm_entries m)"
    and "with_executor f (h, m) = (r, h', m')"
  shows "ph_entry h' = ph_entry h \<and> pm_pools m' = pm_pools m
    \<and> (\<exists>e. pm_entries m' = (pm_entries m)[ph_entry h := e] \<and> entry_leased h' e)"
proof -
  let ?x = "handle_executor h (pm_entries m ! ph_entry h)"
  obtain now errors p where x: "snd (f ?x) = be_record now errors (?x\<lparr>be_inner := p\<rparr>)"
    using assms(1) unfolding resolves_def by blast
  have "breaker_state_of (be_breaker (snd (f ?x))) \<noteq> HalfOpen"
    unfolding x by (rule be_ops_handle [of h]) (use assms(2) in \<open>simp_all add: entry_leased_def handle_executor_def\<close>)
  then show ?thesis
    using assms(2-4)
    by (auto simp: with_executor_def store_executor_def put_entry_def entry_leased_def probe_owned_def Let_def
        split: prod.splits)
qed

lemma entry_drop_idle:
  assumes "entry_leased h e"
  shows "entry_idle (lease_unlock (ph_client h) (permit_give (gauge_add (- 1)
    (e\<lparr>pe_breaker := be_breaker (be_drop (handle_executor h e))\<rparr>))))"
proof -
  have own: "probe_owned h (pe_breaker e)" using assms by (simp add: entry_leased_def)
  have "breaker_state_of (be_breaker (be_drop (handle_executor h e))) \<noteq> HalfOpen"
    using own breaker_cancel_resolves [of "pe_breaker e" "ph_permit h"]
    by (auto simp: be_drop_def handle_executor_def probe_owned_def)
  moreover have "(replicate n False)[i := False] = replicate n False" for n i
    by (metis list_update_id list_update_beyond length_replicate linorder_not_le nth_replicate)
  ultimately show ?thesis
    using assms by (simp add: entry_idle_def entry_leased_def lease_unlock_def permit_give_def gauge_add_def)
qed

section \<open>The manager\<close>

definition pools_known :: "config \<Rightarrow> 'c pool_manager \<Rightarrow> bool" where
  "pools_known cfg m \<longleftrightarrow> hm_wf (pm_pools m)
     \<and> (\<forall>name i. hm_get (pm_pools m) name = Some i \<longrightarrow>
          i < length (pm_entries m) \<and> (\<exists>pc. hm_get (cf_pools cfg) name = Some pc))"

definition manager_idle :: "config \<Rightarrow> 'c pool_manager \<Rightarrow> bool" where
  "manager_idle cfg m \<longleftrightarrow> pools_known cfg m \<and> list_all entry_idle (pm_entries m)"

definition manager_leased :: "config \<Rightarrow> pool_handle \<Rightarrow> 'c pool_manager \<Rightarrow> bool" where
  "manager_leased cfg h m \<longleftrightarrow> pools_known cfg m \<and> ph_entry h < length (pm_entries m)
     \<and> entry_leased h (pm_entries m ! ph_entry h)
     \<and> (\<forall>j < length (pm_entries m). j \<noteq> ph_entry h \<longrightarrow> entry_idle (pm_entries m ! j))"

lemma pools_known_put [simp]: "pools_known cfg (put_entry i e m) = pools_known cfg m"
  by (simp add: pools_known_def put_entry_def)

lemma manager_idle_put: "manager_idle cfg m \<Longrightarrow> entry_idle e \<Longrightarrow> manager_idle cfg (put_entry i e m)"
  by (simp add: manager_idle_def) (auto simp: put_entry_def list_all_iff dest!: subsetD [OF set_update_subset_insert])

lemma manager_leased_put:
  assumes "manager_idle cfg m" and "i < length (pm_entries m)" and "ph_entry h = i" and "entry_leased h e"
  shows "manager_leased cfg h (put_entry i e m)"
  using assms by (simp add: manager_leased_def manager_idle_def) (simp add: put_entry_def list_all_length)

lemma manager_entry_idle: "manager_idle cfg m \<Longrightarrow> i < length (pm_entries m) \<Longrightarrow> entry_idle (pm_entries m ! i)"
  by (simp add: manager_idle_def list_all_length)

lemma get_or_build_idle:
  assumes "manager_idle cfg m" and "get_or_build build cfg unix_secs name m = (r, m')"
  shows "manager_idle cfg m' \<and> (\<forall>i. r = Inr i \<longrightarrow> i < length (pm_entries m'))"
proof (cases "hm_get (pm_pools m) name")
  case (Some i)
  then have "i < length (pm_entries m)" using assms(1) by (auto simp: manager_idle_def pools_known_def)
  then have "entry_idle ((ensure_connection_task (pm_entries m ! i))\<lparr>pe_last_used := unix_secs\<rparr>)"
    using manager_entry_idle [OF assms(1)] by (simp add: entry_idle_def ensure_connection_task_def Let_def)
  then have "manager_idle cfg (put_entry i ((ensure_connection_task (pm_entries m ! i))\<lparr>pe_last_used := unix_secs\<rparr>) m)"
    by (rule manager_idle_put [OF assms(1)])
  with \<open>i < length (pm_entries m)\<close> Some assms show ?thesis
    by (auto simp: get_or_build_def put_entry_def split: option.splits)
next
  case None
  have fresh: "entry_idle e" if "pool_build build unix_secs pc = Inr e" for pc e
    using that by (auto simp: pool_build_def entry_idle_def breaker_new_def split: sum.splits)
  show ?thesis
    using assms None fresh
    by (auto simp: get_or_build_def manager_idle_def pools_known_def hm.invar_ins less_Suc_eq update_conv'
        split: option.splits sum.splits if_splits)
qed

lemma pool_acquire_idle:
  assumes "manager_idle cfg m" and "pool_acquire build cfg unix_secs now name m = (r, m')"
  shows "case r of Inl _ \<Rightarrow> manager_idle cfg m' | Inr h \<Rightarrow> manager_leased cfg h m'"
proof -
  obtain q m1 where q: "get_or_build build cfg unix_secs name m = (q, m1)" by fastforce
  note idle = get_or_build_idle [OF assms(1) q]
  show ?thesis
  proof (cases q)
    case (Inl e)
    then show ?thesis using assms(2) q idle by (auto simp: pool_acquire_def)
  next
    case (Inr i)
    obtain t e where t: "acquire_entry now i (pm_entries m1 ! i) = (t, e)" by fastforce
    have i: "i < length (pm_entries m1)" "manager_idle cfg m1" using idle Inr by auto
    have "r = t" "m' = put_entry i e m1" using assms(2) q Inr t by (auto simp: pool_acquire_def)
    with acquire_entry_idle [OF manager_entry_idle [OF i(2,1)] t] i show ?thesis
      by (auto split: sum.splits intro: manager_idle_put manager_leased_put)
  qed
qed

lemma pool_acquire_refused:
  "manager_idle cfg m \<Longrightarrow> pool_acquire build cfg unix_secs now name m = (Inl e, m') \<Longrightarrow> manager_idle cfg m'"
  using pool_acquire_idle by fastforce

lemma pool_acquire_granted:
  "manager_idle cfg m \<Longrightarrow> pool_acquire build cfg unix_secs now name m = (Inr h, m') \<Longrightarrow> manager_leased cfg h m'"
  using pool_acquire_idle by fastforce

lemma manager_execute_leased:
  assumes "resolves f" and "manager_leased cfg h m" and "with_executor f (h, m) = (r, h', m')"
  shows "manager_leased cfg h' m'"
proof -
  have "entry_leased h (pm_entries m ! ph_entry h)" "ph_entry h < length (pm_entries m)"
    using assms(2) by (simp_all add: manager_leased_def)
  from with_executor_leased [OF assms(1) this assms(3)] assms(2) show ?thesis
    by (auto simp: manager_leased_def pools_known_def)
qed

lemma handle_drop_idle:
  assumes "manager_leased cfg h m"
  shows "manager_idle cfg (handle_drop h m)"
proof -
  have "entry_leased h (pm_entries m ! ph_entry h)" using assms by (simp add: manager_leased_def)
  note entry_drop_idle [OF this]
  with assms show ?thesis
    by (simp add: handle_drop_def manager_idle_def manager_leased_def Let_def)
      (simp add: put_entry_def list_all_length nth_list_update)
qed

lemma probe_all_idle: "manager_idle cfg m \<Longrightarrow> manager_idle cfg (snd (probe_all ops wait pools m))"
proof (induction ops wait pools m rule: probe_all.induct)
  case (2 ops wait name i rest m)
  obtain status e where p: "probe_entry ops (wait name) (pm_entries m ! i) = (status, e)" by fastforce
  have "manager_idle cfg (put_entry i e m)"
  proof (cases "i < length (pm_entries m)")
    case True
    then have "entry_idle e"
      using manager_entry_idle [OF "2.prems"] p
      by (auto simp: probe_entry_def readiness_client_def entry_idle_def Let_def split: prod.splits)
    then show ?thesis by (rule manager_idle_put [OF "2.prems"])
  next
    case False
    then show ?thesis using "2.prems" by (simp add: put_entry_def list_update_beyond linorder_not_less)
  qed
  with "2.IH" [OF p [symmetric]] p show ?case by (auto split: prod.splits)
qed simp

interpretation managed: lease_provider "pool_provider ops build cfg unix_secs admitted_at recorded_at wait"
    "manager_idle cfg" "manager_leased cfg"
  for ops :: "'c fred_ops" and build cfg unix_secs admitted_at recorded_at wait
  by (unfold_locales; unfold pool_provider_def provider.select_convs)
    (erule (1) pool_acquire_refused pool_acquire_granted manager_execute_leased [OF be_ops_resolve(1)]
       manager_execute_leased [OF be_ops_resolve(2)] manager_execute_leased [OF be_ops_resolve(3)]
     | erule handle_drop_idle probe_all_idle)+

section \<open>Eviction and shutdown\<close>

lemma manager_idle_forget:
  assumes "manager_idle cfg m" and "hm_get (pm_pools m) name = Some i"
  shows "manager_idle cfg (put_entry i (pool_shutdown (pm_entries m ! i)) (m\<lparr>pm_pools := hm_remove name (pm_pools m)\<rparr>))"
proof (rule manager_idle_put)
  have "i < length (pm_entries m)" using assms by (auto simp: manager_idle_def pools_known_def)
  then show "entry_idle (pool_shutdown (pm_entries m ! i))"
    using manager_entry_idle [OF assms(1)] by (simp add: entry_idle_def pool_shutdown_def)
  show "manager_idle cfg (m\<lparr>pm_pools := hm_remove name (pm_pools m)\<rparr>)"
    using assms(1) by (auto simp: manager_idle_def pools_known_def hm.invar_rem delete_conv' split: if_splits)
qed

lemma evict_names_idle: "manager_idle cfg m \<Longrightarrow> manager_idle cfg (snd (evict_names now names m))"
proof (induction names arbitrary: m)
  case (Cons name names)
  show ?case
  proof (cases "hm_get (pm_pools m) name")
    case (Some i)
    then have "i < length (pm_entries m)" using Cons.prems by (auto simp: manager_idle_def pools_known_def)
    then have "(pool_shutdown (pm_entries m ! i))\<lparr>pe_permits_in_use := 0\<rparr> = pool_shutdown (pm_entries m ! i)"
      using manager_entry_idle [OF Cons.prems] by (simp add: entry_idle_def pool_shutdown_def)
    with Cons.IH [OF manager_idle_forget [OF Cons.prems Some]] Cons.IH [OF Cons.prems] Some show ?thesis
      by (auto simp: Let_def split: prod.splits)
  next
    case None
    then show ?thesis using Cons.IH [OF Cons.prems] by simp
  qed
qed simp

lemma evict_idle_idle: "manager_idle cfg m \<Longrightarrow> manager_idle cfg (snd (evict_idle now m))"
  by (simp add: evict_idle_def evict_names_idle)

lemma shutdown_names_idle:
  "manager_idle cfg m \<Longrightarrow> manager_idle cfg (shutdown_names names m)
     \<and> dom (hm_get (pm_pools (shutdown_names names m))) = dom (hm_get (pm_pools m)) - set names"
proof (induction names m rule: shutdown_names.induct)
  case (2 name names m)
  then show ?case
    using manager_idle_forget [OF "2.prems"]
    by (cases "hm_get (pm_pools m) name") (auto simp: put_entry_def delete_conv' split: if_splits)
qed simp

lemma manager_shutdown_idle: "manager_idle cfg m \<Longrightarrow> manager_idle cfg (pool_manager_shutdown m)"
  by (simp add: pool_manager_shutdown_def shutdown_names_idle)

lemma manager_shutdown_empty: "manager_idle cfg m \<Longrightarrow> built_pool_count (pool_manager_shutdown m) = 0"
  using shutdown_names_idle [of cfg m "map fst (pm_pools m)"]
  by (auto simp: pool_manager_shutdown_def built_pool_count_def dom_map_of_conv_image_fst)

end
