(* ===== verification/Server_Runs.thy ===== *)
theory Server_Runs
  imports Server Pool_Leases Router
begin

text \<open>
  The running server: from its initial state, requests through the observed router and passes of the maintenance
  task (\<open>src/main.rs\<close>), one after another, over the pool manager. The invariant is the one of
  the pool manager between requests, kept by every handler through the locale \<open>lease_provider\<close>, with the
  in-flight gauge at zero. Requests run to their response here, shed and refused ones included; those cut off by
  the HTTP timeout or by their client are the drops of \<open>Pool_Interleaving\<close>.
\<close>

type_synonym ('c, 'n) server_state = "('c pool_manager, 'n auth_state) app_state \<times> registry"

inductive server_step ::
  "'f libs \<Rightarrow> config \<Rightarrow> 'n auth_state authenticator \<Rightarrow> 'c fred_ops \<Rightarrow> (pool_config \<Rightarrow> string + (nat \<Rightarrow> 'c))
    \<Rightarrow> ('c, 'n) server_state \<Rightarrow> ('c, 'n) server_state \<Rightarrow> bool"
  for lib cfg authenticate ops build where
  request: "router lib cfg authenticate (pool_provider ops build cfg unix_secs admitted_at recorded_at wait)
      adm None elapsed verb path loopback rq (s, rg) = (Some response, s', rg')
      \<Longrightarrow> adm \<in> {Passed, Shed, BodyTooLarge too_large} \<Longrightarrow> server_step lib cfg authenticate ops build (s, rg) (s', rg')"
| maintenance: "server_step lib cfg authenticate ops build (s, rg) (maintenance_pass cfg unix_secs s, rg)"

definition server_init :: "config \<Rightarrow> ('c, 'n) server_state \<Rightarrow> bool" where
  "server_init cfg x \<longleftrightarrow> (\<exists>auth clock. fst x = app_state_new cfg auth clock) \<and> rg_in_flight (snd x) = 0"

definition server_idle :: "config \<Rightarrow> ('c, 'n) server_state \<Rightarrow> bool" where
  "server_idle cfg x \<longleftrightarrow> manager_idle cfg (as_provider (fst x)) \<and> rg_in_flight (snd x) = 0"

lemma observe_in_flight [simp]: "rg_in_flight (observe elapsed path inner rg) = rg_in_flight rg"
  by (simp add: observe_def in_flight_enter_def in_flight_drop_def record_request_def Let_def split: option.splits)

lemma router_serve_keeps_idle:
  assumes "manager_idle cfg (as_provider s)" and "adm \<in> {Passed, Shed, BodyTooLarge too_large}"
  shows "manager_idle cfg (as_provider (snd (router_serve lib cfg authenticate
    (pool_provider ops build cfg unix_secs admitted_at recorded_at wait) adm verb path loopback rq s)))"
proof -
  have "manager_idle cfg (as_provider (snd (serve lib cfg authenticate
      (pool_provider ops build cfg unix_secs admitted_at recorded_at wait) verb path loopback rq s)))"
    using managed.serve_keeps_idle [OF assms(1)] by (metis prod.collapse)
  with assms show ?thesis
    by (auto simp: router_serve_def apply_admission_controls_def admission_error_def count_metric_def Let_def)
qed

lemma router_keeps_idle:
  assumes "server_idle cfg (s, rg)" and "adm \<in> {Passed, Shed, BodyTooLarge too_large}"
    and "router lib cfg authenticate (pool_provider ops build cfg unix_secs admitted_at recorded_at wait)
      adm None elapsed verb path loopback rq (s, rg) = (Some response, s', rg')"
  shows "server_idle cfg (s', rg')"
  using assms(1,3) router_serve_keeps_idle [OF _ assms(2), of cfg "s\<lparr>as_audit := audit_default\<rparr>"]
  by (auto simp: router_def server_idle_def Let_def)

lemma maintenance_pass_provider:
  "as_provider (maintenance_pass cfg unix_secs s) = snd (evict_idle unix_secs (as_provider s))"
  by (simp add: maintenance_pass_def Let_def split: option.splits)

lemma run_pool_maintenance_idle:
  "manager_idle cfg (as_provider s) \<Longrightarrow> manager_idle cfg (as_provider (run_pool_maintenance cfg events s))"
  by (induction cfg events s rule: run_pool_maintenance.induct) (simp_all add: maintenance_pass_provider evict_idle_idle)

interpretation server: step_system "server_init cfg" "server_step lib cfg authenticate ops build" "server_idle cfg"
  for lib :: "'f libs" and cfg and authenticate :: "'n auth_state authenticator" and ops :: "'c fred_ops" and build
proof
  fix x y :: "('c, 'n) server_state"
  show "server_idle cfg x" if "server_init cfg x"
    using that by (auto simp: server_init_def server_idle_def app_state_new_def pool_manager_new_def manager_idle_def
        pools_known_def hm_wf_def)
  show "server_idle cfg y" if "server_idle cfg x" "server_step lib cfg authenticate ops build x y"
    using that(2,1)
  proof cases
    case (maintenance s rg unix_secs)
    then show ?thesis using that(1) by (simp add: server_idle_def maintenance_pass_provider evict_idle_idle)
  qed (hypsubst, erule (2) router_keeps_idle)
qed

lemma built_pools_configured:
  assumes "manager_idle cfg m"
  shows "built_pool_count m \<le> length (cf_pools cfg)"
proof -
  have known: "hm_wf (pm_pools m)" "dom (hm_get (pm_pools m)) \<subseteq> dom (hm_get (cf_pools cfg))"
    using assms by (auto simp: manager_idle_def pools_known_def)
  have "built_pool_count m = card (dom (hm_get (pm_pools m)))"
    using hm.len_card [OF known(1)] by (simp add: built_pool_count_def)
  also have "\<dots> \<le> card (dom (hm_get (cf_pools cfg)))" by (rule card_mono [OF finite_dom_map_of known(2)])
  also have "\<dots> \<le> length (cf_pools cfg)"
    by (simp add: dom_map_of_conv_image_fst card_image_le [THEN order_trans] card_length)
  finally show ?thesis .
qed

text \<open>
  C5. The running server gives back what it takes. After any sequence of requests on any route, whatever their bodies,
  verdicts and backend errors, answered by their handler or turned away by the admission layers, and of maintenance passes:
  the in-flight gauge is zero; every built pool is one of the configuration, all its
  permits are free, its queue is empty, its gauge is zero, no client is leased and its breaker is not left half open;
  no more pools are built than configured; and the orderly end of the server, whatever maintenance was still to run, leaves no pool.
\<close>

theorem server_returns_resources:
  assumes "server_init cfg x" and "(server_step lib cfg authenticate ops build)\<^sup>*\<^sup>* x (t, rg)"
  shows "rg_in_flight rg = 0
    \<and> (\<forall>name i. hm_get (pm_pools (as_provider t)) name = Some i \<longrightarrow>
      (\<exists>pc. hm_get (cf_pools cfg) name = Some pc)
      \<and> (let e = pm_entries (as_provider t) ! i in
          pe_permits e = pe_permit_count e \<and> pe_waiters e = 0 \<and> pe_permits_in_use e = 0
          \<and> list_all Not (pe_client_leases e) \<and> breaker_state_of (pe_breaker e) \<noteq> HalfOpen))
    \<and> built_pool_count (as_provider t) \<le> length (cf_pools cfg)
    \<and> built_pool_count (as_provider (server_end cfg pending t)) = 0"
proof -
  from server.inv_reachable [OF assms] have idle: "manager_idle cfg (as_provider t)" and gauge: "rg_in_flight rg = 0"
    by (simp_all add: server_idle_def)
  have "entry_idle (pm_entries (as_provider t) ! i) \<and> (\<exists>pc. hm_get (cf_pools cfg) name = Some pc)"
    if "hm_get (pm_pools (as_provider t)) name = Some i" for name i
    using idle that by (auto simp: manager_idle_def pools_known_def list_all_length)
  then have "(\<exists>pc. hm_get (cf_pools cfg) name = Some pc)
      \<and> (let e = pm_entries (as_provider t) ! i in
          pe_permits e = pe_permit_count e \<and> pe_waiters e = 0 \<and> pe_permits_in_use e = 0
          \<and> list_all Not (pe_client_leases e) \<and> breaker_state_of (pe_breaker e) \<noteq> HalfOpen)"
    if "hm_get (pm_pools (as_provider t)) name = Some i" for name i
    using that by (simp add: entry_idle_def Let_def list_all_iff)
  moreover have "built_pool_count (as_provider (server_end cfg pending t)) = 0"
    using manager_shutdown_empty [OF run_pool_maintenance_idle [OF idle]] by (simp add: server_end_def Let_def)
  ultimately show ?thesis using built_pools_configured [OF idle] gauge by blast
qed

text \<open>A request for \<open>PING\<close> to a server with one pool.\<close>

definition one_pool :: config where
  "one_pool = demo_cfg\<lparr>cf_pools := [(''default'', pool_config_new ''redis://h'' 2 1000 1000 (Some 8) None)]\<rparr>"

definition ping_server :: "(unit pool_manager, unit auth_state) app_state" where
  "ping_server = app_state_new one_pool (jwt_state_new (ja_config demo_jwt) (jx_jwks demo_jwks) () (sconst 0)) (sconst 0)"

definition ping_run :: "unit http_response option \<times> (unit, unit) server_state" where
  "ping_run = router (demo_libs (command_doc (''PING'', []), True)) one_pool
     (\<lambda>bearer s. (Inr (Some demo_identity), s))
     (pool_provider healthy_ops (\<lambda>_. Inr (\<lambda>_. ())) one_pool 0 0 0 (\<lambda>_. InTime))
     Passed None 5 ''POST'' ''/'' False demo_request (ping_server, demo_registry)"

lemma ping_acquires:
  "pool_acquire (\<lambda>_. Inr (\<lambda>_. ())) one_pool 0 0 ''default'' pool_manager_new
     = (Inr \<lparr>ph_entry = 0, ph_client = 0, ph_permit = \<lparr>pm_generation = 0, pm_probe = False\<rparr>, ph_reset_started = False,
            ph_recorded = False\<rparr>, snd (pool_acquire (\<lambda>_. Inr (\<lambda>_. ())) one_pool 0 0 ''default'' pool_manager_new))"
  "length (pm_pools (snd (pool_acquire (\<lambda>_. Inr (\<lambda>_. ())) one_pool 0 0 ''default'' pool_manager_new))) = 1"
  by (simp_all add: pool_acquire_def get_or_build_def one_pool_def pool_build_def pool_manager_new_def pool_config_new_def
      acquire_entry_def entry_admit_def breaker_admit_def breaker_new_def waiter_enter_def permit_take_def waiter_drop_def
      acquire_client_def next_start_def gauge_add_def lease_lock_def put_entry_def Let_def)

lemma pools_of_executor: "with_executor f (h, m) = (r, h', m') \<Longrightarrow> pm_pools m' = pm_pools m"
  by (auto simp: with_executor_def store_executor_def put_entry_def Let_def split: prod.splits)

lemma pools_of_drop [simp]: "pm_pools (handle_drop h m) = pm_pools m"
  by (simp add: handle_drop_def put_entry_def Let_def)

lemma ping_built: "built_pool_count (as_provider (fst (snd ping_run))) = 1"
proof -
  obtain m where m: "pool_acquire (\<lambda>_. Inr (\<lambda>_. ())) one_pool 0 0 ''default'' pool_manager_new
     = (Inr \<lparr>ph_entry = 0, ph_client = 0, ph_permit = \<lparr>pm_generation = 0, pm_probe = False\<rparr>, ph_reset_started = False,
            ph_recorded = False\<rparr>, m)" "length (pm_pools m) = 1"
    using ping_acquires by fastforce
  have cfg: "cf_server one_pool = default_server_config" by (simp add: one_pool_def demo_cfg_def)
  have pools: "pm_pools (snd (execute_and_release (pool_provider ops build c u a r w) h cmd m')) = pm_pools m'"
    for ops :: "'c fred_ops" and build c u a r w h cmd m'
    by (auto simp: execute_and_release_def pool_provider_def dest: pools_of_executor split: prod.splits)
  obtain r m1 where e: "execute_and_release (pool_provider healthy_ops (\<lambda>_. Inr (\<lambda>_. ())) one_pool 0 0 0 (\<lambda>_. InTime))
      \<lparr>ph_entry = 0, ph_client = 0, ph_permit = \<lparr>pm_generation = 0, pm_probe = False\<rparr>, ph_reset_started = False,
            ph_recorded = False\<rparr> \<lparr>cmd_name = ''PING'', cmd_args = []\<rparr> m = (r, m1)" by fastforce
  have "length (pm_pools m1) = 1" using pools [of _ _ _ _ _ _ _ _ _ m] e m(2) by (metis snd_conv)
  then show ?thesis
    by (simp add: ping_run_def router_def router_serve_def apply_admission_controls_def api_path_def serve_def route_def serve_api_def authed_identity_def demo_bearer Let_def)
      (auto simp: demo_defs cfg ping_server_def app_state_new_def run_authenticator_def try_call_def return_def
        limited_access_def record_debt_forgiveness_def handler_def command_execute_def note_audit_def read_body_def
        demo_ping demo_ping_ok charge_rate_limit_def acquire_def on_provider_def pool_provider_def m
        e [unfolded pool_provider_def] normalize_def respond_def demo_pool built_pool_count_def Let_def
        split: sum.splits prod.splits)
qed

theorem server_returns_resources_witness:
  "built_pool_count (as_provider (fst (snd ping_run))) = 1
     \<and> built_pool_count (as_provider (fst (snd ping_run))) \<le> length (cf_pools one_pool)
     \<and> rg_in_flight (snd (snd ping_run)) = 0
     \<and> built_pool_count (as_provider (server_end one_pool [Tick 5] (fst (snd ping_run)))) = 0"
proof -
  have start: "server_init one_pool (ping_server, demo_registry)"
    by (auto simp: server_init_def ping_server_def demo_registry_def)
  have "fst ping_run \<noteq> None" by (simp add: ping_run_def router_def Let_def)
  then obtain response where "fst ping_run = Some response" by blast
  then have run: "router (demo_libs (command_doc (''PING'', []), True)) one_pool (\<lambda>bearer s. (Inr (Some demo_identity), s))
      (pool_provider healthy_ops (\<lambda>_. Inr (\<lambda>_. ())) one_pool 0 0 0 (\<lambda>_. InTime)) Passed None 5 ''POST'' ''/'' False
      demo_request (ping_server, demo_registry) = (Some response, fst (snd ping_run), snd (snd ping_run))"
    unfolding ping_run_def by (metis prod.collapse)
  have step: "(server_step (demo_libs (command_doc (''PING'', []), True)) one_pool (\<lambda>bearer s. (Inr (Some demo_identity), s))
      healthy_ops (\<lambda>_. Inr (\<lambda>_. ())))\<^sup>*\<^sup>* (ping_server, demo_registry) (fst (snd ping_run), snd (snd ping_run))"
    by (rule r_into_rtranclp, rule server_step.request [OF run]) simp
  show ?thesis using server_returns_resources [OF start step, of "[Tick 5]"] ping_built by blast
qed

end
