(* ===== verification/Contracts.thy ===== *)
theory Contracts
  imports Jwt_Auth Executor
begin

text \<open>
  The contracts that the repository states for its ports and the fakes it tests with (\<open>src/testsupport\<close>):
  a scripted executor, an in-memory key source, the executor contract and the authenticator contract. A contract is a sequence of
  calls with assertions; it returns the state after the last call, or \<open>None\<close> when an assertion fails.
\<close>

section \<open>The scripted executor\<close>

record fake_executor =
  fe_replies :: "exec_result list"
  fe_calls :: "redis_command list list"

definition fake_new :: "exec_result list \<Rightarrow> fake_executor" where
  "fake_new replies = \<lparr>fe_replies = replies, fe_calls = []\<rparr>"

definition fake_record :: "redis_command list \<Rightarrow> fake_executor \<Rightarrow> fake_executor" where
  "fake_record commands x = x\<lparr>fe_calls := fe_calls x @ [commands]\<rparr>"

definition fake_next :: "fake_executor \<Rightarrow> exec_result \<times> fake_executor" where
  "fake_next x =
     (case fe_replies x of
        [] \<Rightarrow> (Inl (ExecTransport ''FakeExecutor reply script exhausted''), x)
      | reply # replies \<Rightarrow> (reply, x\<lparr>fe_replies := replies\<rparr>))"

definition fake_execute :: "redis_command \<Rightarrow> fake_executor \<Rightarrow> exec_result \<times> fake_executor" where
  "fake_execute command x = fake_next (fake_record [command] x)"

fun fake_take :: "nat \<Rightarrow> fake_executor \<Rightarrow> exec_result list \<times> fake_executor" where
  "fake_take 0 x = ([], x)"
| "fake_take (Suc n) x =
     (case fake_next x of (r, x1) \<Rightarrow> (case fake_take n x1 of (rs, x2) \<Rightarrow> (r # rs, x2)))"

definition fake_pipeline :: "redis_command list \<Rightarrow> fake_executor \<Rightarrow> exec_result list \<times> fake_executor" where
  "fake_pipeline commands x = fake_take (length commands) (fake_record commands x)"

definition unknown_command :: "exec_result \<Rightarrow> bool" where
  "unknown_command r = (case r of Inl (ExecRedis message) \<Rightarrow> prefix ''ERR unknown command'' message | _ \<Rightarrow> False)"

fun fake_slots :: "nat \<Rightarrow> fake_executor \<Rightarrow> (exec_error + exec_result list) \<times> fake_executor" where
  "fake_slots 0 x = (Inr [], x)"
| "fake_slots (Suc n) x =
     (case fake_next x of
        (slot, x1) \<Rightarrow>
          if unknown_command slot then (map_sum id (\<lambda>v. [Inr v]) slot, x1)
          else (case fake_slots n x1 of
                  (Inl e, x2) \<Rightarrow> (Inl e, x2) | (Inr slots, x2) \<Rightarrow> (Inr (slot # slots), x2)))"

definition fake_transaction ::
  "redis_command list \<Rightarrow> fake_executor \<Rightarrow> (exec_error + exec_result list) \<times> fake_executor" where
  "fake_transaction commands x = fake_slots (length commands) (fake_record commands x)"

section \<open>The executor contract\<close>

definition command :: "string \<Rightarrow> string list \<Rightarrow> redis_command" where
  "command name args = \<lparr>cmd_name = name, cmd_args = args\<rparr>"

definition expect :: "('r \<Rightarrow> bool) \<Rightarrow> ('p \<Rightarrow> 'r \<times> 'p) \<Rightarrow> 'p \<Rightarrow> 'p option" where
  "expect P call p = (case call p of (r, p1) \<Rightarrow> if P r then Some p1 else None)"

fun expect_all :: "('p \<Rightarrow> 'p option) list \<Rightarrow> 'p \<Rightarrow> 'p option" where
  "expect_all [] p = Some p"
| "expect_all (step # steps) p = Option.bind (step p) (expect_all steps)"

definition wrong_type :: string where
  "wrong_type = ''WRONGTYPE Operation against a key holding the wrong kind of value''"

definition not_an_integer :: string where
  "not_an_integer = ''ERR value is not an integer or out of range''"

definition executor_contract ::
  "(redis_command \<Rightarrow> 'p \<Rightarrow> exec_result \<times> 'p) \<Rightarrow> (redis_command list \<Rightarrow> 'p \<Rightarrow> exec_result list \<times> 'p)
    \<Rightarrow> (redis_command list \<Rightarrow> 'p \<Rightarrow> (exec_error + exec_result list) \<times> 'p) \<Rightarrow> 'p \<Rightarrow> 'p option" where
  "executor_contract execute pipeline transaction = expect_all
     [expect (\<lambda>r. r = Inr []) (transaction []),
      expect (\<lambda>r. r = Inr (RespSimple ''OK'')) (execute (command ''SET'' [''srh:contract:wrongtype'', ''value''])),
      expect (\<lambda>r. r = Inl (ExecRedis wrong_type)) (execute (command ''HGET'' [''srh:contract:wrongtype'', ''field''])),
      expect (\<lambda>rs. rs = [Inr (RespSimple ''OK''), Inl (ExecRedis wrong_type), Inr (RespInt 1)])
        (pipeline [command ''SET'' [''srh:contract:pipeline'', ''value''], command ''HGET'' [''srh:contract:pipeline'', ''field''],
                   command ''INCR'' [''srh:contract:counter'']]),
      expect (\<lambda>r. r = Inr RespNil) (execute (command ''GET'' [''srh:contract:missing''])),
      expect (\<lambda>r. r = Inr [Inr (RespInt 1), Inr (RespInt 1)])
        (transaction [command ''INCR'' [''srh:contract:first''], command ''INCR'' [''srh:contract:second'']]),
      expect (\<lambda>r. r = Inr (RespSimple ''OK'')) (execute (command ''SET'' [''srh:contract:transaction-error'', ''text''])),
      expect (\<lambda>r. r = Inr [Inr (RespSimple ''OK''), Inl (ExecRedis not_an_integer), Inr (RespSimple ''OK'')])
        (transaction [command ''SET'' [''srh:contract:transaction-before'', ''written''],
                      command ''INCR'' [''srh:contract:transaction-error''],
                      command ''SET'' [''srh:contract:transaction-after'', ''written'']]),
      expect (\<lambda>r. case r of Inl e \<Rightarrow> unknown_command (Inl e) | Inr _ \<Rightarrow> False)
        (transaction [command ''SET'' [''srh:contract:atomic:first'', ''written''], command ''SRH_UNKNOWN_COMMAND'' [],
                      command ''SET'' [''srh:contract:atomic:second'', ''written'']]),
      expect (\<lambda>r. r = Inr RespNil) (execute (command ''GET'' [''srh:contract:atomic:first''])),
      expect (\<lambda>r. r = Inr RespNil) (execute (command ''GET'' [''srh:contract:atomic:second''])),
      expect (\<lambda>rs. rs = [Inl (ExecRedis ''boom lowercase failure'')])
        (pipeline [command ''EVAL''
           [''return redis.error_reply('' @ quote @ ''boom lowercase failure'' @ quote @ '')'', ''0'']]),
      expect (\<lambda>r. r = Inr (RespSimple ''OK'')) (execute (command ''SET'' [''srh:contract:okvalue'', ''OK''])),
      expect (\<lambda>rs. rs = [Inr (RespBulk ''OK'')]) (pipeline [command ''GET'' [''srh:contract:okvalue'']])]"

text \<open>The script of the test \<open>fake_executor_satisfies_contract\<close>.\<close>

definition contract_script :: "exec_result list" where
  "contract_script =
     [Inr (RespSimple ''OK''), Inl (ExecRedis wrong_type), Inr (RespSimple ''OK''), Inl (ExecRedis wrong_type), Inr (RespInt 1),
      Inr RespNil, Inr (RespInt 1), Inr (RespInt 1), Inr (RespSimple ''OK''), Inr (RespSimple ''OK''),
      Inl (ExecRedis not_an_integer), Inr (RespSimple ''OK''),
      Inl (ExecRedis (''ERR unknown command '' @ quote @ ''SRH_UNKNOWN_COMMAND'' @ quote)),
      Inr RespNil, Inr RespNil, Inl (ExecRedis ''boom lowercase failure''), Inr (RespSimple ''OK''), Inr (RespBulk ''OK'')]"

lemma fake_executor_satisfies_contract:
  "\<exists>x. executor_contract fake_execute fake_pipeline fake_transaction (fake_new contract_script) = Some x \<and> fe_replies x = []"
  by (simp add: executor_contract_def expect_def contract_script_def fake_new_def fake_execute_def fake_pipeline_def
      fake_transaction_def fake_next_def fake_record_def unknown_command_def not_an_integer_def numeral_3_eq_3)

text \<open>What the tests read back: the calls of the fake are the requests, in order, whatever the script.\<close>

lemma fake_take_calls [simp]: "fe_calls (snd (fake_take n x)) = fe_calls x" "length (fst (fake_take n x)) = n"
  by (induction n x rule: fake_take.induct) (auto simp: fake_next_def split: prod.splits list.splits)

lemma fake_slots_calls [simp]: "fe_calls (snd (fake_slots n x)) = fe_calls x"
  by (induction n x rule: fake_slots.induct) (auto simp: fake_next_def split: prod.splits sum.splits list.splits if_splits)

lemma fake_calls:
  "fe_calls (snd (fake_execute cmd x)) = fe_calls x @ [[cmd]]"
  "fe_calls (snd (fake_pipeline cmds x)) = fe_calls x @ [cmds]"
  "fe_calls (snd (fake_transaction cmds x)) = fe_calls x @ [cmds]"
  "length (fst (fake_pipeline cmds x)) = length cmds"
  by (auto simp: fake_execute_def fake_pipeline_def fake_transaction_def fake_record_def fake_next_def split: list.splits)

section \<open>Keys and authenticators\<close>

record fake_jwks =
  fj_keys :: "(string, cached_key) hash_map"
  fj_calls :: nat

definition fake_jwks_new :: "(string, cached_key) hash_map \<Rightarrow> fake_jwks" where
  "fake_jwks_new keys = \<lparr>fj_keys = keys, fj_calls = 0\<rparr>"

definition fake_key_for :: "fake_jwks jwks_source" where
  "fake_key_for kid x =
     (case hm_get (fj_keys x) kid of Some key \<Rightarrow> Inr key | None \<Rightarrow> Inl JwksNotFound, x\<lparr>fj_calls := fj_calls x + 1\<rparr>)"

definition authenticator_contract :: "'s authenticator \<Rightarrow> string \<Rightarrow> string \<Rightarrow> 's \<Rightarrow> 's option" where
  "authenticator_contract authenticate valid unrecognized = expect_all
     [expect (\<lambda>r. case r of Inr (Some ident) \<Rightarrow> True | _ \<Rightarrow> False) (authenticate valid),
      expect (\<lambda>r. r = Inr None) (authenticate unrecognized)]"

lemma static_auth_satisfies_contract:
  assumes "hm_get tokens (sha256 valid) = Some token" and "hm_get tokens (sha256 unrecognized) = None"
  shows "authenticator_contract (static_authenticate sha256 (static_auth_new tokens)) valid unrecognized s = Some s"
proof -
  have "hm_get (static_auth_new tokens) d = map_option (static_identity d) (hm_get tokens d)" for d
    by (induction tokens) (auto simp: static_auth_new_def)
  with assms show ?thesis by (simp add: authenticator_contract_def expect_def static_authenticate_def)
qed

text \<open>A token for which the key source has no key is refused, so that no later link of a chain sees it.\<close>

lemma unknown_key_rejected:
  assumes "length (filter (\<lambda>c. c = CHR ''.'') bearer) = 2" and "jl_decode_header lib bearer = Some (Some kid)"
    and "hm_get (fj_keys (js_jwks s)) kid = None"
  shows "fst (jwt_authenticate lib fake_key_for intro ja bearer s) = Inl AuthRejected"
  using assms by (simp add: jwt_authenticate_def jwt_validate_def fake_key_for_def split: prod.splits)

end
