(* ===== verification/Spec2Isabelle.thy ===== *)
theory Spec2Isabelle
  imports Pool_Eviction Waiter_Gauge Pool_Metrics Jwks_Interleaving Introspection_Interleaving Client_Setup Redaction Profile_Inproc Server_Runs Contracts
begin

text \<open>
  \<^bold>\<open>srh-rs\<close> is an HTTP proxy in front of Redis that speaks the Upstash REST protocol. A request
  carries a bearer token and one command, a pipeline or a transaction as JSON. The proxy
  authenticates the token, charges a rate limit, checks every command against an access
  control list, runs what is allowed on a pooled Redis connection behind a circuit breaker,
  and answers with JSON. This development models the Rust sources under \<open>src/\<close> and proves the
  properties numbered C1, C2, ... in the theories.

  \<^bold>\<open>Modelling.\<close> Structs are records, enums datatypes, \<open>Result\<close> is a sum with the error on the left.
  A \<open>HashMap\<close> is an association list with the laws of the locale \<open>finite_map\<close>, a \<open>BTreeMap\<close> a
  sorted one (\<open>ordered_map\<close>). Strings are byte lists. Machine words are \<open>64 word\<close> where the code lets them wrap; sizes are
  naturals with the checked or saturating operation written out; \<open>f64\<close> balances are rationals
  rounded to binary64. An operation under a mutex is a function of the protected
  state, and concurrency is a step relation over such operations with an invariant, through
  the locale \<open>step_system\<close>. Clock readings are arguments or streams. Third-party code (SHA-256, base64, \<open>serde_json\<close>,
  \<open>jsonwebtoken\<close>, the Redis client \<open>fred\<close>, HTTP and URLs) is a parameter, collected in records
  (\<open>serde\<close>, \<open>fred_ops\<close>, \<open>fred_lib\<close>, \<open>config_io\<close>, \<open>libs\<close>, \<open>jwt_lib\<close>, \<open>net_lib\<close>), and so is what the operating system
  gives the process (\<open>main_io\<close>) and what the tower layers decide for a request (\<open>admission\<close>); what a property needs of it is a named hypothesis. No definition uses fuel: all functions are
  structural or have a termination proof.

  \<^bold>\<open>Theories.\<close>
  \<^item> \<open>Rust_Prelude\<close>, \<open>Utf8\<close>, \<open>F64\<close>: checked arithmetic, results, ASCII case, collections, step systems, time;
    UTF-8 validation and lossy decoding; rounding to binary64.
  \<^item> \<open>Domain\<close> (\<open>domain/identity.rs\<close>, \<open>domain/resp.rs\<close>, \<open>ports/mod.rs\<close>): identities, errors, RESP values.
  \<^item> \<open>Acl\<close> (\<open>domain/acl.rs\<close>, \<open>domain/compat.rs\<close>): the command policy and argument normalisation; the nested early
    returns decide a policy of independent gates, accepted commands leave the connection clean,
    narrowing an identity never widens what it may run.
  \<^item> \<open>Breaker\<close> (\<open>domain/breaker.rs\<close>): the circuit breaker and its interleavings; one live probe, refinement of
    a machine without generations, exact threshold and retry delay.
  \<^item> \<open>Rate_Limit\<close> (\<open>domain/rate_limit.rs\<close>): token buckets with two recency trees; refinement of a list of accounts, the index
    is exact, throughput bound, exact delays, debt survives.
  \<^item> \<open>Convert\<close> (\<open>domain/convert.rs\<close>): argument conversion, response budget and rendering; the budget is exact
    to the byte and base64 rendering loses nothing.
  \<^item> \<open>Parse\<close> (\<open>http/parse.rs\<close>): the streaming request parser with its element and command limits.
  \<^item> \<open>Raw_Config\<close>, \<open>Config\<close> (\<open>config.rs\<close>): the raw documents with their derived deserializers, each equivalent to a schema; defaults and
    conversions; the three ways to load a configuration, overrides, validation.
  \<^item> \<open>Redaction\<close> (\<open>config.rs\<close>, \<open>domain/identity.rs\<close>): secrets and the debug output of the configuration and of identities, which hides exactly them.
  \<^item> \<open>Executor\<close> (\<open>adapters/fred_executor.rs\<close>, \<open>adapters/breaker_executor.rs\<close>): frames, errors, commands, pipelines and transactions on a client,
    and the wrapper that reports to the breaker; the locale \<open>command_executor\<close> is what the
    handlers rely on.
  \<^item> \<open>Client_Setup\<close> (\<open>adapters/fred_executor.rs\<close>, \<open>adapters/pool_manager.rs\<close>): the settings a Redis client and a client pool are made with,
    connecting and dropping one.
  \<^item> \<open>App_Error\<close>, \<open>Observability\<close>, \<open>App_State\<close>, \<open>Handlers\<close> (\<open>error.rs\<close>, \<open>http/*.rs\<close>, \<open>lib.rs\<close>): error responses, audit and metrics, the calls the
    handlers share, the handlers and routes. \<open>Request_Safety\<close> describes the effect of a whole request on the ports: what runs, what is charged, where results go.
  \<^item> \<open>Router\<close> (\<open>http/mod.rs\<close>): the admission layers around the API routes and the observation layer around all of them; the audit trail is complete.
  \<^item> \<open>Pool_Manager\<close>, \<open>Pool_Interleaving\<close>, \<open>Pool_Eviction\<close>, \<open>Waiter_Gauge\<close>, \<open>Pool_Metrics\<close> (\<open>adapters/pool_manager.rs\<close>): pools, acquisition, leases, readiness, eviction; then the atomic
    accesses of many requests on one pool in any order, dropped at any await; then all pools with eviction among the requests;
    the queue counter with the gauge that follows it; and the counters and gauges each operation writes.
  \<^item> \<open>Auth\<close>, \<open>Introspection_Cache\<close>, \<open>Jwt_Auth\<close>, \<open>Outbound\<close> (\<open>adapters/static_auth.rs\<close>, \<open>auth_chain.rs\<close>, \<open>jwt_auth.rs\<close>, \<open>http_jwks.rs\<close>, \<open>http_introspect.rs\<close>, \<open>outbound_http.rs\<close>): authenticators with the
    locale \<open>authenticator\<close>, tokens and claims, the result cache, signing keys and their refresh. \<open>Jwks_Interleaving\<close> runs many key lookups
    at once around the refresh lock, dropped at any point; one that is undisturbed does what \<open>key_for\<close> does.
    \<open>Introspection_Interleaving\<close> runs many checks of tokens at once around the cache, with old clock readings, and bounds the life of a revoked token.
  \<^item> \<open>Server\<close> (\<open>main.rs\<close>, \<open>adapters/system_clock.rs\<close>): the whole startup with every way to fail, the authenticator chain, the initial state, the maintenance, the accept loop and the orderly end.
  \<^item> \<open>Leases\<close>, \<open>Pool_Leases\<close>, \<open>Server_Runs\<close>: the locale \<open>lease_provider\<close> with the proof that no handler forgets a handle, its
    interpretation on the pool manager, and the running server: any sequence of requests through the router and of maintenance gives back what it takes.
  \<^item> \<open>Contracts\<close> (\<open>testsupport/*.rs\<close>): the contracts of the executor and authenticator ports and the fakes of the tests.
  \<^item> \<open>Profile_Inproc\<close> (\<open>bin/profile-inproc.rs\<close>): the constant executor and provider of the profiling harness, its command line and state, its
    client, which counts every response once, and its run.

  \<^bold>\<open>Composition.\<close> A handler is polymorphic in its provider and its authenticator. The provider of the
  server is \<open>pool_provider\<close>, whose executors satisfy \<open>command_executor\<close> by the interpretations
  \<open>fred\<close>, \<open>pooled\<close> and \<open>pool\<close>; how it makes its clients is the argument \<open>build\<close>, for which \<open>fred_build\<close> stands in the server; the authenticator of the server is \<open>server_authenticator\<close>, a chain of
  links that satisfy \<open>authenticator\<close>. \<open>serve\<close> dispatches to the handlers and \<open>router\<close> puts the layers around it. The pool manager also satisfies \<open>lease_provider\<close> (interpretation \<open>managed\<close>), from which
  \<open>Server_Runs\<close> gets its invariant; the profiling provider satisfies the same two interfaces (\<open>const\<close>, \<open>harness\<close>). The property in this theory joins startup, configuration,
  authentication and pools.

  \<^bold>\<open>Not modelled.\<close> Sockets, TLS and the delivery of signals. How the tower layers count concurrent requests and measure time, which is third-party code:
  their verdict on a request is an argument of \<open>router\<close>. A handler cut off by the HTTP timeout or by its client is in an arbitrary
  state there; where it may be cut off is the drops of \<open>Pool_Interleaving\<close>, \<open>Pool_Eviction\<close>, \<open>Jwks_Interleaving\<close> and \<open>Introspection_Interleaving\<close> and the property of dropped transactions.
  The text of log lines other than the completion event. How many connections a Redis client pool has open, which is an argument of the eviction
  metrics. Of the profiling binary, its runtimes and threads and the layout of the printed line.
  The unit tests inside the sources and \<open>tests/\<close>.
\<close>

section \<open>Configuration, authentication and pools\<close>

text \<open>
  C12. A server that has started never authenticates a client for a pool it does not have: whichever link
  of the chain accepts the token, static or JWT, the identity names a configured pool, so that acquiring its pool does not
  fail with an unknown pool.
\<close>

theorem authenticated_pool_exists:
  assumes "server_start cio io jlib nl send network clock = Inr sd"
    and "sd_authenticator sd bearer s = (Inr (Some ident), s')"
  shows "(\<exists>p. hm_get (cf_pools (sd_config sd)) (pool ident) = Some p)
    \<and> fst (pool_acquire build (sd_config sd) unix_secs now (pool ident) m) \<noteq> Inl (UnknownPool n)"
proof -
  note started = server_start_started [OF assms(1)]
  have "authenticator (sd_authenticator sd) (\<lambda>_. True) (pool_configured (sd_config sd))"
    by (rule server_authenticator_configured [OF from_environment_validated [OF started(1)] started(2)])
  then have "pool_configured (sd_config sd) ident" by (rule authenticator.gives) (use assms(2) in simp_all)
  then show ?thesis using configured_pool_known by blast
qed

definition sample_main :: main_io where
  "sample_main = \<lparr>mi_env = sample_env, mi_log_filter = None, mi_is_loopback = (\<lambda>_. True), mi_metrics_listener = (\<lambda>_. Inr ()),
     mi_listen = (\<lambda>_. Inr ()), mi_sigterm = Inr ()\<rparr>"

theorem authenticated_pool_exists_witness:
  "\<exists>sd ident s. server_start sample_io sample_main demo_jwt_lib demo_net (\<lambda>_ _ n. (OutTimedOut, n)) () (sconst 0) = Inr sd
     \<and> sd_authenticator sd ''t'' (jwt_state_new (ja_config demo_jwt) (jx_jwks demo_jwks) () (sconst 0)) = (Inr (Some ident), s)
     \<and> (\<exists>p. hm_get (cf_pools (sd_config sd)) (pool ident) = Some p)"
proof -
  obtain c where c: "from_environment sample_io sample_env = Inr c" "au_jwt (cf_auth c) = None"
      "sv_tls (cf_server c) = None"
      "au_static_tokens (cf_auth c) = [(''t'', default_token ''default'' True)]"
    using sample_config by blast
  define static :: "unit auth_state authenticator"
    where "static = static_authenticate (\<lambda>b. b) (static_auth_new (au_static_tokens (cf_auth c)))"
  obtain sd where sd: "server_start sample_io sample_main demo_jwt_lib demo_net (\<lambda>_ _ n. (OutTimedOut, n)) () (sconst 0) = Inr sd"
      "sd_authenticator sd = auth_chain [static]"
    using c by (simp add: server_start_def sample_main_def res_bind_def server_authenticator_def static_def sample_io_def Let_def)
  define s0 where "s0 = jwt_state_new (ja_config demo_jwt) (jx_jwks demo_jwks) () (sconst 0)"
  have r: "sd_authenticator sd ''t'' s0 = (Inr (Some (static_identity ''t'' (default_token ''default'' True))), s0)"
    by (simp add: sd(2) static_def static_authenticate_def c(4) static_auth_new_def)
  show ?thesis
    using sd(1) r authenticated_pool_exists [OF sd(1) r] unfolding s0_def by blast
qed

end
